(* ===== verification/Prelude.thy ===== *)
theory Prelude
  imports Main "HOL-Library.Word" "HOL-Library.Sublist"
begin

text \<open>
  Vocabulary shared by every component: machine integers and byte strings, fallible
  computations, the Rust string operations the sources use, and the contracts
  (\<^verbatim>\<open>fixed_codec\<close>, \<^verbatim>\<open>enum_codec\<close>) that several components implement.
\<close>

named_theorems codec_simps \<open>lengths and round trips of the integer encodings\<close>
named_theorems res_simps \<open>evaluation rules of fallible computations\<close>

section \<open>Machine integers and bytes\<close>

type_synonym byte = "8 word"
type_synonym bytes = "byte list"
type_synonym u16 = "16 word"
type_synonym u32 = "32 word"
type_synonym u64 = "64 word"

text \<open>Rust's \<^verbatim>\<open>to_le_bytes\<close>/\<^verbatim>\<open>from_le_bytes\<close> and their big-endian twins, for any width.\<close>

fun to_le :: "nat \<Rightarrow> nat \<Rightarrow> bytes" where
  "to_le 0 x = []"
| "to_le (Suc n) x = of_nat (x mod 256) # to_le n (x div 256)"

fun from_le :: "bytes \<Rightarrow> nat" where
  "from_le [] = 0"
| "from_le (b # bs) = unat b + 256 * from_le bs"

definition to_be :: "nat \<Rightarrow> nat \<Rightarrow> bytes" where
  "to_be n x = rev (to_le n x)"

definition from_be :: "bytes \<Rightarrow> nat" where
  "from_be bs = from_le (rev bs)"

lemma length_to_le [simp, codec_simps]: "length (to_le n x) = n"
  by (induction n arbitrary: x) auto

lemma length_to_be [simp, codec_simps]: "length (to_be n x) = n"
  by (simp add: to_be_def)

lemma from_to_le: "x < 256 ^ n \<Longrightarrow> from_le (to_le n x) = x"
proof (induction n arbitrary: x)
  case 0
  then show ?case by simp
next
  case (Suc n)
  then have "x div 256 < 256 ^ n"
    by (simp add: less_mult_imp_div_less mult.commute)
  then have "from_le (to_le n (x div 256)) = x div 256"
    by (rule Suc.IH)
  then show ?case
    by (simp add: unat_of_nat)
qed

lemma from_to_be: "x < 256 ^ n \<Longrightarrow> from_be (to_be n x) = x"
  by (simp add: from_be_def to_be_def from_to_le)

lemma from_le_bound: "from_le bs < 256 ^ length bs"
proof (induction bs)
  case (Cons b bs)
  have "unat b < 256" using unsigned_less [of b, where ?'a = nat] by simp
  with Cons show ?case by simp
qed simp

lemma to_from_le: "length bs = n \<Longrightarrow> to_le n (from_le bs) = bs"
proof (induction bs arbitrary: n)
  case (Cons b bs)
  have "unat b < 256" using unsigned_less [of b, where ?'a = nat] by simp
  with Cons show ?case by auto
qed simp

lemma to_from_be: "length bs = n \<Longrightarrow> to_be n (from_be bs) = bs"
  using to_from_le [of "rev bs" n] by (simp add: to_be_def from_be_def)

lemma from_be_bound: "from_be bs < 256 ^ length bs"
  using from_le_bound [of "rev bs"] by (simp add: from_be_def)

text \<open>
  The contract of a fixed-width encoding: what the wire formats rely on when they place
  and read integer fields.
\<close>

locale fixed_codec =
  fixes enc :: "'a \<Rightarrow> bytes" and dec :: "bytes \<Rightarrow> 'a" and width :: nat
  assumes length_enc: "length (enc x) = width"
    and dec_enc: "dec (enc x) = x"
    and enc_dec: "length bs = width \<Longrightarrow> enc (dec bs) = bs"
begin

lemma enc_inject: "enc x = enc y \<longleftrightarrow> x = y"
  by (metis dec_enc)

lemma field_at: "length pre = off \<Longrightarrow> dec (take width (drop off (pre @ enc x @ post))) = x"
  by (simp add: length_enc dec_enc)

lemma dec_inject: "length bs = width \<Longrightarrow> length cs = width \<Longrightarrow> dec bs = dec cs \<longleftrightarrow> bs = cs"
  by (metis enc_dec)

end

definition u16_to_be :: "u16 \<Rightarrow> bytes" where "u16_to_be w = to_be 2 (unat w)"
definition u16_from_be :: "bytes \<Rightarrow> u16" where "u16_from_be bs = of_nat (from_be bs)"
definition u32_to_be :: "u32 \<Rightarrow> bytes" where "u32_to_be w = to_be 4 (unat w)"
definition u32_from_be :: "bytes \<Rightarrow> u32" where "u32_from_be bs = of_nat (from_be bs)"
definition u64_to_be :: "u64 \<Rightarrow> bytes" where "u64_to_be w = to_be 8 (unat w)"
definition u64_from_be :: "bytes \<Rightarrow> u64" where "u64_from_be bs = of_nat (from_be bs)"
definition u16_to_le :: "u16 \<Rightarrow> bytes" where "u16_to_le w = to_le 2 (unat w)"
definition u16_from_le :: "bytes \<Rightarrow> u16" where "u16_from_le bs = of_nat (from_le bs)"
definition u32_to_le :: "u32 \<Rightarrow> bytes" where "u32_to_le w = to_le 4 (unat w)"
definition u32_from_le :: "bytes \<Rightarrow> u32" where "u32_from_le bs = of_nat (from_le bs)"
definition u64_to_le :: "u64 \<Rightarrow> bytes" where "u64_to_le w = to_le 8 (unat w)"
definition u64_from_le :: "bytes \<Rightarrow> u64" where "u64_from_le bs = of_nat (from_le bs)"

lemma unat_u16_less: "unat (w :: u16) < 256 ^ 2"
  using unsigned_less [of w, where ?'a = nat] by simp

lemma unat_u32_less: "unat (w :: u32) < 256 ^ 4"
  using unsigned_less [of w, where ?'a = nat] by simp

lemma unat_u64_less: "unat (w :: u64) < 256 ^ 8"
  using unsigned_less [of w, where ?'a = nat] by simp

lemma unat_of_from_be:
  "length bs = 2 \<Longrightarrow> unat (of_nat (from_be bs) :: u16) = from_be bs"
  "length bs = 4 \<Longrightarrow> unat (of_nat (from_be bs) :: u32) = from_be bs"
  "length bs = 8 \<Longrightarrow> unat (of_nat (from_be bs) :: u64) = from_be bs"
  using from_be_bound [of bs] by (simp_all add: unat_of_nat)

lemma unat_of_from_le:
  "length bs = 2 \<Longrightarrow> unat (of_nat (from_le bs) :: u16) = from_le bs"
  "length bs = 4 \<Longrightarrow> unat (of_nat (from_le bs) :: u32) = from_le bs"
  "length bs = 8 \<Longrightarrow> unat (of_nat (from_le bs) :: u64) = from_le bs"
  using from_le_bound [of bs] by (simp_all add: unat_of_nat)

lemma from_to_be_unat:
  "from_be (to_be 2 (unat (a :: u16))) = unat a"
  "from_be (to_be 4 (unat (b :: u32))) = unat b"
  "from_be (to_be 8 (unat (c :: u64))) = unat c"
  by (rule from_to_be [OF unat_u16_less] from_to_be [OF unat_u32_less]
      from_to_be [OF unat_u64_less])+

lemma from_to_le_unat:
  "from_le (to_le 2 (unat (a :: u16))) = unat a"
  "from_le (to_le 4 (unat (b :: u32))) = unat b"
  "from_le (to_le 8 (unat (c :: u64))) = unat c"
  by (rule from_to_le [OF unat_u16_less] from_to_le [OF unat_u32_less]
      from_to_le [OF unat_u64_less])+

lemmas int_codec_defs =
  u16_to_be_def u16_from_be_def u32_to_be_def u32_from_be_def u64_to_be_def u64_from_be_def
  u16_to_le_def u16_from_le_def u32_to_le_def u32_from_le_def u64_to_le_def u64_from_le_def

lemmas int_codec_laws =
  int_codec_defs from_to_be_unat from_to_le_unat to_from_be to_from_le unat_of_from_be unat_of_from_le

interpretation be16: fixed_codec u16_to_be u16_from_be 2
  by unfold_locales (simp_all add: int_codec_laws)

interpretation be32: fixed_codec u32_to_be u32_from_be 4
  by unfold_locales (simp_all add: int_codec_laws)

interpretation be64: fixed_codec u64_to_be u64_from_be 8
  by unfold_locales (simp_all add: int_codec_laws)

interpretation le16: fixed_codec u16_to_le u16_from_le 2
  by unfold_locales (simp_all add: int_codec_laws)

interpretation le32: fixed_codec u32_to_le u32_from_le 4
  by unfold_locales (simp_all add: int_codec_laws)

interpretation le64: fixed_codec u64_to_le u64_from_le 8
  by unfold_locales (simp_all add: int_codec_laws)

lemmas codec_lengths [simp, codec_simps] =
  be16.length_enc be32.length_enc be64.length_enc le16.length_enc le32.length_enc le64.length_enc

lemmas codec_round_trips [simp, codec_simps] =
  be16.dec_enc be32.dec_enc be64.dec_enc le16.dec_enc le32.dec_enc le64.dec_enc

section \<open>Fallible computations\<close>

text \<open>
  A Rust \<^verbatim>\<open>Result<T, E>\<close> is the sum \<open>'e + 'a\<close> (\<open>Inl\<close> the error). The \<^verbatim>\<open>?\<close> operator is
  \<open>res_bind\<close>: the first error ends the computation.
\<close>

type_synonym ('e, 'a) result = "'e + 'a"

definition res_bind :: "('e, 'a) result \<Rightarrow> ('a \<Rightarrow> ('e, 'b) result) \<Rightarrow> ('e, 'b) result" where
  "res_bind r f = (case r of Inl e \<Rightarrow> Inl e | Inr x \<Rightarrow> f x)"

lemma res_bind_simps [simp, res_simps]:
  "res_bind (Inl e) f = Inl e"
  "res_bind (Inr x) f = f x"
  by (simp_all add: res_bind_def)

lemma res_bind_InrE:
  assumes "res_bind r f = Inr y"
  obtains x where "r = Inr x" and "f x = Inr y"
  using assms by (cases r) auto

lemma res_bind_if_error [res_simps]:
  "res_bind (if c then Inl e else Inr ()) f = (if c then Inl e else f ())"
  by simp

definition is_ok :: "('e, 'a) result \<Rightarrow> bool" where
  "is_ok r = (case r of Inl _ \<Rightarrow> False | Inr _ \<Rightarrow> True)"

lemma is_ok_simps [simp, res_simps]: "\<not> is_ok (Inl e)" "is_ok (Inr x)"
  by (simp_all add: is_ok_def)

definition ok_or :: "'e \<Rightarrow> 'a option \<Rightarrow> ('e, 'a) result" where
  "ok_or e r = (case r of None \<Rightarrow> Inl e | Some x \<Rightarrow> Inr x)"

lemma ok_or_simps [simp, res_simps]: "ok_or e None = Inl e" "ok_or e (Some x) = Inr x"
  by (simp_all add: ok_or_def)

section \<open>Lists\<close>

lemma length_filter_all_iff: "length (filter P xs) = length xs \<longleftrightarrow> (\<forall>x \<in> set xs. P x)"
proof
  assume "length (filter P xs) = length xs"
  then show "\<forall>x \<in> set xs. P x"
    using length_filter_less [of _ xs P] by fastforce
qed simp

lemma length_filter_mono:
  "(\<And>x. x \<in> set xs \<Longrightarrow> P x \<Longrightarrow> Q x) \<Longrightarrow> length (filter P xs) \<le> length (filter Q xs)"
  by (induction xs) (auto intro: le_SucI)

text \<open>The last \<open>n\<close> elements.\<close>

definition newest :: "nat \<Rightarrow> 'a list \<Rightarrow> 'a list" where
  "newest n xs = drop (length xs - n) xs"

lemma newest_newest_append: "newest n (newest n xs @ ys) = newest n (xs @ ys)"
  by (cases "length xs \<le> n"; cases "length ys \<le> n")
     (auto simp: newest_def add.commute)

lemma newest_id: "length xs \<le> n \<Longrightarrow> newest n xs = xs"
  by (simp add: newest_def)

lemma length_newest [simp]: "length (newest n xs) = min n (length xs)"
  by (auto simp: newest_def)

text \<open>
  Logs pruned from the front (\<^verbatim>\<open>while front is old { pop_front() }\<close>): what the code relies on is that
  with stamps in order this removes exactly the old entries.
\<close>

locale aged_log =
  fixes stamp :: "'a \<Rightarrow> nat" and retention :: nat
  assumes retention_pos: "0 < retention"
begin

definition prune :: "nat \<Rightarrow> 'a list \<Rightarrow> 'a list" where
  "prune t xs = dropWhile (\<lambda>x. retention \<le> t - stamp x) xs"

lemma prune_filter: "sorted (map stamp xs) \<Longrightarrow> prune t xs = filter (\<lambda>x. t - stamp x < retention) xs"
proof (induction xs)
  case (Cons x xs)
  show ?case
  proof (cases "retention \<le> t - stamp x")
    case True
    with Cons show ?thesis by (simp add: prune_def)
  next
    case False
    then have "\<forall>y \<in> set xs. t - stamp y < retention" using Cons.prems by fastforce
    with False show ?thesis by (simp add: prune_def filter_id_conv)
  qed
qed (simp add: prune_def)

lemma prune_suffix: "\<exists>old. xs = old @ prune t xs \<and> (\<forall>x \<in> set old. retention \<le> t - stamp x)"
  by (rule exI [of _ "takeWhile (\<lambda>x. retention \<le> t - stamp x) xs"])
     (auto simp: prune_def dest: set_takeWhileD)

lemma prune_subset: "set (prune t xs) \<subseteq> set xs"
  by (auto simp: prune_def dest: set_dropWhileD)

lemma prune_sorted: "sorted (map stamp xs) \<Longrightarrow> sorted (map stamp (prune t xs))"
  by (simp add: prune_filter sorted_filter)

lemma prune_recent: "sorted (map stamp xs) \<Longrightarrow> x \<in> set (prune t xs) \<Longrightarrow> t - stamp x < retention"
  by (simp add: prune_filter)

lemma prune_prune: "sorted (map stamp xs) \<Longrightarrow> t \<le> u \<Longrightarrow> prune u (prune t xs) = prune u xs"
  by (auto simp: prune_filter sorted_filter intro!: filter_cong)

lemma prune_snoc: "prune t (xs @ [x]) = prune t xs @ [x] \<or> prune t xs = []"
  by (induction xs) (auto simp: prune_def)

lemma prune_snoc_now: "stamp x = t \<Longrightarrow> prune t (xs @ [x]) = prune t xs @ [x]"
  using retention_pos by (induction xs) (auto simp: prune_def)

end

section \<open>Rust strings\<close>

text \<open>
  A Rust string is its UTF-8 bytes, so it is a \<^typ>\<open>string\<close>. \<^verbatim>\<open>str::trim\<close> removes the
  characters with Unicode property \<^verbatim>\<open>White_Space\<close>; they are listed by their encodings.
\<close>

definition whitespace_seqs :: "string list" where
  "whitespace_seqs =
     [[CHR 0x09], [CHR 0x0A], [CHR 0x0B], [CHR 0x0C], [CHR 0x0D], [CHR 0x20],
      [CHR 0xC2, CHR 0x85], [CHR 0xC2, CHR 0xA0], [CHR 0xE1, CHR 0x9A, CHR 0x80],
      [CHR 0xE2, CHR 0x80, CHR 0x80], [CHR 0xE2, CHR 0x80, CHR 0x81],
      [CHR 0xE2, CHR 0x80, CHR 0x82], [CHR 0xE2, CHR 0x80, CHR 0x83],
      [CHR 0xE2, CHR 0x80, CHR 0x84], [CHR 0xE2, CHR 0x80, CHR 0x85],
      [CHR 0xE2, CHR 0x80, CHR 0x86], [CHR 0xE2, CHR 0x80, CHR 0x87],
      [CHR 0xE2, CHR 0x80, CHR 0x88], [CHR 0xE2, CHR 0x80, CHR 0x89],
      [CHR 0xE2, CHR 0x80, CHR 0x8A], [CHR 0xE2, CHR 0x80, CHR 0xA8],
      [CHR 0xE2, CHR 0x80, CHR 0xA9], [CHR 0xE2, CHR 0x80, CHR 0xAF],
      [CHR 0xE2, CHR 0x81, CHR 0x9F], [CHR 0xE3, CHR 0x80, CHR 0x80]]"

definition strip_ws_start :: "string \<Rightarrow> string option" where
  "strip_ws_start s =
     map_option (\<lambda>w. drop (length w) s) (find (\<lambda>w. prefix w s) whitespace_seqs)"

definition strip_ws_end :: "string \<Rightarrow> string option" where
  "strip_ws_end s =
     map_option (\<lambda>w. take (length s - length w) s) (find (\<lambda>w. suffix w s) whitespace_seqs)"

lemma whitespace_seqs_nonempty: "w \<in> set whitespace_seqs \<Longrightarrow> 0 < length w"
  by (auto simp: whitespace_seqs_def)

lemma whitespace_seq_shortens:
  assumes "i < length whitespace_seqs" and "length (whitespace_seqs ! i) \<le> length s"
  shows "length s - length (whitespace_seqs ! i) < length s"
  using assms whitespace_seqs_nonempty [OF nth_mem [OF assms(1)]] by linarith

lemma strip_ws_start_shorter: "strip_ws_start s = Some r \<Longrightarrow> length r < length s"
  by (auto simp: strip_ws_start_def find_Some_iff whitespace_seq_shortens
      dest!: prefix_length_le)

lemma strip_ws_end_shorter: "strip_ws_end s = Some r \<Longrightarrow> length r < length s"
  by (auto simp: strip_ws_end_def find_Some_iff whitespace_seq_shortens
      dest!: suffix_length_le)

function trim_start :: "string \<Rightarrow> string" where
  "trim_start s = (case strip_ws_start s of None \<Rightarrow> s | Some r \<Rightarrow> trim_start r)"
  by pat_completeness auto
termination
  by (relation "measure length") (auto dest: strip_ws_start_shorter)

function trim_end :: "string \<Rightarrow> string" where
  "trim_end s = (case strip_ws_end s of None \<Rightarrow> s | Some r \<Rightarrow> trim_end r)"
  by pat_completeness auto
termination
  by (relation "measure length") (auto dest: strip_ws_end_shorter)

declare trim_start.simps [simp del] trim_end.simps [simp del]

definition trim :: "string \<Rightarrow> string" where
  "trim s = trim_end (trim_start s)"

definition is_blank :: "string \<Rightarrow> bool" where
  "is_blank s \<longleftrightarrow> trim s = []"

lemma trim_Nil [simp]: "trim [] = []"
  by (simp add: trim_def trim_start.simps [of "[]"] trim_end.simps [of "[]"]
      strip_ws_start_def strip_ws_end_def whitespace_seqs_def)

lemma is_blank_Nil [simp]: "is_blank []"
  by (simp add: is_blank_def)

definition strip_prefix :: "'a list \<Rightarrow> 'a list \<Rightarrow> 'a list option" where
  "strip_prefix p s = (if prefix p s then Some (drop (length p) s) else None)"

lemma strip_prefix_append [simp]: "strip_prefix p (p @ s) = Some s"
  by (simp add: strip_prefix_def)

lemma strip_prefix_Some: "strip_prefix p s = Some r \<longleftrightarrow> s = p @ r"
  by (auto simp: strip_prefix_def prefix_def)

text \<open>\<^verbatim>\<open>str::split(c)\<close>: the pieces between the separators, at least one.\<close>

fun split_on :: "'a \<Rightarrow> 'a list \<Rightarrow> 'a list list" where
  "split_on c [] = [[]]"
| "split_on c (x # xs) =
     (if x = c then [] # split_on c xs
      else (case split_on c xs of [] \<Rightarrow> [[x]] | y # ys \<Rightarrow> (x # y) # ys))"

lemma split_on_nonempty [simp]: "split_on c xs \<noteq> []"
  by (induction xs) (auto split: list.splits)

lemma split_on_no_sep: "p \<in> set (split_on c xs) \<Longrightarrow> c \<notin> set p"
  by (induction xs arbitrary: p) (auto split: if_splits list.splits)

definition lower_char :: "char \<Rightarrow> char" where
  "lower_char c =
     (let n = of_char c :: nat in if 65 \<le> n \<and> n \<le> 90 then char_of (n + 32) else c)"

definition to_ascii_lowercase :: "string \<Rightarrow> string" where
  "to_ascii_lowercase s = map lower_char s"

definition is_ascii_hexdigit :: "char \<Rightarrow> bool" where
  "is_ascii_hexdigit c =
     (let n = of_char c :: nat in
      48 \<le> n \<and> n \<le> 57 \<or> 65 \<le> n \<and> n \<le> 70 \<or> 97 \<le> n \<and> n \<le> 102)"

text \<open>\<^verbatim>\<open>str::as_bytes\<close> (strings hold their UTF-8 bytes).\<close>

definition as_bytes :: "string \<Rightarrow> bytes" where
  "as_bytes s = map of_char s"

lemma unat_of_char: "unat (of_char c :: byte) = of_char c"
proof -
  have "(of_char c :: nat) < 256" by (metis mod_less_divisor of_char_mod_256 zero_less_numeral)
  then show ?thesis by (subst of_nat_of_char [symmetric]) (simp add: unat_of_nat)
qed

lemma of_char_inject: "(of_char c :: byte) = of_char d \<longleftrightarrow> c = d"
  by (metis unat_of_char of_char_eq_iff)

lemma as_bytes_inject: "as_bytes s = as_bytes t \<longleftrightarrow> s = t"
  unfolding as_bytes_def by (rule inj_map_eq_map) (auto intro: injI simp: of_char_inject)

section \<open>Enumerations stored as text\<close>

text \<open>
  Enumerations are written to JSON or SQLite with \<^verbatim>\<open>as_str\<close> and read back with a parser that
  rejects an unknown text.
\<close>

locale enum_codec =
  fixes as_str :: "'a \<Rightarrow> string" and parse :: "string \<Rightarrow> 'a option"
  assumes parse_as_str: "parse (as_str x) = Some x"
    and parse_sound: "parse s = Some x \<Longrightarrow> s = as_str x"
begin

lemma as_str_inject: "as_str x = as_str y \<longleftrightarrow> x = y"
  by (metis option.inject parse_as_str)

lemma parse_Some_iff: "parse s = Some x \<longleftrightarrow> s = as_str x"
  using parse_as_str parse_sound by blast

lemma parse_None_iff: "parse s = None \<longleftrightarrow> s \<notin> range as_str"
  by (metis not_Some_eq parse_as_str parse_sound rangeE rangeI)

end

end
