(* ===== verification/Rust_Path.thy ===== *)
theory Rust_Path
  imports Prelude
begin

text \<open>
  The part of Rust's \<^verbatim>\<open>std::path\<close> (Unix flavour) that the sources rely on: a path is its
  text, compared, prefixed and joined by its components.
\<close>

section \<open>Components\<close>

datatype component = RootDir | CurDir | ParentDir | Normal string

definition component_of :: "string \<Rightarrow> component" where
  "component_of p = (if p = ''..'' then ParentDir else Normal p)"

text \<open>Repeated separators and inner \<^verbatim>\<open>.\<close> pieces do not make components.\<close>

definition body_components :: "string list \<Rightarrow> component list" where
  "body_components ps = map component_of (filter (\<lambda>p. p \<noteq> [] \<and> p \<noteq> ''.'') ps)"

definition is_absolute :: "string \<Rightarrow> bool" where
  "is_absolute s \<longleftrightarrow> prefix ''/'' s"

definition components :: "string \<Rightarrow> component list" where
  "components s =
     (let ps = split_on (CHR ''/'') s in
      (if is_absolute s then [RootDir] else if hd ps = ''.'' then [CurDir] else [])
      @ body_components ps)"

definition path_eq :: "string \<Rightarrow> string \<Rightarrow> bool" where
  "path_eq a b \<longleftrightarrow> components a = components b"

definition path_starts_with :: "string \<Rightarrow> string \<Rightarrow> bool" where
  "path_starts_with p base \<longleftrightarrow> prefix (components base) (components p)"

definition path_join :: "string \<Rightarrow> string \<Rightarrow> string" where
  "path_join a b =
     (if is_absolute b then b
      else if a = [] \<or> last a = CHR ''/'' then a @ b
      else a @ ''/'' @ b)"

fun normal_name :: "component \<Rightarrow> string option" where
  "normal_name (Normal n) = Some n"
| "normal_name _ = None"

section \<open>Laws\<close>

lemma body_components_append [simp]:
  "body_components (ps @ qs) = body_components ps @ body_components qs"
  by (simp add: body_components_def)

lemma body_components_Nil [simp]: "body_components [] = []"
  by (simp add: body_components_def)

lemma body_components_empty [simp]: "body_components ([] # ps) = body_components ps"
  by (simp add: body_components_def)

lemma RootDir_notin_body [simp]: "RootDir \<notin> set (body_components ps)"
  by (auto simp: body_components_def component_of_def)

lemma CurDir_notin_body [simp]: "CurDir \<notin> set (body_components ps)"
  by (auto simp: body_components_def component_of_def)

lemma ParentDir_in_body: "ParentDir \<in> set (body_components ps) \<longleftrightarrow> ''..'' \<in> set ps"
  by (auto simp: body_components_def component_of_def image_iff)

lemma ParentDir_in_components:
  "ParentDir \<in> set (components s) \<longleftrightarrow> ''..'' \<in> set (split_on (CHR ''/'') s)"
  by (auto simp: components_def Let_def ParentDir_in_body)

lemma path_starts_with_refl [simp]: "path_starts_with p p"
  by (simp add: path_starts_with_def)

lemma path_starts_with_trans:
  "path_starts_with a b \<Longrightarrow> path_starts_with b c \<Longrightarrow> path_starts_with a c"
  unfolding path_starts_with_def by (rule prefix_order.trans)

lemma split_on_append_sep:
  "split_on c (a @ c # b) = split_on c a @ split_on c b"
proof (induction a)
  case (Cons x a)
  then show ?case
    by (cases "split_on c a") (auto simp: split_on_nonempty)
qed simp

lemma split_on_last_sep: "split_on c (a @ [c]) = split_on c a @ [[]]"
  using split_on_append_sep [of c a "[]"] by simp

lemma hd_split_on_append_sep [simp]: "hd (split_on c a @ ps) = hd (split_on c a)"
  by (simp add: hd_append)

lemma is_absolute_append [simp]: "a \<noteq> [] \<Longrightarrow> is_absolute (a @ b) = is_absolute a"
  by (cases a) (auto simp: is_absolute_def)

text \<open>Joining a relative path appends its components, less a leading \<^verbatim>\<open>.\<close>.\<close>

lemma components_join:
  assumes "a \<noteq> []" and "\<not> is_absolute b"
  shows "components (path_join a b) = components a @ body_components (split_on (CHR ''/'') b)"
proof (cases "last a = CHR ''/''")
  case True
  then obtain a' where a: "a = a' @ [CHR ''/'']"
    using assms(1) by (metis append_butlast_last_id)
  have split: "split_on (CHR ''/'') (a @ b)
      = split_on (CHR ''/'') a' @ split_on (CHR ''/'') b"
    by (simp add: a split_on_append_sep)
  show ?thesis
    using True assms
    by (simp add: path_join_def components_def split)
      (simp add: a split_on_last_sep components_def)
next
  case False
  have "split_on (CHR ''/'') (a @ CHR ''/'' # b)
      = split_on (CHR ''/'') a @ split_on (CHR ''/'') b"
    by (rule split_on_append_sep)
  with False assms show ?thesis
    by (simp add: path_join_def components_def)
qed

lemma join_starts_with:
  "a \<noteq> [] \<Longrightarrow> \<not> is_absolute b \<Longrightarrow> path_starts_with (path_join a b) a"
  by (simp add: path_starts_with_def components_join)

end
