(* ===== verification/Lifecycle_Model.thy ===== *)
theory Lifecycle_Model
  imports Rust_Path Complex_Main
begin

text \<open>
  Data of the lifecycle agent (\<^verbatim>\<open>noland-lifecycle-agent\<close>): the persisted state machine's
  states, the configuration with its validation, and the storage capability that
  authorises backups and the provider action.
\<close>

section \<open>Lifecycle states (model.rs)\<close>

datatype lifecycle_state =
    Disabled | MonitoringIdle | TimeoutReached | SelectingApplications | BackingUp
  | Verifying | ShuttingDown | BackupFailedSafe | ShutdownRetryWait | ShutdownFailedSafe
  | Completed

fun state_as_str :: "lifecycle_state \<Rightarrow> string" where
  "state_as_str Disabled = ''DISABLED''"
| "state_as_str MonitoringIdle = ''MONITORING/IDLE''"
| "state_as_str TimeoutReached = ''TIMEOUT_REACHED''"
| "state_as_str SelectingApplications = ''SELECTING_APPLICATIONS''"
| "state_as_str BackingUp = ''BACKING_UP''"
| "state_as_str Verifying = ''VERIFYING''"
| "state_as_str ShuttingDown = ''SHUTTING_DOWN''"
| "state_as_str BackupFailedSafe = ''BACKUP_FAILED_SAFE''"
| "state_as_str ShutdownRetryWait = ''SHUTDOWN_RETRY_WAIT''"
| "state_as_str ShutdownFailedSafe = ''SHUTDOWN_FAILED_SAFE''"
| "state_as_str Completed = ''COMPLETED''"

fun run_is_active :: "lifecycle_state \<Rightarrow> bool" where
  "run_is_active TimeoutReached = True"
| "run_is_active SelectingApplications = True"
| "run_is_active BackingUp = True"
| "run_is_active Verifying = True"
| "run_is_active ShuttingDown = True"
| "run_is_active ShutdownRetryWait = True"
| "run_is_active _ = False"

text \<open>An \<^verbatim>\<open>AgentError\<close> is its public message.\<close>

type_synonym agent_error = string

definition state_from_str :: "string \<Rightarrow> (agent_error, lifecycle_state) result" where
  "state_from_str v =
     (if v = ''DISABLED'' then Inr Disabled
      else if v = ''MONITORING/IDLE'' then Inr MonitoringIdle
      else if v = ''TIMEOUT_REACHED'' then Inr TimeoutReached
      else if v = ''SELECTING_APPLICATIONS'' then Inr SelectingApplications
      else if v = ''BACKING_UP'' then Inr BackingUp
      else if v = ''VERIFYING'' then Inr Verifying
      else if v = ''SHUTTING_DOWN'' then Inr ShuttingDown
      else if v = ''BACKUP_FAILED_SAFE'' then Inr BackupFailedSafe
      else if v = ''SHUTDOWN_RETRY_WAIT'' then Inr ShutdownRetryWait
      else if v = ''SHUTDOWN_FAILED_SAFE'' then Inr ShutdownFailedSafe
      else if v = ''COMPLETED'' then Inr Completed
      else Inl (''unknown lifecycle state '' @ v))"

lemma state_from_as_str [simp]: "state_from_str (state_as_str s) = Inr s"
  by (cases s) (simp_all add: state_from_str_def)

definition state_parse :: "string \<Rightarrow> lifecycle_state option" where
  "state_parse v = (case state_from_str v of Inl _ \<Rightarrow> None | Inr s \<Rightarrow> Some s)"

lemma state_from_str_sound: "state_from_str v = Inr s \<Longrightarrow> v = state_as_str s"
  by (auto simp: state_from_str_def split: if_splits)

interpretation state_codec: enum_codec state_as_str state_parse
  by unfold_locales
    (auto simp: state_parse_def dest: state_from_str_sound split: sum.splits)

lemma state_as_str_eq [simp]: "state_as_str a = state_as_str b \<longleftrightarrow> a = b"
  by (rule state_codec.as_str_inject)

lemma state_from_str_Inr: "state_from_str v = Inr s \<longleftrightarrow> v = state_as_str s"
  using state_codec.parse_Some_iff [of v s] by (auto simp: state_parse_def split: sum.splits)

text \<open>The states in which a run has ended and a tick does nothing.\<close>

definition run_is_terminal :: "lifecycle_state \<Rightarrow> bool" where
  "run_is_terminal s \<longleftrightarrow> s \<in> {BackupFailedSafe, ShutdownFailedSafe, Completed}"

lemma terminal_not_active: "run_is_terminal s \<Longrightarrow> \<not> run_is_active s"
  by (auto simp: run_is_terminal_def)

section \<open>Configuration (config.rs)\<close>

text \<open>
  The only operations on \<^verbatim>\<open>f32\<close> values are comparison, absolute value and the test for
  finiteness, which are exact: a float is a rational, an infinity or not a number.
  The literals \<^verbatim>\<open>0.95\<close> and \<^verbatim>\<open>0.15\<close> are the nearest single-precision values.
\<close>

datatype f32 = NaN | PosInf | NegInf | Fin rat

fun f32_is_finite :: "f32 \<Rightarrow> bool" where
  "f32_is_finite (Fin _) = True"
| "f32_is_finite _ = False"

fun f32_abs :: "f32 \<Rightarrow> f32" where
  "f32_abs (Fin q) = Fin \<bar>q\<bar>"
| "f32_abs NegInf = PosInf"
| "f32_abs x = x"

fun f32_le :: "f32 \<Rightarrow> f32 \<Rightarrow> bool" where
  "f32_le (Fin a) (Fin b) = (a \<le> b)"
| "f32_le NaN _ = False"
| "f32_le _ NaN = False"
| "f32_le NegInf _ = True"
| "f32_le _ PosInf = True"
| "f32_le _ _ = False"

definition f32_0_95 :: f32 where "f32_0_95 = Fin (15938355 / 16777216)"
definition f32_0_15 :: f32 where "f32_0_15 = Fin (10066330 / 67108864)"

datatype provider_action = Destroy | Stop

record config =
  enabled :: bool
  instance_id :: u64
  inactivity_seconds :: u64
  backup_app_limit :: nat
  controller_dead_zone :: f32
  state_agent_socket :: string
  status_socket :: string
  activity_socket :: string
  database_path :: string
  capability_path :: string
  vast_base_url :: string
  provider_action :: provider_action

definition default_config :: config where
  "default_config = \<lparr>
     enabled = False,
     instance_id = 0,
     inactivity_seconds = 3 * 60 * 60,
     backup_app_limit = 3,
     controller_dead_zone = f32_0_15,
     state_agent_socket = ''/run/noland/state-agent.sock'',
     status_socket = ''/run/noland/lifecycle/agent.sock'',
     activity_socket = ''/run/noland/sunshine-events.sock'',
     database_path = ''/var/lib/noland/lifecycle/runtime.db'',
     capability_path = ''/var/lib/noland/lifecycle/storage-capability.json'',
     vast_base_url = ''https://console.vast.ai'',
     provider_action = Destroy \<rparr>"

text \<open>\<^verbatim>\<open>base.chars().any(char::is_whitespace)\<close>: some white-space character occurs.\<close>

definition has_whitespace :: "string \<Rightarrow> bool" where
  "has_whitespace s \<longleftrightarrow> list_ex (\<lambda>w. sublist w s) whitespace_seqs"

definition check_absolute :: "string \<Rightarrow> string \<Rightarrow> (agent_error, unit) result" where
  "check_absolute name path =
     (if \<not> is_absolute path then Inl (name @ '' must be an absolute path'') else Inr ())"

definition config_validate :: "config \<Rightarrow> (agent_error, unit) result" where
  "config_validate c =
     (if \<not> (300 \<le> inactivity_seconds c \<and> inactivity_seconds c \<le> 86400)
      then Inl ''inactivitySeconds must be between 300 and 86400''
      else if \<not> (1 \<le> backup_app_limit c \<and> backup_app_limit c \<le> 10)
      then Inl ''backupAppLimit must be between 1 and 10''
      else if \<not> f32_is_finite (controller_dead_zone c)
         \<or> \<not> (f32_le (Fin 0) (controller_dead_zone c) \<and> f32_le (controller_dead_zone c) f32_0_95)
      then Inl ''controllerDeadZone must be between 0 and 0.95''
      else if enabled c \<and> instance_id c = 0
      then Inl ''instanceId must be non-zero when lifecycle is enabled''
      else let base = trim (vast_base_url c) in
        if \<not> prefix ''https://'' base \<or> length base \<le> length ''https://''
           \<or> has_whitespace base \<or> CHR 0x0A \<in> set base \<or> CHR 0x0D \<in> set base
        then Inl ''vastBaseUrl must be an HTTPS URL''
        else res_bind (check_absolute ''stateAgentSocket'' (state_agent_socket c)) (\<lambda>_.
             res_bind (check_absolute ''statusSocket'' (status_socket c)) (\<lambda>_.
             res_bind (check_absolute ''activitySocket'' (activity_socket c)) (\<lambda>_.
             res_bind (check_absolute ''databasePath'' (database_path c)) (\<lambda>_.
             check_absolute ''capabilityPath'' (capability_path c))))))"

definition u64_max :: nat where "u64_max = 2 ^ 64 - 1"

definition timeout_ms :: "config \<Rightarrow> nat" where
  "timeout_ms c = min u64_max (unat (inactivity_seconds c) * 1000)"

definition runtime_paths_match :: "config \<Rightarrow> config \<Rightarrow> bool" where
  "runtime_paths_match c d \<longleftrightarrow>
     path_eq (state_agent_socket c) (state_agent_socket d)
     \<and> path_eq (status_socket c) (status_socket d)
     \<and> path_eq (activity_socket c) (activity_socket d)
     \<and> path_eq (database_path c) (database_path d)"

section \<open>Storage capability (capability.rs)\<close>

text \<open>
  The embedded rclone session (\<^verbatim>\<open>EphemeralRcloneSession\<close> of the rclone adapter) is only
  cloned, with its operation id replaced, and handed to the state agent.
\<close>

record rclone_session =
  sess_operation_id :: string
  sess_provider :: string
  sess_backend_type :: string
  sess_remote_name :: string
  sess_root :: string
  sess_config_ini :: string
  sess_expires_at_unix :: int
  sess_upload_concurrency :: "nat option"

record storage_capability =
  cap_version :: nat
  cap_instance_id :: u64
  cap_profile_id :: string
  cap_expires_at :: int
  cap_session :: rclone_session
  master_key_hex :: string
  prov_api_key :: string
  prov_instance_id :: u64
  prov_action :: provider_action

definition session_for_operation :: "storage_capability \<Rightarrow> string \<Rightarrow> rclone_session" where
  "session_for_operation c op = (cap_session c)\<lparr>sess_operation_id := op\<rparr>"

definition CAPABILITY_VERSION :: nat where "CAPABILITY_VERSION = 1"

definition capability_validate ::
  "storage_capability \<Rightarrow> config \<Rightarrow> int \<Rightarrow> (agent_error, unit) result" where
  "capability_validate c cfg now =
     (if cap_version c \<noteq> CAPABILITY_VERSION then Inl ''unsupported capability version''
      else if cap_instance_id c \<noteq> instance_id cfg \<or> prov_instance_id c \<noteq> instance_id cfg
         \<or> prov_instance_id c \<noteq> cap_instance_id c
      then Inl ''capability instance does not match configuration''
      else if prov_action c \<noteq> provider_action cfg
      then Inl ''capability action does not match configuration''
      else if cap_expires_at c \<le> now then Inl ''lifecycle capability is expired''
      else if is_blank (cap_profile_id c) then Inl ''capability profileId is empty''
      else if is_blank (prov_api_key c) then Inl ''capability provider credential is empty''
      else if length (master_key_hex c) \<noteq> 64 \<or> \<not> list_all is_ascii_hexdigit (master_key_hex c)
      then Inl ''capability masterKeyHex must be 64 hex characters''
      else Inr ())"

text \<open>
  \<^verbatim>\<open>load_and_validate\<close> and \<^verbatim>\<open>Config::load\<close>, given what reading and decoding the file
  returned; a missing configuration file (\<open>None\<close>) is the default configuration.
\<close>

definition load_and_validate ::
  "(agent_error, storage_capability) result \<Rightarrow> config \<Rightarrow> int
   \<Rightarrow> (agent_error, storage_capability) result" where
  "load_and_validate file cfg now =
     res_bind file (\<lambda>c. res_bind (capability_validate c cfg now) (\<lambda>_. Inr c))"

definition config_load ::
  "(agent_error, config option) result \<Rightarrow> (agent_error, config) result" where
  "config_load file = res_bind file (\<lambda>f. case f of
     None \<Rightarrow> Inr default_config
   | Some c \<Rightarrow> res_bind (config_validate c) (\<lambda>_. Inr c))"

lemma load_and_validate_ok:
  "load_and_validate file cfg now = Inr c \<Longrightarrow> file = Inr c \<and> capability_validate c cfg now = Inr ()"
  by (auto simp: load_and_validate_def elim!: res_bind_InrE)

lemma capability_validate_ok:
  assumes "capability_validate c cfg now = Inr u"
  shows "prov_instance_id c = instance_id cfg" and "prov_action c = provider_action cfg"
    and "now < cap_expires_at c" and "\<not> is_blank (prov_api_key c)"
    and "length (master_key_hex c) = 64"
  using assms by (auto simp: capability_validate_def split: if_splits)

lemma timeout_ms_no_saturation:
  assumes "config_validate c = Inr u"
  shows "timeout_ms c = unat (inactivity_seconds c) * 1000"
    and "300000 \<le> timeout_ms c" and "timeout_ms c \<le> 86400000"
proof -
  have lo: "300 \<le> inactivity_seconds c" and hi: "inactivity_seconds c \<le> 86400"
    using assms by (auto simp: config_validate_def split: if_splits)
  have "unat (300 :: u64) \<le> unat (inactivity_seconds c)"
    and "unat (inactivity_seconds c) \<le> unat (86400 :: u64)"
    using lo hi by (simp_all only: word_le_nat_alt)
  then have b: "300 \<le> unat (inactivity_seconds c)" "unat (inactivity_seconds c) \<le> 86400"
    by simp_all
  then show eq: "timeout_ms c = unat (inactivity_seconds c) * 1000"
    by (simp add: timeout_ms_def u64_max_def)
  show "300000 \<le> timeout_ms c" and "timeout_ms c \<le> 86400000"
    using b by (simp_all add: eq)
qed

end
