(* ===== verification/Lifecycle_Db.thy ===== *)
theory Lifecycle_Db
  imports Lifecycle_Model "HOL-Library.Char_ord" "HOL-Library.List_Lexorder"
    "HOL-Library.Product_Lexorder" "HOL-Library.AList"
begin

text \<open>
  The lifecycle agent's SQLite database (\<^verbatim>\<open>db.rs\<close>): its tables as lists of rows in a
  \<open>database\<close> record, and every statement or transaction of the source as an operation on
  it. An operation that fails inside a transaction leaves the database as it was.

  Instants are nanoseconds; a stored time is the RFC 3339 text with millisecond precision,
  represented by the millisecond it denotes. Counters are the integers of the columns.
\<close>

section \<open>Tables\<close>

record ranked_app =
  app_id :: string
  foreground_active_ms :: int
  process_runtime_ms :: int
  launch_count :: int
  last_active_at :: int

record run_row =
  run_id :: string
  created_at :: int
  run_timeout_reached_at :: int
  frozen_at :: "int option"
  run_status :: string
  run_last_error :: "string option"
  run_shutdown_started_at :: "int option"
  completed_at :: "int option"

record state_row =
  ls_state :: string
  last_activity_at :: "int option"
  timeout_reached_at :: "int option"
  active_run_id :: "string option"
  last_error :: "string option"
  shutdown_started_at :: "int option"

record backup_app =
  ba_run_id :: string
  ba_app_id :: string
  rank :: nat
  status :: string
  attempts :: nat
  operation_id :: "string option"
  bundle_id :: "string option"
  commit_id :: "string option"
  ba_last_error :: "string option"
  updated_at :: int

record database =
  app_usage :: "ranked_app list"
  lifecycle_runs :: "run_row list"
  lifecycle_state :: state_row
  backup_apps_table :: "backup_app list"
  seen_sessions :: "(string \<times> string \<times> int) list"

record lifecycle_snapshot =
  sn_state :: lifecycle_state
  sn_last_activity_at :: "int option"
  sn_timeout_reached_at :: "int option"
  sn_active_run_id :: "string option"
  sn_last_error :: "string option"
  sn_shutdown_started_at :: "int option"

type_synonym 'a dbop = "database \<Rightarrow> (agent_error, 'a) result \<times> database"

definition format_time :: "int \<Rightarrow> int" where "format_time t = t div 1000000"
definition parse_time :: "int \<Rightarrow> int" where "parse_time ms = ms * 1000000"

definition to_i64 :: "nat \<Rightarrow> (agent_error, int) result" where
  "to_i64 v = (if v < 2 ^ 63 then Inr (int v) else Inl ''counter exceeds SQLite integer range'')"

text \<open>\<^verbatim>\<open>migrate\<close> on a fresh file: empty tables and the singleton state row.\<close>

definition migrated_database :: database where
  "migrated_database = \<lparr>
     app_usage = [], lifecycle_runs = [],
     lifecycle_state = \<lparr> ls_state = ''DISABLED'', last_activity_at = None,
       timeout_reached_at = None, active_run_id = None, last_error = None,
       shutdown_started_at = None \<rparr>,
     backup_apps_table = [], seen_sessions = [] \<rparr>"

section \<open>The singleton state row\<close>

definition initialize_monitoring :: "bool \<Rightarrow> int \<Rightarrow> unit dbop" where
  "initialize_monitoring en now d =
     (case state_from_str (ls_state (lifecycle_state d)) of
        Inl e \<Rightarrow> (Inl e, d)
      | Inr st \<Rightarrow>
          if run_is_active st \<or> st \<in> {BackupFailedSafe, ShutdownFailedSafe, Completed}
          then (Inr (), d)
          else let next = (if en then MonitoringIdle else Disabled) in
            (Inr (), d\<lparr>lifecycle_state := (lifecycle_state d)
               \<lparr>ls_state := state_as_str next, last_activity_at := Some (format_time now),
                timeout_reached_at := None, active_run_id := None, last_error := None,
                shutdown_started_at := None\<rparr>\<rparr>))"

definition reset_terminal_failure :: "int \<Rightarrow> bool dbop" where
  "reset_terminal_failure now d =
     (if ls_state (lifecycle_state d) \<in> {''BACKUP_FAILED_SAFE'', ''SHUTDOWN_FAILED_SAFE''}
      then (Inr True, d\<lparr>lifecycle_state := (lifecycle_state d)
             \<lparr>ls_state := ''MONITORING/IDLE'', last_activity_at := Some (format_time now),
              timeout_reached_at := None, active_run_id := None, last_error := None,
              shutdown_started_at := None\<rparr>\<rparr>)
      else (Inr False, d))"

definition record_accepted_activity :: "int \<Rightarrow> unit dbop" where
  "record_accepted_activity now d =
     (Inr (), d\<lparr>lifecycle_state := (lifecycle_state d)
        \<lparr>last_activity_at := Some (format_time now)\<rparr>\<rparr>)"

definition transition :: "lifecycle_state \<Rightarrow> int \<Rightarrow> string option \<Rightarrow> unit dbop" where
  "transition st now err d =
     (let row = lifecycle_state d;
          timeout = (if st = TimeoutReached then Some (format_time now) else None)
      in (Inr (), d\<lparr>lifecycle_state := row
            \<lparr>ls_state := state_as_str st,
             timeout_reached_at := (case timeout of Some t \<Rightarrow> Some t | None \<Rightarrow> timeout_reached_at row),
             last_error := err\<rparr>\<rparr>))"

definition coalesce :: "'a option \<Rightarrow> 'a \<Rightarrow> 'a option" where
  "coalesce old new = (case old of None \<Rightarrow> Some new | Some v \<Rightarrow> Some v)"

definition mark_shutdown_started :: "string \<Rightarrow> int \<Rightarrow> unit dbop" where
  "mark_shutdown_started rid now d =
     (let t = format_time now; row = lifecycle_state d in
      (Inr (), d
        \<lparr>lifecycle_runs := map (\<lambda>r. if run_id r = rid
            then r\<lparr>run_status := ''SHUTTING_DOWN'',
                   run_shutdown_started_at := coalesce (run_shutdown_started_at r) t\<rparr>
            else r) (lifecycle_runs d),
         lifecycle_state := (if active_run_id row = Some rid
            then row\<lparr>ls_state := ''SHUTTING_DOWN'',
                     shutdown_started_at := coalesce (shutdown_started_at row) t,
                     last_error := None\<rparr>
            else row)\<rparr>))"

definition complete_run :: "string \<Rightarrow> int \<Rightarrow> unit dbop" where
  "complete_run rid now d =
     (let t = format_time now; row = lifecycle_state d in
      (Inr (), d
        \<lparr>lifecycle_runs := map (\<lambda>r. if run_id r = rid
            then r\<lparr>run_status := ''COMPLETED'', completed_at := Some t, run_last_error := None\<rparr>
            else r) (lifecycle_runs d),
         lifecycle_state := (if active_run_id row = Some rid
            then row\<lparr>ls_state := ''COMPLETED'', last_error := None\<rparr> else row)\<rparr>))"

definition fail_run :: "string option \<Rightarrow> lifecycle_state \<Rightarrow> string \<Rightarrow> unit dbop" where
  "fail_run rid st err d =
     (Inr (), d
        \<lparr>lifecycle_runs := (case rid of None \<Rightarrow> lifecycle_runs d
           | Some i \<Rightarrow> map (\<lambda>r. if run_id r = i
               then r\<lparr>run_status := state_as_str st, run_last_error := Some err\<rparr> else r)
               (lifecycle_runs d)),
         lifecycle_state := (lifecycle_state d)
           \<lparr>ls_state := state_as_str st, last_error := Some err\<rparr>\<rparr>)"

definition snapshot :: "lifecycle_snapshot dbop" where
  "snapshot d =
     (let row = lifecycle_state d in
      (res_bind (state_from_str (ls_state row)) (\<lambda>st. Inr
        \<lparr> sn_state = st,
          sn_last_activity_at = map_option parse_time (last_activity_at row),
          sn_timeout_reached_at = map_option parse_time (timeout_reached_at row),
          sn_active_run_id = active_run_id row,
          sn_last_error = last_error row,
          sn_shutdown_started_at = map_option parse_time (shutdown_started_at row) \<rparr>), d))"

section \<open>Usage accounting and ranking\<close>

text \<open>\<^verbatim>\<open>INSERT ... ON CONFLICT(app_id) DO UPDATE\<close>: update the row of the key or append one.\<close>

definition upsert_usage ::
  "string \<Rightarrow> (ranked_app \<Rightarrow> ranked_app) \<Rightarrow> ranked_app \<Rightarrow> ranked_app list \<Rightarrow> ranked_app list" where
  "upsert_usage k upd new rows =
     (if list_ex (\<lambda>r. app_id r = k) rows
      then map (\<lambda>r. if app_id r = k then upd r else r) rows
      else rows @ [new])"

definition record_active_session :: "string \<Rightarrow> string \<Rightarrow> nat \<Rightarrow> int \<Rightarrow> bool dbop" where
  "record_active_session sid app runtime now d =
     (let t = format_time now;
          inserted = \<not> list_ex (\<lambda>(s, _, _). s = sid) (seen_sessions d);
          n = (if inserted then 1 else 0)
      in case to_i64 runtime of
           Inl e \<Rightarrow> (Inl e, d)
         | Inr ms \<Rightarrow> (Inr inserted, d
             \<lparr>seen_sessions := (if inserted then seen_sessions d @ [(sid, app, t)]
                               else seen_sessions d),
              app_usage := upsert_usage app
                (\<lambda>r. r\<lparr>process_runtime_ms := process_runtime_ms r + ms,
                       launch_count := launch_count r + n,
                       last_active_at := t\<rparr>)
                \<lparr> app_id = app, foreground_active_ms = 0, process_runtime_ms = ms,
                  launch_count = n, last_active_at = t \<rparr>
                (app_usage d)\<rparr>))"

definition record_foreground :: "string \<Rightarrow> nat \<Rightarrow> int \<Rightarrow> unit dbop" where
  "record_foreground app foreground now d =
     (case to_i64 foreground of
        Inl e \<Rightarrow> (Inl e, d)
      | Inr ms \<Rightarrow> (Inr (), d
          \<lparr>app_usage := upsert_usage app
             (\<lambda>r. r\<lparr>foreground_active_ms := foreground_active_ms r + ms,
                    last_active_at := format_time now\<rparr>)
             \<lparr> app_id = app, foreground_active_ms = ms, process_runtime_ms = 0,
               launch_count = 0, last_active_at = format_time now \<rparr>
             (app_usage d)\<rparr>))"

text \<open>\<^verbatim>\<open>ORDER BY foreground DESC, last_active DESC, runtime DESC, app_id ASC\<close>.\<close>

definition usage_key :: "ranked_app \<Rightarrow> int \<times> int \<times> int \<times> string" where
  "usage_key r =
     (- foreground_active_ms r, - last_active_at r, - process_runtime_ms r, app_id r)"

definition ranked_apps :: "nat \<Rightarrow> ranked_app list dbop" where
  "ranked_apps limit d =
     (case to_i64 limit of
        Inl e \<Rightarrow> (Inl e, d)
      | Inr _ \<Rightarrow>
          let rows = take limit (sort_key usage_key
                (filter (\<lambda>r. foreground_active_ms r > 0 \<or> process_runtime_ms r > 0) (app_usage d)))
          in (if list_ex (\<lambda>r. foreground_active_ms r < 0 \<or> process_runtime_ms r < 0
                            \<or> launch_count r < 0) rows
              then Inl ''database contains a negative counter''
              else Inr (map (\<lambda>r. r\<lparr>last_active_at := parse_time (last_active_at r)\<rparr>) rows), d))"

section \<open>Runs and their frozen application set\<close>

text \<open>
  One \<^verbatim>\<open>INSERT INTO backup_apps\<close> with the table's constraints: the freeze trigger, the
  primary key, the unique rank and the rank check.
\<close>

definition insert_backup_app :: "string \<Rightarrow> string \<Rightarrow> nat \<Rightarrow> int \<Rightarrow> database \<Rightarrow> database option" where
  "insert_backup_app rid app rk now d =
     (if list_ex (\<lambda>r. run_id r = rid \<and> frozen_at r \<noteq> None) (lifecycle_runs d)
         \<or> list_ex (\<lambda>r. ba_run_id r = rid \<and> (ba_app_id r = app \<or> rank r = rk)) (backup_apps_table d)
         \<or> \<not> (1 \<le> rk \<and> rk \<le> 10)
      then None
      else Some (d\<lparr>backup_apps_table := backup_apps_table d @
        [\<lparr> ba_run_id = rid, ba_app_id = app, rank = rk, status = ''PENDING'', attempts = 0,
           operation_id = None, bundle_id = None, commit_id = None, ba_last_error = None,
           updated_at = now \<rparr>]\<rparr>))"

fun insert_backup_apps ::
  "string \<Rightarrow> nat \<Rightarrow> ranked_app list \<Rightarrow> int \<Rightarrow> database \<Rightarrow> database option" where
  "insert_backup_apps rid idx [] now d = Some d"
| "insert_backup_apps rid idx (a # as) now d =
     (case insert_backup_app rid (app_id a) (idx + 1) now d of
        None \<Rightarrow> None
      | Some d' \<Rightarrow> insert_backup_apps rid (idx + 1) as now d')"

definition create_run_with_frozen_apps ::
  "string \<Rightarrow> int \<Rightarrow> ranked_app list \<Rightarrow> string dbop" where
  "create_run_with_frozen_apps rid timeout apps d =
     (if apps = [] then (Inl ''cannot create a lifecycle run without applications'', d)
      else if length apps > 10 then (Inl ''cannot freeze more than 10 applications'', d)
      else if list_ex (\<lambda>r. run_id r = rid) (lifecycle_runs d)
      then (Inl ''UNIQUE constraint failed: lifecycle_runs.run_id'', d)
      else let now = format_time timeout;
               d1 = d\<lparr>lifecycle_runs := lifecycle_runs d @
                 [\<lparr> run_id = rid, created_at = now, run_timeout_reached_at = now,
                    frozen_at = None, run_status = ''BACKING_UP'', run_last_error = None,
                    run_shutdown_started_at = None, completed_at = None \<rparr>]\<rparr>
           in case insert_backup_apps rid 0 apps now d1 of
                None \<Rightarrow> (Inl ''UNIQUE constraint failed: backup_apps'', d)
              | Some d2 \<Rightarrow> (Inr rid, d2
                  \<lparr>lifecycle_runs := map (\<lambda>r. if run_id r = rid then r\<lparr>frozen_at := Some now\<rparr> else r)
                     (lifecycle_runs d2),
                   lifecycle_state := (lifecycle_state d2)
                     \<lparr>ls_state := ''BACKING_UP'', active_run_id := Some rid,
                      timeout_reached_at := Some now, last_error := None\<rparr>\<rparr>))"

definition backup_apps :: "string \<Rightarrow> backup_app list dbop" where
  "backup_apps rid d =
     (Inr (sort_key rank (filter (\<lambda>r. ba_run_id r = rid) (backup_apps_table d))), d)"

text \<open>\<^verbatim>\<open>UPDATE backup_apps SET ... WHERE run_id = .. AND app_id = .. AND guard\<close>.\<close>

definition update_app ::
  "string \<Rightarrow> string \<Rightarrow> (backup_app \<Rightarrow> bool) \<Rightarrow> (backup_app \<Rightarrow> backup_app) \<Rightarrow> database \<Rightarrow> database" where
  "update_app rid app guard upd d = d\<lparr>backup_apps_table :=
     map (\<lambda>r. if ba_run_id r = rid \<and> ba_app_id r = app \<and> guard r then upd r else r)
       (backup_apps_table d)\<rparr>"

definition updated_rows ::
  "string \<Rightarrow> string \<Rightarrow> (backup_app \<Rightarrow> bool) \<Rightarrow> database \<Rightarrow> nat" where
  "updated_rows rid app guard d =
     length (filter (\<lambda>r. ba_run_id r = rid \<and> ba_app_id r = app \<and> guard r) (backup_apps_table d))"

definition may_retry :: "backup_app \<Rightarrow> bool" where
  "may_retry r \<longleftrightarrow> status r \<noteq> ''VERIFIED'' \<and> attempts r < 3"

definition mark_app_running :: "string \<Rightarrow> string \<Rightarrow> string \<Rightarrow> int \<Rightarrow> unit dbop" where
  "mark_app_running rid app op now d =
     (if updated_rows rid app may_retry d \<noteq> 1
      then Inl ''backup application cannot start another attempt'' else Inr (),
      update_app rid app may_retry
        (\<lambda>r. r\<lparr>status := ''RUNNING'', attempts := attempts r + 1, operation_id := Some op,
               bundle_id := None, commit_id := None, ba_last_error := None,
               updated_at := format_time now\<rparr>) d)"

definition record_start_failure :: "string \<Rightarrow> string \<Rightarrow> string \<Rightarrow> int \<Rightarrow> unit dbop" where
  "record_start_failure rid app err now d =
     (if updated_rows rid app may_retry d \<noteq> 1
      then Inl ''backup application attempts are exhausted'' else Inr (),
      update_app rid app may_retry
        (\<lambda>r. r\<lparr>status := ''PENDING'', attempts := attempts r + 1, operation_id := None,
               ba_last_error := Some err, updated_at := format_time now\<rparr>) d)"

definition mark_app_pending_retry :: "string \<Rightarrow> string \<Rightarrow> string \<Rightarrow> int \<Rightarrow> unit dbop" where
  "mark_app_pending_retry rid app err now d =
     (Inr (), update_app rid app (\<lambda>r. status r \<noteq> ''VERIFIED'')
        (\<lambda>r. r\<lparr>status := ''PENDING'', operation_id := None, ba_last_error := Some err,
               updated_at := format_time now\<rparr>) d)"

definition mark_app_failed :: "string \<Rightarrow> string \<Rightarrow> string \<Rightarrow> int \<Rightarrow> unit dbop" where
  "mark_app_failed rid app err now d =
     (Inr (), update_app rid app (\<lambda>r. status r \<noteq> ''VERIFIED'')
        (\<lambda>r. r\<lparr>status := ''FAILED'', ba_last_error := Some err, updated_at := format_time now\<rparr>) d)"

definition mark_app_verified :: "string \<Rightarrow> string \<Rightarrow> string \<Rightarrow> string \<Rightarrow> int \<Rightarrow> unit dbop" where
  "mark_app_verified rid app bundle commit now d =
     (Inr (), update_app rid app (\<lambda>_. True)
        (\<lambda>r. r\<lparr>status := ''VERIFIED'', bundle_id := Some bundle, commit_id := Some commit,
               ba_last_error := None, updated_at := format_time now\<rparr>) d)"

definition all_apps_verified :: "string \<Rightarrow> bool dbop" where
  "all_apps_verified rid d =
     (let rows = filter (\<lambda>r. ba_run_id r = rid) (backup_apps_table d);
          total = length rows;
          verified = length (filter (\<lambda>r. status r = ''VERIFIED'') rows)
      in (Inr (verified > 0 \<and> total = verified), d))"

section \<open>What every operation keeps of a run\<close>

text \<open>
  A row of the frozen set \<^emph>\<open>advances\<close>: its identity and rank never change, once verified
  it stays verified, and its attempt counter only grows. \<open>run_op\<close> is the contract of the
  operations that touch rows of existing runs; a \<open>quiet_op\<close> moreover never makes a row
  verified and never touches a verified one.
\<close>

definition row_advances :: "backup_app \<Rightarrow> backup_app \<Rightarrow> bool" where
  "row_advances r r' \<longleftrightarrow>
     ba_run_id r' = ba_run_id r \<and> ba_app_id r' = ba_app_id r \<and> rank r' = rank r
     \<and> (status r = ''VERIFIED'' \<longrightarrow> status r' = ''VERIFIED'')
     \<and> attempts r \<le> attempts r' \<and> (attempts r \<le> 3 \<longrightarrow> attempts r' \<le> 3)"

definition row_quiet :: "backup_app \<Rightarrow> backup_app \<Rightarrow> bool" where
  "row_quiet r r' \<longleftrightarrow>
     row_advances r r' \<and> (status r = ''VERIFIED'' \<or> status r' = ''VERIFIED'' \<longrightarrow> r' = r)"

definition same_runs :: "database \<Rightarrow> database \<Rightarrow> bool" where
  "same_runs d d' \<longleftrightarrow> map run_id (lifecycle_runs d') = map run_id (lifecycle_runs d)"

definition advances :: "database \<Rightarrow> database \<Rightarrow> bool" where
  "advances d d' \<longleftrightarrow>
     list_all2 row_advances (backup_apps_table d) (backup_apps_table d') \<and> same_runs d d'"

definition quiet :: "database \<Rightarrow> database \<Rightarrow> bool" where
  "quiet d d' \<longleftrightarrow>
     list_all2 row_quiet (backup_apps_table d) (backup_apps_table d') \<and> same_runs d d'"

definition selection :: "string \<Rightarrow> database \<Rightarrow> (string \<times> nat) list" where
  "selection rid d = map (\<lambda>r. (ba_app_id r, rank r))
     (filter (\<lambda>r. ba_run_id r = rid) (backup_apps_table d))"

definition run_verified :: "string \<Rightarrow> database \<Rightarrow> bool" where
  "run_verified rid d \<longleftrightarrow>
     list_ex (\<lambda>r. ba_run_id r = rid) (backup_apps_table d)
     \<and> list_all (\<lambda>r. ba_run_id r = rid \<longrightarrow> status r = ''VERIFIED'') (backup_apps_table d)"

lemma row_advances_refl [simp]: "row_advances r r"
  by (simp add: row_advances_def)

lemma row_quiet_refl [simp]: "row_quiet r r"
  by (simp add: row_quiet_def)

lemma row_quiet_advances: "row_quiet r r' \<Longrightarrow> row_advances r r'"
  by (simp add: row_quiet_def)

lemma row_quiet_status:
  "row_quiet r r' \<Longrightarrow> (status r' = ''VERIFIED'' \<longleftrightarrow> status r = ''VERIFIED'') \<and> ba_run_id r' = ba_run_id r"
  unfolding row_quiet_def row_advances_def by metis

lemma row_advances_trans: "row_advances a b \<Longrightarrow> row_advances b c \<Longrightarrow> row_advances a c"
  by (auto simp: row_advances_def)

lemma advances_refl [simp]: "advances d d"
  by (simp add: advances_def same_runs_def list_all2_refl)

lemma quiet_refl [simp]: "quiet d d"
  by (simp add: quiet_def same_runs_def list_all2_refl)

lemma advances_trans: "advances a b \<Longrightarrow> advances b c \<Longrightarrow> advances a c"
  unfolding advances_def same_runs_def by (auto intro: list_all2_trans [OF row_advances_trans])

lemma quiet_advances: "quiet d d' \<Longrightarrow> advances d d'"
  unfolding quiet_def advances_def by (blast intro: list_all2_mono row_quiet_advances)

lemma quiet_same_table:
  "backup_apps_table d' = backup_apps_table d \<Longrightarrow> same_runs d d' \<Longrightarrow> quiet d d'"
  by (simp add: quiet_def list_all2_refl)

lemma list_all2_updated_rows:
  "(\<And>r. guard r \<Longrightarrow> P r (upd r)) \<Longrightarrow> (\<And>r. P r r) \<Longrightarrow>
   list_all2 P (backup_apps_table d) (backup_apps_table (update_app rid app guard upd d))"
  by (simp add: update_app_def list_all2_map2 list_all2_same)

lemma update_app_runs [simp]: "same_runs d (update_app rid app guard upd d)"
  by (simp add: update_app_def same_runs_def)

lemma update_app_advances:
  "(\<And>r. guard r \<Longrightarrow> row_advances r (upd r)) \<Longrightarrow> advances d (update_app rid app guard upd d)"
  by (simp add: advances_def list_all2_updated_rows)

lemma update_app_quiet:
  "(\<And>r. guard r \<Longrightarrow> row_quiet r (upd r)) \<Longrightarrow> quiet d (update_app rid app guard upd d)"
  by (simp add: quiet_def list_all2_updated_rows)

lemma advances_selection: "advances d d' \<Longrightarrow> selection rid d' = selection rid d"
proof -
  assume "advances d d'"
  then have "list_all2 row_advances (backup_apps_table d) (backup_apps_table d')"
    by (simp add: advances_def)
  then show ?thesis
    unfolding selection_def
    by (induction rule: list_all2_induct) (auto simp: row_advances_def)
qed

lemma advances_run_verified: "advances d d' \<Longrightarrow> run_verified rid d \<Longrightarrow> run_verified rid d'"
proof -
  assume "advances d d'" and v: "run_verified rid d"
  then have "list_all2 row_advances (backup_apps_table d) (backup_apps_table d')"
    by (simp add: advances_def)
  then have "(list_ex (\<lambda>r. ba_run_id r = rid) (backup_apps_table d)
        \<longrightarrow> list_ex (\<lambda>r. ba_run_id r = rid) (backup_apps_table d'))
      \<and> (list_all (\<lambda>r. ba_run_id r = rid \<longrightarrow> status r = ''VERIFIED'') (backup_apps_table d)
        \<longrightarrow> list_all (\<lambda>r. ba_run_id r = rid \<longrightarrow> status r = ''VERIFIED'') (backup_apps_table d'))"
    by (induction rule: list_all2_induct) (auto simp: row_advances_def)
  with v show ?thesis by (simp add: run_verified_def)
qed

locale run_op =
  fixes f :: "'a dbop"
  assumes advances_op: "advances d (snd (f d))"
begin

lemma keeps_selection: "selection rid (snd (f d)) = selection rid d"
  by (rule advances_selection [OF advances_op])

lemma keeps_verified: "run_verified rid d \<Longrightarrow> run_verified rid (snd (f d))"
  by (rule advances_run_verified [OF advances_op])

lemma keeps_rows: "length (backup_apps_table (snd (f d))) = length (backup_apps_table d)"
  using advances_op [of d] by (auto simp: advances_def dest: list_all2_lengthD)

end

locale quiet_op =
  fixes f :: "'a dbop"
  assumes quiet_step: "quiet d (snd (f d))"
begin

sublocale run_op f
  by unfold_locales (rule quiet_advances [OF quiet_step])

lemma verifies_nothing: "run_verified rid (snd (f d)) \<Longrightarrow> run_verified rid d"
proof -
  assume v: "run_verified rid (snd (f d))"
  have "list_all2 row_quiet (backup_apps_table d) (backup_apps_table (snd (f d)))"
    using quiet_step [of d] by (simp add: quiet_def)
  then have "(list_ex (\<lambda>r. ba_run_id r = rid) (backup_apps_table (snd (f d)))
        \<longrightarrow> list_ex (\<lambda>r. ba_run_id r = rid) (backup_apps_table d))
      \<and> (list_all (\<lambda>r. ba_run_id r = rid \<longrightarrow> status r = ''VERIFIED'') (backup_apps_table (snd (f d)))
        \<longrightarrow> list_all (\<lambda>r. ba_run_id r = rid \<longrightarrow> status r = ''VERIFIED'') (backup_apps_table d))"
    by (induction rule: list_all2_induct) (auto dest: row_quiet_status)
  with v show ?thesis by (simp add: run_verified_def)
qed

end

lemmas db_op_defs =
  initialize_monitoring_def reset_terminal_failure_def record_accepted_activity_def
  transition_def mark_shutdown_started_def complete_run_def fail_run_def snapshot_def
  record_active_session_def record_foreground_def ranked_apps_def backup_apps_def
  mark_app_running_def record_start_failure_def mark_app_pending_retry_def
  mark_app_failed_def mark_app_verified_def all_apps_verified_def

lemma same_runs_map:
  "(\<And>r. run_id (f r) = run_id r) \<Longrightarrow> map (run_id \<circ> f) rows = map run_id rows"
  by simp

interpretation op_initialize: quiet_op "initialize_monitoring en now"
  by unfold_locales
    (auto simp: db_op_defs same_runs_def Let_def intro!: quiet_same_table
      split: sum.splits option.splits)

interpretation op_reset: quiet_op "reset_terminal_failure now"
  by unfold_locales
    (auto simp: db_op_defs same_runs_def Let_def intro!: quiet_same_table
      split: sum.splits option.splits)

interpretation op_activity: quiet_op "record_accepted_activity now"
  by unfold_locales
    (auto simp: db_op_defs same_runs_def Let_def intro!: quiet_same_table
      split: sum.splits option.splits)

interpretation op_transition: quiet_op "transition st now err"
  by unfold_locales
    (auto simp: db_op_defs same_runs_def Let_def intro!: quiet_same_table
      split: sum.splits option.splits)

interpretation op_shutdown: quiet_op "mark_shutdown_started rid now"
  by unfold_locales
    (auto simp: db_op_defs same_runs_def Let_def intro!: quiet_same_table
      split: sum.splits option.splits)

interpretation op_complete: quiet_op "complete_run rid now"
  by unfold_locales
    (auto simp: db_op_defs same_runs_def Let_def intro!: quiet_same_table
      split: sum.splits option.splits)

interpretation op_fail: quiet_op "fail_run rid st err"
  by unfold_locales
    (auto simp: db_op_defs same_runs_def Let_def intro!: quiet_same_table
      split: sum.splits option.splits)

interpretation op_snapshot: quiet_op snapshot
  by unfold_locales
    (auto simp: db_op_defs same_runs_def Let_def intro!: quiet_same_table
      split: sum.splits option.splits)

interpretation op_session: quiet_op "record_active_session sid app runtime now"
  by unfold_locales
    (auto simp: db_op_defs same_runs_def Let_def intro!: quiet_same_table
      split: sum.splits option.splits)

interpretation op_foreground: quiet_op "record_foreground app ms now"
  by unfold_locales
    (auto simp: db_op_defs same_runs_def Let_def intro!: quiet_same_table
      split: sum.splits option.splits)

interpretation op_ranked: quiet_op "ranked_apps limit"
  by unfold_locales
    (auto simp: db_op_defs same_runs_def Let_def intro!: quiet_same_table
      split: sum.splits option.splits)

interpretation op_backup_apps: quiet_op "backup_apps rid"
  by unfold_locales
    (auto simp: db_op_defs same_runs_def Let_def intro!: quiet_same_table
      split: sum.splits option.splits)

interpretation op_all_verified: quiet_op "all_apps_verified rid"
  by unfold_locales
    (auto simp: db_op_defs same_runs_def Let_def intro!: quiet_same_table
      split: sum.splits option.splits)

interpretation op_running: quiet_op "mark_app_running rid app op now"
  by unfold_locales
    (auto simp: db_op_defs may_retry_def row_quiet_def row_advances_def intro!: update_app_quiet)

interpretation op_start_failure: quiet_op "record_start_failure rid app err now"
  by unfold_locales
    (auto simp: db_op_defs may_retry_def row_quiet_def row_advances_def intro!: update_app_quiet)

interpretation op_pending: quiet_op "mark_app_pending_retry rid app err now"
  by unfold_locales
    (auto simp: db_op_defs may_retry_def row_quiet_def row_advances_def intro!: update_app_quiet)

interpretation op_failed: quiet_op "mark_app_failed rid app err now"
  by unfold_locales
    (auto simp: db_op_defs may_retry_def row_quiet_def row_advances_def intro!: update_app_quiet)

interpretation op_verified: run_op "mark_app_verified rid app bundle commit now"
  by unfold_locales (auto simp: db_op_defs row_advances_def intro!: update_app_advances)

text \<open>The SQL aggregate counts exactly the rows of the run.\<close>

lemma all_apps_verified_iff: "fst (all_apps_verified rid d) = Inr (run_verified rid d)"
proof -
  let ?rows = "filter (\<lambda>r. ba_run_id r = rid) (backup_apps_table d)"
  have all: "length ?rows = length (filter (\<lambda>r. status r = ''VERIFIED'') ?rows)
      \<longleftrightarrow> (\<forall>r \<in> set ?rows. status r = ''VERIFIED'')"
    using length_filter_all_iff [of "\<lambda>r. status r = ''VERIFIED''" ?rows] by auto
  have "fst (all_apps_verified rid d)
      = Inr (?rows \<noteq> [] \<and> (\<forall>r \<in> set ?rows. status r = ''VERIFIED''))"
    unfolding all_apps_verified_def Let_def fst_conv all
    by (simp add: filter_empty_conv) blast
  also have "(?rows \<noteq> [] \<and> (\<forall>r \<in> set ?rows. status r = ''VERIFIED'')) = run_verified rid d"
    by (auto simp: run_verified_def list_ex_iff list_all_iff filter_empty_conv)
  finally show ?thesis .
qed

section \<open>Creating a run\<close>

lemma insert_backup_app_Some:
  "insert_backup_app rid app rk now d = Some d' \<Longrightarrow>
     lifecycle_runs d' = lifecycle_runs d \<and> lifecycle_state d' = lifecycle_state d
     \<and> app_usage d' = app_usage d \<and> seen_sessions d' = seen_sessions d
     \<and> backup_apps_table d' = backup_apps_table d @
        [\<lparr> ba_run_id = rid, ba_app_id = app, rank = rk, status = ''PENDING'', attempts = 0,
           operation_id = None, bundle_id = None, commit_id = None, ba_last_error = None,
           updated_at = now \<rparr>]"
  by (auto simp: insert_backup_app_def split: if_splits)

fun pending_rows :: "string \<Rightarrow> nat \<Rightarrow> ranked_app list \<Rightarrow> int \<Rightarrow> backup_app list" where
  "pending_rows rid idx [] now = []"
| "pending_rows rid idx (a # as) now =
     \<lparr> ba_run_id = rid, ba_app_id = app_id a, rank = idx + 1, status = ''PENDING'', attempts = 0,
       operation_id = None, bundle_id = None, commit_id = None, ba_last_error = None,
       updated_at = now \<rparr> # pending_rows rid (idx + 1) as now"

lemma insert_backup_apps_table:
  "insert_backup_apps rid idx apps now d = Some d' \<Longrightarrow>
     lifecycle_runs d' = lifecycle_runs d \<and> lifecycle_state d' = lifecycle_state d
     \<and> backup_apps_table d' = backup_apps_table d @ pending_rows rid idx apps now"
proof (induction apps arbitrary: idx d)
  case (Cons a as)
  then obtain d1 where d1: "insert_backup_app rid (app_id a) (idx + 1) now d = Some d1"
      and rest: "insert_backup_apps rid (idx + 1) as now d1 = Some d'"
    by (auto split: option.splits)
  show ?case
    using insert_backup_app_Some [OF d1] Cons.IH [OF rest] by simp
qed simp

lemma create_run_table:
  assumes "create_run_with_frozen_apps rid timeout apps d = (r, d')"
  shows "(r = Inr rid \<and> apps \<noteq> [] \<and> length apps \<le> 10
            \<and> backup_apps_table d' = backup_apps_table d @ pending_rows rid 0 apps (format_time timeout)
            \<and> ls_state (lifecycle_state d') = ''BACKING_UP''
            \<and> active_run_id (lifecycle_state d') = Some rid
            \<and> rid \<notin> run_id ` set (lifecycle_runs d)
            \<and> map run_id (lifecycle_runs d') = map run_id (lifecycle_runs d) @ [rid])
         \<or> (\<exists>e. r = Inl e) \<and> d' = d"
  using assms
  by (auto simp: create_run_with_frozen_apps_def Let_def list_ex_iff comp_def
      split: if_splits option.splits dest!: insert_backup_apps_table)

definition frozen :: "string \<Rightarrow> database \<Rightarrow> bool" where
  "frozen rid d \<longleftrightarrow> list_ex (\<lambda>r. run_id r = rid \<and> frozen_at r \<noteq> None) (lifecycle_runs d)"

lemma insert_backup_apps_Some:
  assumes "\<not> frozen rid d" and "distinct (map app_id apps)" and "idx + length apps \<le> 10"
    and "\<forall>r \<in> set (backup_apps_table d). ba_run_id r = rid \<longrightarrow>
      rank r \<le> idx \<and> ba_app_id r \<notin> app_id ` set apps"
  shows "\<exists>d'. insert_backup_apps rid idx apps now d = Some d'"
  using assms
proof (induction apps arbitrary: idx d)
  case (Cons a as)
  have "\<not> list_ex (\<lambda>r. ba_run_id r = rid \<and> (ba_app_id r = app_id a \<or> rank r = idx + 1))
      (backup_apps_table d)"
    using Cons.prems(4) by (fastforce simp: list_ex_iff)
  with Cons.prems obtain d1 where d1: "insert_backup_app rid (app_id a) (idx + 1) now d = Some d1"
    by (auto simp: insert_backup_app_def frozen_def)
  note rows = insert_backup_app_Some [OF d1]
  have "\<exists>d'. insert_backup_apps rid (idx + 1) as now d1 = Some d'"
  proof (rule Cons.IH)
    show "\<not> frozen rid d1" using rows Cons.prems(1) by (simp add: frozen_def)
    show "\<forall>r \<in> set (backup_apps_table d1). ba_run_id r = rid \<longrightarrow>
        rank r \<le> idx + 1 \<and> ba_app_id r \<notin> app_id ` set as"
      using rows Cons.prems(2,4) by (auto simp: le_Suc_eq)
  qed (use Cons.prems in auto)
  with d1 show ?case by simp
qed simp

lemma pending_selection:
  "map (\<lambda>r. (ba_app_id r, rank r)) (filter (\<lambda>r. ba_run_id r = rid) (pending_rows rid idx apps now))
     = zip (map app_id apps) [idx + 1..<idx + 1 + length apps]"
proof (induction apps arbitrary: idx)
  case (Cons a as)
  have "[Suc idx..<Suc (Suc (idx + length as))] = Suc idx # [Suc (Suc idx)..<Suc (Suc (idx + length as))]"
    by (rule upt_conv_Cons) simp
  with Cons show ?case by simp
qed simp

section \<open>Usage counters\<close>

definition usage_row :: "string \<Rightarrow> database \<Rightarrow> ranked_app option" where
  "usage_row app d = find (\<lambda>r. app_id r = app) (app_usage d)"

definition launches :: "string \<Rightarrow> database \<Rightarrow> int" where
  "launches app d = (case usage_row app d of None \<Rightarrow> 0 | Some r \<Rightarrow> launch_count r)"

definition runtime :: "string \<Rightarrow> database \<Rightarrow> int" where
  "runtime app d = (case usage_row app d of None \<Rightarrow> 0 | Some r \<Rightarrow> process_runtime_ms r)"

definition session_seen :: "string \<Rightarrow> database \<Rightarrow> bool" where
  "session_seen sid d \<longleftrightarrow> list_ex (\<lambda>(s, _, _). s = sid) (seen_sessions d)"

lemma find_upsert_usage:
  assumes "app_id new = k" and "\<And>r. app_id r = k \<Longrightarrow> app_id (upd r) = k"
  shows "find (\<lambda>r. app_id r = k) (upsert_usage k upd new rows) =
    (case find (\<lambda>r. app_id r = k) rows of None \<Rightarrow> Some new | Some r \<Rightarrow> Some (upd r))"
proof (cases "list_ex (\<lambda>r. app_id r = k) rows")
  case True
  have "find (\<lambda>r. app_id r = k) (map (\<lambda>r. if app_id r = k then upd r else r) rows)
      = map_option upd (find (\<lambda>r. app_id r = k) rows)"
    using assms(2) by (induction rows) auto
  moreover have "find (\<lambda>r. app_id r = k) rows \<noteq> None"
    using True by (auto simp: find_None_iff list_ex_iff)
  ultimately show ?thesis
    using True by (auto simp: upsert_usage_def)
next
  case False
  then have "find (\<lambda>r. app_id r = k) rows = None"
    by (auto simp: find_None_iff list_ex_iff)
  moreover from this have "find (\<lambda>r. app_id r = k) (rows @ [new]) = Some new"
    using assms(1) by (induction rows) (auto split: if_splits)
  ultimately show ?thesis
    using False by (simp add: upsert_usage_def)
qed

lemma record_active_session_counts:
  assumes "ms < 2 ^ 63"
  shows "launches app (snd (record_active_session sid app ms t d))
      = launches app d + (if session_seen sid d then 0 else 1)"
    and "runtime app (snd (record_active_session sid app ms t d)) = runtime app d + int ms"
    and "session_seen sid (snd (record_active_session sid app ms t d))"
  using assms
  by (auto simp: record_active_session_def to_i64_def Let_def launches_def runtime_def
      usage_row_def find_upsert_usage session_seen_def split: option.splits)

end
