(* ===== verification/Json.thy ===== *)
theory Json
  imports Main
begin

text \<open>
  The JSON values the agents exchange, as \<^verbatim>\<open>serde_json\<close> presents them to the sources, and the
  accessors the sources use.
\<close>

text \<open>\<^verbatim>\<open>serde_json::Value\<close>; a float is kept as its text, nothing here computes with it.\<close>

datatype json_number = PosInt nat | NegInt int | Float string

datatype json =
    JNull | JBool bool | JNumber json_number | JString string | JArray "json list"
  | JObject "(string \<times> json) list"

fun json_get :: "json \<Rightarrow> string \<Rightarrow> json option" where
  "json_get (JObject kvs) k = map_of kvs k"
| "json_get _ _ = None"

fun json_as_str :: "json \<Rightarrow> string option" where
  "json_as_str (JString s) = Some s"
| "json_as_str _ = None"

fun json_as_array :: "json \<Rightarrow> json list option" where
  "json_as_array (JArray xs) = Some xs"
| "json_as_array _ = None"

fun json_as_u64 :: "json \<Rightarrow> nat option" where
  "json_as_u64 (JNumber (PosInt n)) = Some n"
| "json_as_u64 _ = None"

text \<open>\<^verbatim>\<open>value.get(a).or_else(|| value.get(b))\<close>.\<close>

definition json_get2 :: "json \<Rightarrow> string \<Rightarrow> string \<Rightarrow> json option" where
  "json_get2 v a b = (case json_get v a of Some x \<Rightarrow> Some x | None \<Rightarrow> json_get v b)"

end
