(* ===== verification/Lifecycle_System.thy ===== *)
theory Lifecycle_System
  imports Lifecycle_Db Json
begin

text \<open>
  The state the lifecycle agent's tasks share, the environment they run in and the
  computations they perform.

  Everything outside the agent (clocks, files, the state agent behind its socket, the
  provider, the focused window, database failures) is an \<open>env\<close> record of functions on a
  world \<open>'w\<close>. Each interaction with the state agent and the provider is logged in the
  \<open>trace\<close>, newest first; the code never reads the trace.

  A computation of the engine returns \<open>None\<close> when the bound on status polls is exhausted,
  and otherwise a result and the new state.
\<close>

section \<open>Events and environment\<close>

datatype activity_source = Keyboard | Mouse | Controller | Touch

record activity_event =
  event_type :: string
  source :: activity_source
  timestamp_ms :: int
  synthetic :: bool
  magnitude :: "f32 option"

datatype activity_outcome =
  Accepted | IgnoredSynthetic | IgnoredControllerDrift | IgnoredDebounced

text \<open>Requests other tasks of the agent serve while the engine is running.\<close>

datatype ext_action = RecordActivity activity_event | ReloadConfig

record provider_request =
  req_base_url :: string
  req_instance_id :: u64
  req_action :: provider_action
  req_api_key :: string

text \<open>The request and the response of one exchange with the state agent's socket.\<close>

record rpc_request =
  rq_id :: string
  rq_method :: string
  rq_params :: json

record rpc_response =
  rs_id :: string
  rs_result :: "json option"
  rs_error :: "string option"

record 'w env =
  now_utc :: "'w \<Rightarrow> int \<times> 'w"
  monotonic_ms :: "'w \<Rightarrow> nat \<times> 'w"
  sleep_ms :: "nat \<Rightarrow> 'w \<Rightarrow> 'w"
  new_v4 :: "'w \<Rightarrow> string \<times> 'w"
  parse_uuid :: "string \<Rightarrow> string option"
  db_fault :: "'w \<Rightarrow> agent_error option \<times> 'w"
  read_config :: "'w \<Rightarrow> (agent_error, config option) result \<times> 'w"
  read_capability :: "string \<Rightarrow> 'w \<Rightarrow> (agent_error, storage_capability) result \<times> 'w"
  rpc :: "rpc_request \<Rightarrow> 'w \<Rightarrow> (agent_error, rpc_response) result \<times> 'w"
  foreground_pid :: "'w \<Rightarrow> nat option \<times> 'w"
  provider_apply :: "provider_request \<Rightarrow> 'w \<Rightarrow> (agent_error, unit) result \<times> 'w"
  interleaved :: "'w \<Rightarrow> ext_action list \<times> 'w"

section \<open>Shared state\<close>

datatype effect =
    RpcCall string json "(agent_error, json) result"
  | ProviderApplied string provider_request int storage_capability config database

record 'w sys =
  db :: database
  current_config :: config
  last_by_source :: "activity_source \<Rightarrow> nat option"
  last_activity_monotonic_ms :: nat
  timeout_latched :: bool
  last_usage_tick_ms :: nat
  candidate_app_ids :: "string set"
  world :: 'w
  trace :: "effect list"

section \<open>Computations\<close>

type_synonym ('w, 'a) comp = "'w sys \<Rightarrow> ((agent_error, 'a) result \<times> 'w sys) option"

definition ret :: "'a \<Rightarrow> ('w, 'a) comp" where
  "ret x s = Some (Inr x, s)"

definition throw :: "agent_error \<Rightarrow> ('w, 'a) comp" where
  "throw e s = Some (Inl e, s)"

text \<open>Sequencing with \<^verbatim>\<open>?\<close>: an error of the first part ends the computation.\<close>

definition andThen :: "('w, 'a) comp \<Rightarrow> ('a \<Rightarrow> ('w, 'b) comp) \<Rightarrow> ('w, 'b) comp" where
  "andThen m f s = (case m s of
     None \<Rightarrow> None
   | Some (Inl e, s') \<Rightarrow> Some (Inl e, s')
   | Some (Inr x, s') \<Rightarrow> f x s')"

text \<open>\<^verbatim>\<open>match m { Ok(..) => .., Err(..) => .. }\<close>: the result becomes a value.\<close>

definition attempt :: "('w, 'a) comp \<Rightarrow> ('w, (agent_error, 'a) result) comp" where
  "attempt m s = (case m s of None \<Rightarrow> None | Some (r, s') \<Rightarrow> Some (Inr r, s'))"

definition lift_res :: "(agent_error, 'a) result \<Rightarrow> ('w, 'a) comp" where
  "lift_res r s = Some (r, s)"

definition get :: "('w sys \<Rightarrow> 'a) \<Rightarrow> ('w, 'a) comp" where
  "get f s = Some (Inr (f s), s)"

definition modify :: "('w sys \<Rightarrow> 'w sys) \<Rightarrow> ('w, unit) comp" where
  "modify f s = Some (Inr (), f s)"

definition ask :: "('w \<Rightarrow> 'a \<times> 'w) \<Rightarrow> ('w, 'a) comp" where
  "ask f s = (case f (world s) of (x, w) \<Rightarrow> Some (Inr x, s\<lparr>world := w\<rparr>))"

definition ask_res :: "('w \<Rightarrow> (agent_error, 'a) result \<times> 'w) \<Rightarrow> ('w, 'a) comp" where
  "ask_res f s = (case f (world s) of (r, w) \<Rightarrow> Some (r, s\<lparr>world := w\<rparr>))"

text \<open>A database call may fail in the database itself, which then is unchanged.\<close>

definition query :: "'w env \<Rightarrow> 'a dbop \<Rightarrow> ('w, 'a) comp" where
  "query env op s = (case db_fault env (world s) of
     (Some e, w) \<Rightarrow> Some (Inl e, s\<lparr>world := w\<rparr>)
   | (None, w) \<Rightarrow> (case op (db s) of (r, d) \<Rightarrow> Some (r, s\<lparr>db := d, world := w\<rparr>)))"

fun for_each :: "('x \<Rightarrow> ('w, unit) comp) \<Rightarrow> 'x list \<Rightarrow> ('w, unit) comp" where
  "for_each f [] = ret ()"
| "for_each f (x # xs) = andThen (f x) (\<lambda>_. for_each f xs)"

section \<open>Reasoning about computations\<close>

text \<open>
  \<open>wp m Q s\<close>: if \<open>m\<close> ends from \<open>s\<close>, its result and final state satisfy \<open>Q\<close>.
  \<open>keeps I m\<close>: \<open>m\<close> preserves \<open>I\<close> whether it succeeds or fails.
\<close>

definition wp ::
  "('w, 'a) comp \<Rightarrow> ((agent_error, 'a) result \<Rightarrow> 'w sys \<Rightarrow> bool) \<Rightarrow> 'w sys \<Rightarrow> bool" where
  "wp m Q s \<longleftrightarrow> (case m s of None \<Rightarrow> True | Some (r, s') \<Rightarrow> Q r s')"

definition keeps :: "('w sys \<Rightarrow> bool) \<Rightarrow> ('w, 'a) comp \<Rightarrow> bool" where
  "keeps I m \<longleftrightarrow> (\<forall>s. I s \<longrightarrow> wp m (\<lambda>_ s'. I s') s)"

lemma wpI: "(\<And>r s'. m s = Some (r, s') \<Longrightarrow> Q r s') \<Longrightarrow> wp m Q s"
  by (auto simp: wp_def split: option.split)

lemma wpD: "wp m Q s \<Longrightarrow> m s = Some (r, s') \<Longrightarrow> Q r s'"
  by (simp add: wp_def)

lemma wp_mono: "wp m P s \<Longrightarrow> (\<And>r s'. P r s' \<Longrightarrow> Q r s') \<Longrightarrow> wp m Q s"
  by (auto simp: wp_def split: option.splits)

lemma wp_basic [simp]:
  "wp (ret x) Q s = Q (Inr x) s"
  "wp (throw e) Q s = Q (Inl e) s"
  "wp (lift_res r) Q s = Q r s"
  "wp (get f) Q s = Q (Inr (f s)) s"
  "wp (modify g) P s = P (Inr ()) (g s)"
  by (simp_all add: wp_def ret_def throw_def lift_res_def get_def modify_def)

lemma wp_andThen:
  "wp (andThen m f) Q s =
     wp m (\<lambda>r s'. case r of Inl e \<Rightarrow> Q (Inl e) s' | Inr x \<Rightarrow> wp (f x) Q s') s"
  by (auto simp: wp_def andThen_def split: option.splits sum.splits)

lemma wp_andThenI:
  assumes "wp m P s" and "\<And>e s'. P (Inl e) s' \<Longrightarrow> Q (Inl e) s'"
    and "\<And>x s'. P (Inr x) s' \<Longrightarrow> wp (f x) Q s'"
  shows "wp (andThen m f) Q s"
  unfolding wp_andThen by (rule wp_mono [OF assms(1)]) (auto intro: assms(2,3) split: sum.split)

lemma wp_attemptI: "wp m P s \<Longrightarrow> (\<And>r s'. P r s' \<Longrightarrow> Q (Inr r) s') \<Longrightarrow> wp (attempt m) Q s"
  unfolding wp_def attempt_def by (auto split: option.splits)

lemma wp_attempt: "wp (attempt m) Q s = wp m (\<lambda>r s'. Q (Inr r) s') s"
  by (auto simp: wp_def attempt_def split: option.splits)

lemma keepsD: "keeps I m \<Longrightarrow> I s \<Longrightarrow> wp m (\<lambda>_ s'. I s') s"
  by (simp add: keeps_def)

lemma keepsI: "(\<And>s r s'. I s \<Longrightarrow> m s = Some (r, s') \<Longrightarrow> I s') \<Longrightarrow> keeps I m"
  by (auto simp: keeps_def intro: wpI)

lemma keeps_run: "keeps I m \<Longrightarrow> I s \<Longrightarrow> m s = Some (r, s') \<Longrightarrow> I s'"
  by (auto simp: keeps_def wp_def)

lemma keeps_basic [intro!, simp]:
  "keeps I (ret x)" "keeps I (throw e)" "keeps I (lift_res r)" "keeps I (get f)"
  by (simp_all add: keeps_def)

lemma keeps_andThen [intro!]: "keeps I m \<Longrightarrow> (\<And>x. keeps I (f x)) \<Longrightarrow> keeps I (andThen m f)"
  unfolding keeps_def wp_andThen
  by (auto intro: wp_mono split: sum.split)

lemma keeps_attempt [intro!]: "keeps I m \<Longrightarrow> keeps I (attempt m)"
  by (auto simp: keeps_def wp_attempt)

lemma keeps_if [intro!]: "(c \<Longrightarrow> keeps I m) \<Longrightarrow> (\<not> c \<Longrightarrow> keeps I n) \<Longrightarrow> keeps I (if c then m else n)"
  by simp

lemma keeps_option [intro!]:
  "(x = None \<Longrightarrow> keeps I m) \<Longrightarrow> (\<And>y. x = Some y \<Longrightarrow> keeps I (f y)) \<Longrightarrow>
   keeps I (case x of None \<Rightarrow> m | Some y \<Rightarrow> f y)"
  by (cases x) auto

lemma keeps_sum [intro!]:
  "(\<And>e. x = Inl e \<Longrightarrow> keeps I (f e)) \<Longrightarrow> (\<And>y. x = Inr y \<Longrightarrow> keeps I (g y)) \<Longrightarrow>
   keeps I (case x of Inl e \<Rightarrow> f e | Inr y \<Rightarrow> g y)"
  by (cases x) auto

lemma keeps_prod [intro!]:
  "(\<And>a b. x = (a, b) \<Longrightarrow> keeps I (f a b)) \<Longrightarrow> keeps I (case x of (a, b) \<Rightarrow> f a b)"
  by (cases x) auto

lemma keeps_for_each [intro!]: "(\<And>x. keeps I (f x)) \<Longrightarrow> keeps I (for_each f xs)"
  by (induction xs) auto

lemma keeps_modify: "(\<And>s. I s \<Longrightarrow> I (g s)) \<Longrightarrow> keeps I (modify g)"
  by (simp add: keeps_def)

lemma keeps_ask: "(\<And>s w. I s \<Longrightarrow> I (s\<lparr>world := w\<rparr>)) \<Longrightarrow> keeps I (ask f) \<and> keeps I (ask_res g)"
  by (auto simp: ask_def ask_res_def intro!: keepsI split: prod.splits)

lemma keeps_query:
  assumes "\<And>s w. I s \<Longrightarrow> I (s\<lparr>world := w\<rparr>)"
    and "\<And>s w. I s \<Longrightarrow> I (s\<lparr>db := snd (op (db s)), world := w\<rparr>)"
  shows "keeps I (query env op)"
  using assms by (intro keepsI) (auto simp: query_def split: prod.splits option.splits, fastforce+)

text \<open>A computation that ends: it never exhausts a poll bound.\<close>

definition ends :: "('w, 'a) comp \<Rightarrow> bool" where
  "ends m \<longleftrightarrow> (\<forall>s. m s \<noteq> None)"

lemma ends_basic [intro!, simp]:
  "ends (ret x)" "ends (throw e)" "ends (lift_res r)" "ends (get f)" "ends (modify g)"
  by (simp_all add: ends_def ret_def throw_def lift_res_def get_def modify_def)

lemma ends_prims [intro!, simp]: "ends (ask f)" "ends (ask_res g)" "ends (query env op)"
  by (auto simp: ends_def ask_def ask_res_def query_def split: prod.splits option.splits)

lemma ends_andThen [intro!]: "ends m \<Longrightarrow> (\<And>x. ends (f x)) \<Longrightarrow> ends (andThen m f)"
  by (auto simp: ends_def andThen_def split: option.splits sum.splits)

lemma ends_attempt [intro!]: "ends m \<Longrightarrow> ends (attempt m)"
  by (auto simp: ends_def attempt_def split: option.splits)

lemma ends_for_each [intro!]: "(\<And>x. ends (f x)) \<Longrightarrow> ends (for_each f xs)"
  by (induction xs) auto

end
