(* ===== verification/Lifecycle_Activity.thy ===== *)
theory Lifecycle_Activity
  imports Lifecycle_System
begin

text \<open>
  User activity (\<^verbatim>\<open>activity.rs\<close>): the newline framing of the activity socket, the processor
  that debounces events and keeps the idle anchor, and the configuration reload of
  \<^verbatim>\<open>engine.rs\<close>. \<open>record_activity\<close> and \<open>reload_config\<close> are the two handlers that other tasks
  of the agent run while the engine is at work; \<open>interfere\<close> runs any number of them.
\<close>

section \<open>Framing of the activity socket\<close>

definition MAX_ACTIVITY_LINE_BYTES :: nat where "MAX_ACTIVITY_LINE_BYTES = 4 * 1024"

record line_reader =
  line :: bytes
  discarding_oversize :: bool

definition new_line_reader :: line_reader where
  "new_line_reader = \<lparr> line = [], discarding_oversize = False \<rparr>"

text \<open>One byte of \<^verbatim>\<open>read_activity_stream\<close>: the new reader and the line handed to the decoder.\<close>

definition feed_byte :: "line_reader \<Rightarrow> byte \<Rightarrow> line_reader \<times> bytes option" where
  "feed_byte st b =
     (if b = 10
      then (new_line_reader,
            if \<not> discarding_oversize st \<and> line st \<noteq> [] then Some (line st) else None)
      else if \<not> discarding_oversize st
      then (if length (line st) = MAX_ACTIVITY_LINE_BYTES
            then (\<lparr> line = [], discarding_oversize = True \<rparr>, None)
            else (st\<lparr>line := line st @ [b]\<rparr>, None))
      else (st, None))"

fun feed_bytes :: "line_reader \<Rightarrow> bytes \<Rightarrow> line_reader \<times> bytes list" where
  "feed_bytes st [] = (st, [])"
| "feed_bytes st (b # bs) =
     (case feed_byte st b of (st', out) \<Rightarrow>
        (case feed_bytes st' bs of (st'', outs) \<Rightarrow>
           (st'', (case out of None \<Rightarrow> outs | Some l \<Rightarrow> l # outs))))"

text \<open>The stream as the socket delivers it, in reads of any size.\<close>

fun feed_reads :: "line_reader \<Rightarrow> bytes list \<Rightarrow> line_reader \<times> bytes list" where
  "feed_reads st [] = (st, [])"
| "feed_reads st (r # rs) =
     (case feed_bytes st r of (st', outs) \<Rightarrow>
        (case feed_reads st' rs of (st'', outs') \<Rightarrow> (st'', outs @ outs')))"

section \<open>The activity processor\<close>

definition SOURCE_DEBOUNCE_MS :: nat where "SOURCE_DEBOUNCE_MS = 50"

definition finite_magnitude :: "activity_event \<Rightarrow> f32 option" where
  "finite_magnitude ev = (case magnitude ev of
     None \<Rightarrow> None | Some m \<Rightarrow> if f32_is_finite m then Some m else None)"

definition debounced :: "(activity_source \<Rightarrow> nat option) \<Rightarrow> activity_source \<Rightarrow> nat \<Rightarrow> bool" where
  "debounced seen src now_mono = (case seen src of
     None \<Rightarrow> False | Some previous \<Rightarrow> now_mono - previous < SOURCE_DEBOUNCE_MS)"

definition controller_drift :: "activity_event \<Rightarrow> ('w, bool) comp" where
  "controller_drift ev =
     (if source ev = Controller then
        (case finite_magnitude ev of
           None \<Rightarrow> throw ''controller activity requires finite magnitude''
         | Some m \<Rightarrow> andThen (get (\<lambda>s. controller_dead_zone (current_config s)))
             (\<lambda>dead_zone. ret (f32_le (f32_abs m) dead_zone)))
      else ret False)"

definition record_activity :: "'w env \<Rightarrow> activity_event \<Rightarrow> ('w, activity_outcome) comp" where
  "record_activity env ev =
     (if event_type ev \<noteq> ''user_activity'' then throw ''unsupported activity event type''
      else if timestamp_ms ev < 0 then throw ''activity timestampMs must be non-negative''
      else if synthetic ev then ret IgnoredSynthetic
      else andThen (controller_drift ev) (\<lambda>drift.
        if drift then ret IgnoredControllerDrift
        else andThen (ask (monotonic_ms env)) (\<lambda>now_mono.
             andThen (get last_by_source) (\<lambda>last.
             if debounced last (source ev) now_mono then ret IgnoredDebounced
             else andThen (modify (\<lambda>s. s\<lparr>last_by_source := last(source ev \<mapsto> now_mono)\<rparr>)) (\<lambda>_.
                  andThen (ask (now_utc env)) (\<lambda>now.
                  andThen (query env (record_accepted_activity now)) (\<lambda>_.
                  andThen (modify (\<lambda>s. s\<lparr>last_activity_monotonic_ms := now_mono\<rparr>)) (\<lambda>_.
                  ret Accepted))))))))"

definition latch_timeout :: "('w, unit) comp" where
  "latch_timeout = modify (\<lambda>s. s\<lparr>timeout_latched := True\<rparr>)"

definition latch_timeout_if_elapsed :: "'w env \<Rightarrow> nat \<Rightarrow> ('w, bool) comp" where
  "latch_timeout_if_elapsed env timeout =
     andThen (get timeout_latched) (\<lambda>latched.
     if latched then ret True
     else andThen (ask (monotonic_ms env)) (\<lambda>now_mono.
          andThen (get last_activity_monotonic_ms) (\<lambda>last.
          if now_mono - last < timeout then ret False
          else andThen latch_timeout (\<lambda>_. ret True))))"

definition reset_for_monitoring :: "'w env \<Rightarrow> ('w, unit) comp" where
  "reset_for_monitoring env =
     andThen (ask (monotonic_ms env)) (\<lambda>now_mono.
     andThen (modify (\<lambda>s. s\<lparr>last_activity_monotonic_ms := now_mono, timeout_latched := False,
        last_by_source := Map.empty\<rparr>)) (\<lambda>_.
     andThen (ask (now_utc env)) (\<lambda>now.
     query env (record_accepted_activity now))))"

definition idle_duration_ms :: "'w env \<Rightarrow> ('w, nat) comp" where
  "idle_duration_ms env =
     andThen (ask (monotonic_ms env)) (\<lambda>now_mono.
     andThen (get last_activity_monotonic_ms) (\<lambda>last. ret (now_mono - last)))"

section \<open>Configuration reload (engine.rs)\<close>

definition reload_config :: "'w env \<Rightarrow> ('w, unit) comp" where
  "reload_config env =
     andThen (ask (read_config env)) (\<lambda>file.
     andThen (lift_res (config_load file)) (\<lambda>new_config.
     andThen (get current_config) (\<lambda>current.
     if \<not> runtime_paths_match current new_config
     then throw ''socket and database path changes require an agent restart''
     else let newly_enabled = \<not> enabled current \<and> enabled new_config in
       andThen (modify (\<lambda>s. s\<lparr>current_config := new_config\<rparr>)) (\<lambda>_.
       if enabled new_config
       then andThen (ask (now_utc env)) (\<lambda>now.
            andThen (query env (reset_terminal_failure now)) (\<lambda>_.
            if newly_enabled
            then andThen (ask (now_utc env)) (\<lambda>now.
                 andThen (query env (initialize_monitoring True now)) (\<lambda>_.
                 reset_for_monitoring env))
            else ret ()))
       else andThen (query env snapshot) (\<lambda>snap.
            if \<not> run_is_active (sn_state snap)
            then andThen (ask (now_utc env)) (\<lambda>now.
                 query env (initialize_monitoring False now))
            else ret ())))))"

section \<open>Interference of the other tasks\<close>

text \<open>
  Before each step of the engine the other tasks may have served any number of requests;
  their failures are logged and do not reach the engine.
\<close>

fun serve :: "'w env \<Rightarrow> ext_action \<Rightarrow> ('w, unit) comp" where
  "serve env (RecordActivity ev) = andThen (attempt (record_activity env ev)) (\<lambda>_. ret ())"
| "serve env ReloadConfig = andThen (attempt (reload_config env)) (\<lambda>_. ret ())"

definition interfere :: "'w env \<Rightarrow> ('w, unit) comp" where
  "interfere env = andThen (ask (interleaved env)) (for_each (serve env))"

text \<open>The engine's own steps, each after some interference.\<close>

definition step :: "'w env \<Rightarrow> ('w, 'a) comp \<Rightarrow> ('w, 'a) comp" where
  "step env m = andThen (interfere env) (\<lambda>_. m)"

definition utc_now :: "'w env \<Rightarrow> ('w, int) comp" where
  "utc_now env = step env (ask (now_utc env))"

definition dbcall :: "'w env \<Rightarrow> 'a dbop \<Rightarrow> ('w, 'a) comp" where
  "dbcall env op = step env (query env op)"

text \<open>\<^verbatim>\<open>database.op(.., self.clock.now_utc())\<close>.\<close>

definition dbnow :: "'w env \<Rightarrow> (int \<Rightarrow> 'a dbop) \<Rightarrow> ('w, 'a) comp" where
  "dbnow env op = andThen (utc_now env) (\<lambda>t. dbcall env (op t))"

definition fresh_uuid :: "'w env \<Rightarrow> ('w, string) comp" where
  "fresh_uuid env = step env (ask (new_v4 env))"

definition pause :: "'w env \<Rightarrow> nat \<Rightarrow> ('w, unit) comp" where
  "pause env ms = step env (ask (\<lambda>w. ((), sleep_ms env ms w)))"

section \<open>Framing is independent of how the bytes arrive\<close>

lemma feed_bytes_append:
  "feed_bytes st (xs @ ys) =
     (case feed_bytes st xs of (st', outs) \<Rightarrow>
        (case feed_bytes st' ys of (st'', outs') \<Rightarrow> (st'', outs @ outs')))"
  by (induction xs arbitrary: st) (auto split: prod.splits option.splits)

lemma feed_reads_concat: "feed_reads st rs = feed_bytes st (concat rs)"
  by (induction rs arbitrary: st) (auto simp: feed_bytes_append split: prod.splits)

lemma feed_discarding:
  "10 \<notin> set bs \<Longrightarrow> discarding_oversize st \<Longrightarrow> feed_bytes st bs = (st, [])"
  by (induction bs) (auto simp: feed_byte_def)

lemma feed_segment:
  assumes "10 \<notin> set bs" and "\<not> discarding_oversize st"
    and "length (line st) \<le> MAX_ACTIVITY_LINE_BYTES"
  shows "feed_bytes st bs =
    (if length (line st) + length bs \<le> MAX_ACTIVITY_LINE_BYTES
     then (st\<lparr>line := line st @ bs\<rparr>, [])
     else (\<lparr> line = [], discarding_oversize = True \<rparr>, []))"
  using assms
  by (induction bs arbitrary: st) (auto simp: feed_byte_def feed_discarding)

definition accepted_line :: "bytes \<Rightarrow> bool" where
  "accepted_line l \<longleftrightarrow> l \<noteq> [] \<and> length l \<le> MAX_ACTIVITY_LINE_BYTES"

lemma feed_line:
  assumes "10 \<notin> set bs"
  shows "feed_bytes new_line_reader (bs @ [10]) =
    (new_line_reader, if accepted_line bs then [bs] else [])"
  by (simp add: feed_bytes_append feed_segment [OF assms] new_line_reader_def feed_byte_def
      accepted_line_def)

lemma feed_lines:
  "\<forall>l \<in> set ls. 10 \<notin> set l \<Longrightarrow>
   feed_bytes new_line_reader (concat (map (\<lambda>l. l @ [10]) ls))
     = (new_line_reader, filter accepted_line ls)"
proof (induction ls)
  case (Cons l ls)
  then have "feed_bytes new_line_reader (l @ [10]) =
      (new_line_reader, if accepted_line l then [l] else [])"
    by (intro feed_line) simp
  with Cons show ?case
    by (simp only: list.map concat.simps feed_bytes_append) simp
qed simp

end
