(* ===== verification/Lifecycle_Client.thy ===== *)
theory Lifecycle_Client
  imports Lifecycle_Activity
begin

text \<open>
  The lifecycle agent's client of the state agent (\<^verbatim>\<open>state_agent.rs\<close>): each remote method
  sends its parameters as JSON and decodes the JSON it gets back. The transport (socket,
  time-out, JSON text) is \<^const>\<open>rpc\<close> of the environment; the text of a \<^verbatim>\<open>serde\<close> decoding
  error is not modelled, a fixed message stands for it.
\<close>

section \<open>Calls\<close>

definition checked_response :: "string \<Rightarrow> rpc_response \<Rightarrow> (agent_error, json) result" where
  "checked_response request_id r =
     (if rs_id r \<noteq> request_id then Inl ''state-agent response ID mismatch''
      else if rs_error r \<noteq> None then Inl ''state-agent RPC reported an error''
      else ok_or ''state-agent response has no result'' (rs_result r))"

definition call :: "'w env \<Rightarrow> string \<Rightarrow> json \<Rightarrow> ('w, json) comp" where
  "call env method params =
     step env (andThen (ask (new_v4 env)) (\<lambda>request_id.
       andThen (ask (rpc env \<lparr> rq_id = request_id, rq_method = method, rq_params = params \<rparr>))
         (\<lambda>response. let r = res_bind response (checked_response request_id) in
            andThen (modify (\<lambda>s. s\<lparr>trace := RpcCall method params r # trace s\<rparr>))
              (\<lambda>_. lift_res r))))"

definition session_json :: "rclone_session \<Rightarrow> json" where
  "session_json s = JObject
     [(''operation_id'', JString (sess_operation_id s)), (''provider'', JString (sess_provider s)),
      (''backend_type'', JString (sess_backend_type s)),
      (''remote_name'', JString (sess_remote_name s)), (''root'', JString (sess_root s)),
      (''config_ini'', JString (sess_config_ini s)),
      (''expires_at_unix'', JNumber (if sess_expires_at_unix s < 0
         then NegInt (sess_expires_at_unix s) else PosInt (nat (sess_expires_at_unix s)))),
      (''upload_concurrency'', (case sess_upload_concurrency s of
         None \<Rightarrow> JNull | Some n \<Rightarrow> JNumber (PosInt n)))]"

section \<open>Active sessions and candidates\<close>

record active_app_session =
  aas_session_id :: string
  aas_app_id :: string

fun decode_string :: "json \<Rightarrow> string option" where
  "decode_string (JString s) = Some s"
| "decode_string _ = None"

fun decode_u32 :: "json \<Rightarrow> nat option" where
  "decode_u32 (JNumber (PosInt n)) = (if n < 2 ^ 32 then Some n else None)"
| "decode_u32 _ = None"

fun decode_pids :: "json \<Rightarrow> nat list option" where
  "decode_pids (JArray xs) = those (map decode_u32 xs)"
| "decode_pids _ = None"

fun decode_root_pid :: "json \<Rightarrow> nat option option" where
  "decode_root_pid JNull = Some None"
| "decode_root_pid v = map_option Some (decode_u32 v)"

text \<open>A field with an alias: present under one of the two names, twice is an error.\<close>

definition aliased :: "(string \<times> json) list \<Rightarrow> string \<Rightarrow> string \<Rightarrow> json option option" where
  "aliased kvs name alias = (case (map_of kvs name, map_of kvs alias) of
     (Some _, Some _) \<Rightarrow> None
   | (Some v, None) \<Rightarrow> Some (Some v)
   | (None, Some v) \<Rightarrow> Some (Some v)
   | (None, None) \<Rightarrow> Some None)"

definition build_session ::
  "json option \<Rightarrow> json option \<Rightarrow> json option \<Rightarrow> json option \<Rightarrow> active_app_session option" where
  "build_session sid app pids root_pid =
     (case (Option.bind sid decode_string, Option.bind app decode_string) of
        (Some s, Some a) \<Rightarrow>
          if (case pids of None \<Rightarrow> True | Some v \<Rightarrow> decode_pids v \<noteq> None)
             \<and> (case root_pid of None \<Rightarrow> True | Some v \<Rightarrow> decode_root_pid v \<noteq> None)
          then Some \<lparr> aas_session_id = s, aas_app_id = a \<rparr> else None
      | _ \<Rightarrow> None)"

definition nth_opt :: "'a list \<Rightarrow> nat \<Rightarrow> 'a option" where
  "nth_opt xs i = (if i < length xs then Some (xs ! i) else None)"

fun decode_session :: "json \<Rightarrow> active_app_session option" where
  "decode_session (JObject kvs) =
     (case (aliased kvs ''session_id'' ''sessionId'', aliased kvs ''app_id'' ''appId'',
            aliased kvs ''root_pid'' ''rootPid'') of
        (Some sid, Some app, Some rp) \<Rightarrow> build_session sid app (map_of kvs ''pids'') rp
      | _ \<Rightarrow> None)"
| "decode_session (JArray xs) =
     (if length xs > 4 then None
      else build_session (nth_opt xs 0) (nth_opt xs 1) (nth_opt xs 2) (nth_opt xs 3))"
| "decode_session _ = None"

definition get_active_app_sessions :: "'w env \<Rightarrow> ('w, active_app_session list) comp" where
  "get_active_app_sessions env =
     andThen (call env ''GetActiveAppSessions'' (JObject [])) (\<lambda>value.
       let sessions = (case json_get value ''sessions'' of Some v \<Rightarrow> v | None \<Rightarrow> value) in
       lift_res (ok_or ''invalid active application sessions''
         (Option.bind (json_as_array sessions) (\<lambda>xs. those (map decode_session xs)))))"

definition list_backup_candidate_app_ids :: "'w env \<Rightarrow> ('w, string set) comp" where
  "list_backup_candidate_app_ids env =
     andThen (call env ''ListBackupCandidateIds'' (JObject [])) (\<lambda>value.
       lift_res (res_bind
         (ok_or ''state-agent returned invalid backup candidate IDs''
            (Option.bind (json_as_array value) (\<lambda>xs. those (map decode_string xs))))
         (\<lambda>ids. Inr (set ids))))"

definition resolve_process_to_app :: "'w env \<Rightarrow> nat \<Rightarrow> ('w, string option) comp" where
  "resolve_process_to_app env pid =
     andThen (call env ''ResolveProcessToApp'' (JObject [(''pid'', JNumber (PosInt pid))])) (\<lambda>value.
       if value = JNull then ret None
       else case json_as_str value of
         Some app \<Rightarrow> ret (Some app)
       | None \<Rightarrow> ret (Option.bind (json_get2 value ''app_id'' ''appId'') json_as_str))"

section \<open>Backups\<close>

datatype backup_mode = CompleteApplication | PersonalState

fun mode_as_str :: "backup_mode \<Rightarrow> string" where
  "mode_as_str CompleteApplication = ''complete_application''"
| "mode_as_str PersonalState = ''personal_state''"

definition bundle_is_baseline :: "string \<Rightarrow> json \<Rightarrow> bool" where
  "bundle_is_baseline head bundle \<longleftrightarrow>
     Option.bind (json_get bundle ''bundle_id'') json_as_str = Some head
     \<and> Option.bind (json_get bundle ''mode'') json_as_str = Some ''complete_application''
     \<and> (case Option.bind (json_get bundle ''logical_size'') json_as_u64 of
          None \<Rightarrow> False | Some n \<Rightarrow> n > 0)"

definition catalog_has_nonempty_complete_baseline :: "json list \<Rightarrow> string \<Rightarrow> bool" where
  "catalog_has_nonempty_complete_baseline apps app = list_ex (\<lambda>a.
     if Option.bind (json_get a ''app_id'') json_as_str \<noteq> Some app then False
     else case Option.bind (json_get a ''latest_complete_bundle_id'') json_as_str of
       None \<Rightarrow> False
     | Some head \<Rightarrow>
         (case Option.bind (json_get a ''bundles'') json_as_array of
            None \<Rightarrow> False
          | Some bundles \<Rightarrow> list_ex (bundle_is_baseline head) bundles)) apps"

definition has_complete_baseline ::
  "'w env \<Rightarrow> string \<Rightarrow> rclone_session \<Rightarrow> string \<Rightarrow> ('w, bool) comp" where
  "has_complete_baseline env app session key =
     andThen (call env ''ListCloudCatalog''
       (JObject [(''session'', session_json session), (''master_key_hex'', JString key)])) (\<lambda>value.
     andThen (lift_res (ok_or ''state-agent returned an invalid cloud catalog''
       (Option.bind (json_get value ''apps'') json_as_array))) (\<lambda>apps.
     ret (catalog_has_nonempty_complete_baseline apps app)))"

definition start_backup ::
  "'w env \<Rightarrow> string \<Rightarrow> backup_mode \<Rightarrow> string \<Rightarrow> rclone_session \<Rightarrow> string \<Rightarrow> ('w, string) comp" where
  "start_backup env app mode op session key =
     andThen (call env ''StartBackup'' (JObject
       [(''app_id'', JString app), (''mode'', JString (mode_as_str mode)),
        (''performance_mode'', JString ''balanced''), (''session'', session_json session),
        (''master_key_hex'', JString key), (''operation_id'', JString op)])) (\<lambda>value.
     lift_res (ok_or ''StartBackup response has no operation ID''
       (Option.bind (json_get2 value ''operation_id'' ''operationId'') json_as_str)))"

record operation_status =
  os_state :: string
  detail_json :: json

definition upper_char :: "char \<Rightarrow> char" where
  "upper_char c =
     (let n = of_char c :: nat in if 97 \<le> n \<and> n \<le> 122 then char_of (n - 32) else c)"

text \<open>\<^verbatim>\<open>.and_then(Value::as_str).filter(..)\<close>: a string field that is not blank.\<close>

definition nonblank_str :: "json option \<Rightarrow> string option" where
  "nonblank_str v = Option.bind (Option.bind v json_as_str)
     (\<lambda>s. if is_blank s then None else Some s)"

text \<open>\<^verbatim>\<open>detail_json["_last_error"] = ..\<close> on an object, made empty if it was none.\<close>

fun with_last_error :: "json \<Rightarrow> string \<Rightarrow> json" where
  "with_last_error (JObject kvs) e = JObject (AList.update ''_last_error'' (JString e) kvs)"
| "with_last_error _ e = JObject [(''_last_error'', JString e)]"

definition decode_status :: "json \<Rightarrow> (agent_error, operation_status) result" where
  "decode_status value =
     res_bind (ok_or ''operation status has no state''
       (Option.bind (json_get value ''state'') json_as_str)) (\<lambda>state.
     let detail = (case json_get2 value ''detail_json'' ''detailJson'' of
           Some v \<Rightarrow> v | None \<Rightarrow> JObject []);
         detail' = (case nonblank_str (json_get2 value ''last_error'' ''lastError'') of
           None \<Rightarrow> detail | Some e \<Rightarrow> with_last_error detail e)
     in Inr \<lparr> os_state = map upper_char state, detail_json = detail' \<rparr>)"

definition get_operation_status :: "'w env \<Rightarrow> string \<Rightarrow> ('w, operation_status) comp" where
  "get_operation_status env op =
     andThen (call env ''GetOperationStatus'' (JObject [(''operation_id'', JString op)]))
       (\<lambda>value. lift_res (decode_status value))"

section \<open>Verification\<close>

record verification =
  v_verified :: bool
  v_app_id :: string
  v_bundle_id :: string
  v_commit_id :: string

definition build_verification ::
  "(string \<Rightarrow> string option) \<Rightarrow> json \<Rightarrow> json \<Rightarrow> json \<Rightarrow> json \<Rightarrow> verification option" where
  "build_verification uuid ok app bundle commit =
     (case (ok, decode_string app, Option.bind (decode_string bundle) uuid,
            Option.bind (decode_string commit) uuid) of
        (JBool b, Some a, Some u, Some c) \<Rightarrow>
          Some \<lparr> v_verified = b, v_app_id = a, v_bundle_id = u, v_commit_id = c \<rparr>
      | _ \<Rightarrow> None)"

fun decode_verification :: "(string \<Rightarrow> string option) \<Rightarrow> json \<Rightarrow> verification option" where
  "decode_verification uuid (JObject kvs) =
     (case (map_of kvs ''verified'', map_of kvs ''app_id'', map_of kvs ''bundle_id'',
            map_of kvs ''commit_id'') of
        (Some v, Some a, Some b, Some c) \<Rightarrow> build_verification uuid v a b c
      | _ \<Rightarrow> None)"
| "decode_verification uuid (JArray [v, a, b, c]) = build_verification uuid v a b c"
| "decode_verification uuid _ = None"

definition verification_result_matches ::
  "(string \<Rightarrow> string option) \<Rightarrow> json \<Rightarrow> string \<Rightarrow> string \<Rightarrow> string \<Rightarrow> (agent_error, bool) result" where
  "verification_result_matches uuid value app bundle commit =
     res_bind (ok_or ''state-agent returned an invalid verification result''
       (decode_verification uuid value)) (\<lambda>r.
     Inr (v_verified r \<and> v_app_id r = app \<and> v_bundle_id r = bundle \<and> v_commit_id r = commit))"

definition verify_params ::
  "string \<Rightarrow> string \<Rightarrow> string \<Rightarrow> rclone_session \<Rightarrow> string \<Rightarrow> json" where
  "verify_params app bundle commit session key = JObject
     [(''app_id'', JString app), (''bundle_id'', JString bundle), (''commit_id'', JString commit),
      (''session'', session_json session), (''master_key_hex'', JString key)]"

definition verify_backup_commit ::
  "'w env \<Rightarrow> string \<Rightarrow> string \<Rightarrow> string \<Rightarrow> rclone_session \<Rightarrow> string \<Rightarrow> ('w, bool) comp" where
  "verify_backup_commit env app bundle commit session key =
     andThen (call env ''VerifyBackupCommit'' (verify_params app bundle commit session key))
       (\<lambda>value. lift_res (verification_result_matches (parse_uuid env) value app bundle commit))"

text \<open>
  What a positive verification means: the state agent answered \<^verbatim>\<open>VerifyBackupCommit\<close> for
  this very application, bundle and commit with \<^verbatim>\<open>verified = true\<close>.
\<close>

definition commit_confirmed ::
  "(string \<Rightarrow> string option) \<Rightarrow> effect list \<Rightarrow> string \<Rightarrow> string \<Rightarrow> string \<Rightarrow> bool" where
  "commit_confirmed uuid tr app bundle commit \<longleftrightarrow>
     (\<exists>session key value. RpcCall ''VerifyBackupCommit''
          (verify_params app bundle commit session key) (Inr value) \<in> set tr
        \<and> verification_result_matches uuid value app bundle commit = Inr True)"

lemma commit_confirmed_mono:
  "commit_confirmed uuid tr app bundle commit \<Longrightarrow> set tr \<subseteq> set tr' \<Longrightarrow>
   commit_confirmed uuid tr' app bundle commit"
  by (auto simp: commit_confirmed_def)

end
