(* ===== verification/Lifecycle_Engine.thy ===== *)
theory Lifecycle_Engine
  imports Lifecycle_Client
begin

text \<open>
  The lifecycle engine (\<^verbatim>\<open>engine.rs\<close>) and the agent's start-up (\<^verbatim>\<open>main.rs\<close>): sampling of
  application usage, selection of the applications to back up, their backup with retries
  and verification, and the provider action once everything is verified.

  The only loop without a bound of its own is the status polling of
  \<^verbatim>\<open>monitor_and_verify\<close>; its definition takes the number of polls it may make.
\<close>

section \<open>Constants\<close>

definition BACKUP_POLL_INTERVAL_MS :: nat where "BACKUP_POLL_INTERVAL_MS = 2000"
definition BACKUP_POLL_TIMEOUT_MS :: nat where "BACKUP_POLL_TIMEOUT_MS = 30 * 60 * 1000"
definition BACKUP_MAX_ATTEMPTS :: nat where "BACKUP_MAX_ATTEMPTS = 3"
definition MAX_TRACKED_APPS :: nat where "MAX_TRACKED_APPS = 1024"
definition BACKOFFS :: "nat list" where "BACKOFFS = [5000, 15000, 30000]"

section \<open>Applications that are never backed up\<close>

definition ALWAYS_IGNORE_MARKERS :: "string list" where
  "ALWAYS_IGNORE_MARKERS =
     [''sunshine'', ''noland'', ''systemd'', ''startplasma'', ''at-spi'', ''plasmashell'',
      ''plasma_session'', ''kdeinit'', ''kioslave'', ''xsettingsd'', ''dbus-run-session'',
      ''geoclue'', ''xdg-desktop-portal'', ''xdg-document-portal'', ''htop'', ''konsole'',
      ''kate'', ''kwrite'', ''dolphin'', ''spectacle'', ''systemsettings'', ''nvidia-settings'']"

definition ALWAYS_IGNORE_EXECUTABLES :: "string list" where
  "ALWAYS_IGNORE_EXECUTABLES =
     [''accounts-daemon'', ''agetty'', ''avahi-daemon'', ''bash'', ''csh'', ''dash'', ''fish'',
      ''ksh'', ''sh'', ''tcsh'', ''zsh'', ''cron'', ''dbus-broker'', ''dbus-daemon'', ''caddy'',
      ''guacd'', ''vast-caddy'', ''kdeinit'', ''kioslave'', ''networkmanager'',
      ''noland-lifecycle-agent'', ''noland-state-agent'', ''packagekitd'', ''pipewire'',
      ''polkitd'', ''pulseaudio'', ''rtkit-daemon'', ''sshd'', ''startplasma'', ''sunshine'',
      ''systemd'', ''udisksd'', ''upowerd'', ''wireplumber'', ''xorg'', ''xsettingsd'']"

definition ALWAYS_IGNORE_EXECUTABLE_PREFIXES :: "string list" where
  "ALWAYS_IGNORE_EXECUTABLE_PREFIXES = [''xdg-desktop-portal'', ''systemd-'']"

definition is_always_ignored_executable_name :: "string \<Rightarrow> bool" where
  "is_always_ignored_executable_name name =
     (let normalized = to_ascii_lowercase (last (split_on CHR ''/'' (trim name))) in
      normalized \<in> set ALWAYS_IGNORE_EXECUTABLES
      \<or> list_ex (\<lambda>p. prefix p normalized) ALWAYS_IGNORE_EXECUTABLE_PREFIXES
      \<or> list_ex (\<lambda>m. sublist m normalized) ALWAYS_IGNORE_MARKERS)"

text \<open>\<^verbatim>\<open>rsplit_once(c).map_or(s, |(name, _)| name)\<close>: the text before the last separator.\<close>

definition before_last :: "char \<Rightarrow> string \<Rightarrow> string" where
  "before_last c s = (if c \<in> set s
     then rev (tl (dropWhile (\<lambda>x. x \<noteq> c) (rev s))) else s)"

definition is_backup_eligible_app_id :: "string \<Rightarrow> bool" where
  "is_backup_eligible_app_id app =
     (case strip_prefix ''exe:'' (to_ascii_lowercase (trim app)) of
        None \<Rightarrow> True
      | Some executable_id \<Rightarrow>
          \<not> is_always_ignored_executable_name
              (last (split_on CHR ''/'' (before_last CHR '':'' executable_id))))"

section \<open>Usage sampling and selection\<close>

definition record_session ::
  "'w env \<Rightarrow> string set \<Rightarrow> nat \<Rightarrow> int \<Rightarrow> active_app_session \<Rightarrow> ('w, unit) comp" where
  "record_session env candidates elapsed t session =
     (if aas_app_id session \<in> candidates \<and> is_backup_eligible_app_id (aas_app_id session)
      then andThen (dbcall env (record_active_session (aas_session_id session)
             (aas_app_id session) elapsed t)) (\<lambda>_. ret ())
      else ret ())"

definition update_usage :: "'w env \<Rightarrow> ('w, unit) comp" where
  "update_usage env =
     andThen (step env (ask (monotonic_ms env))) (\<lambda>now_mono.
     andThen (step env (get last_usage_tick_ms)) (\<lambda>previous.
     andThen (modify (\<lambda>s. s\<lparr>last_usage_tick_ms := now_mono\<rparr>)) (\<lambda>_.
     let elapsed = now_mono - previous in
     if elapsed = 0 then ret ()
     else andThen (get_active_app_sessions env) (\<lambda>sessions.
          andThen (list_backup_candidate_app_ids env) (\<lambda>candidates.
          andThen (step env (modify (\<lambda>s. s\<lparr>candidate_app_ids := candidates\<rparr>))) (\<lambda>_.
          andThen (utc_now env) (\<lambda>t.
          andThen (for_each (record_session env candidates elapsed t) sessions) (\<lambda>_.
          andThen (step env (ask (foreground_pid env))) (\<lambda>pid.
          case pid of
            None \<Rightarrow> ret ()
          | Some p \<Rightarrow> andThen (resolve_process_to_app env p) (\<lambda>app.
              case app of
                None \<Rightarrow> ret ()
              | Some a \<Rightarrow>
                  if a \<in> candidates \<and> is_backup_eligible_app_id a
                  then dbcall env (record_foreground a elapsed t)
                  else ret ()))))))))))"

definition eligible_ranked_apps :: "'w env \<Rightarrow> nat \<Rightarrow> ('w, ranked_app list) comp" where
  "eligible_ranked_apps env limit =
     andThen (step env (get candidate_app_ids)) (\<lambda>candidates.
     andThen (dbcall env (ranked_apps MAX_TRACKED_APPS)) (\<lambda>apps.
     ret (take limit (filter (\<lambda>a. app_id a \<in> candidates \<and> is_backup_eligible_app_id (app_id a))
       apps))))"

definition validated_ranked_apps :: "'w env \<Rightarrow> nat \<Rightarrow> ('w, ranked_app list) comp" where
  "validated_ranked_apps env limit =
     andThen (list_backup_candidate_app_ids env) (\<lambda>candidates.
     andThen (step env (modify (\<lambda>s. s\<lparr>candidate_app_ids := candidates\<rparr>))) (\<lambda>_.
     eligible_ranked_apps env limit))"

section \<open>Status\<close>

record agent_status =
  as_instance_id :: u64
  as_enabled :: bool
  as_state :: lifecycle_state
  as_last_activity_at :: "int option"
  as_idle_duration_ms :: nat
  as_timeout_ms :: nat
  as_time_remaining_ms :: nat
  as_timeout_reached_at :: "int option"
  as_active_run_id :: "string option"
  as_ranked_apps :: "ranked_app list"
  as_last_error :: "string option"

definition agent_status_of :: "'w env \<Rightarrow> ('w, agent_status) comp" where
  "agent_status_of env =
     andThen (step env (get current_config)) (\<lambda>cfg.
     andThen (dbcall env snapshot) (\<lambda>snap.
     andThen (step env (idle_duration_ms env)) (\<lambda>idle.
     andThen (step env (get timeout_latched)) (\<lambda>latched.
     andThen (eligible_ranked_apps env (backup_app_limit cfg)) (\<lambda>apps.
     ret \<lparr> as_instance_id = instance_id cfg, as_enabled = enabled cfg,
           as_state = sn_state snap, as_last_activity_at = sn_last_activity_at snap,
           as_idle_duration_ms = idle, as_timeout_ms = timeout_ms cfg,
           as_time_remaining_ms = (if latched then 0 else timeout_ms cfg - idle),
           as_timeout_reached_at = sn_timeout_reached_at snap,
           as_active_run_id = sn_active_run_id snap, as_ranked_apps = apps,
           as_last_error = sn_last_error snap \<rparr>)))))"

section \<open>Backing up one application\<close>

definition string_field :: "json \<Rightarrow> string \<Rightarrow> string \<Rightarrow> string option" where
  "string_field v snake camel = nonblank_str (json_get2 v snake camel)"

definition completion_ids :: "operation_status \<Rightarrow> (agent_error, string \<times> string) result" where
  "completion_ids st =
     res_bind (ok_or ''completed backup has no bundle ID''
       (string_field (detail_json st) ''bundle_id'' ''bundleId'')) (\<lambda>bundle.
     res_bind (ok_or ''completed backup has no commit ID''
       (string_field (detail_json st) ''commit_id'' ''commitId'')) (\<lambda>commit.
     Inr (bundle, commit)))"

definition unsafe_reason :: "operation_status \<Rightarrow> agent_error" where
  "unsafe_reason st =
     (let v = (case json_get2 (detail_json st) ''_last_error'' ''last_error'' of
           Some x \<Rightarrow> Some x | None \<Rightarrow> json_get (detail_json st) ''error'')
      in case nonblank_str v of
           Some reason \<Rightarrow> ''backup operation ended in unsafe state '' @ os_state st @ '': '' @ reason
         | None \<Rightarrow> ''backup operation ended in unsafe state '' @ os_state st)"

definition failed_states :: "string list" where
  "failed_states = [''FAILED'', ''CANCELLED'', ''INTERRUPTED'']"

definition pending_states :: "string list" where
  "pending_states =
     [''QUEUED'', ''DISCOVERING'', ''RECONCILING'', ''SNAPSHOTTING'', ''HASHING'', ''PACKING'',
      ''UPLOADING'', ''COMMITTING'', ''CHECKPOINTING'', ''RUNNING'']"

definition verify_completed ::
  "'w env \<Rightarrow> string \<Rightarrow> storage_capability \<Rightarrow> operation_status \<Rightarrow> ('w, string \<times> string) comp" where
  "verify_completed env app cap st =
     andThen (lift_res (completion_ids st)) (\<lambda>(bundle, commit).
     andThen (dbnow env (\<lambda>t. transition Verifying t None)) (\<lambda>_.
     andThen (fresh_uuid env) (\<lambda>op.
     andThen (verify_backup_commit env app bundle commit (session_for_operation cap op)
        (master_key_hex cap)) (\<lambda>verified.
     if \<not> verified then throw ''backup commit verification failed''
     else andThen (dbnow env (\<lambda>t. transition BackingUp t None)) (\<lambda>_.
          ret (bundle, commit))))))"

fun poll_backup ::
  "'w env \<Rightarrow> string \<Rightarrow> string \<Rightarrow> storage_capability \<Rightarrow> nat \<Rightarrow> nat \<Rightarrow> ('w, string \<times> string) comp" where
  "poll_backup env app op cap started 0 = (\<lambda>s. None)"
| "poll_backup env app op cap started (Suc polls) =
     andThen (get_operation_status env op) (\<lambda>st.
     if os_state st = ''COMPLETED'' then verify_completed env app cap st
     else if os_state st \<in> set failed_states then throw (unsafe_reason st)
     else if os_state st \<notin> set pending_states
     then throw (''backup operation returned unknown state '' @ os_state st)
     else andThen (step env (ask (monotonic_ms env))) (\<lambda>now_mono.
          if now_mono - started \<ge> BACKUP_POLL_TIMEOUT_MS
          then throw ''backup operation timed out''
          else andThen (pause env BACKUP_POLL_INTERVAL_MS) (\<lambda>_.
               poll_backup env app op cap started polls)))"

definition monitor_and_verify ::
  "'w env \<Rightarrow> nat \<Rightarrow> string \<Rightarrow> string \<Rightarrow> storage_capability \<Rightarrow> ('w, string \<times> string) comp" where
  "monitor_and_verify env polls app op cap =
     andThen (step env (ask (monotonic_ms env))) (\<lambda>started.
       poll_backup env app op cap started polls)"

text \<open>
  The retry loop of \<^verbatim>\<open>backup_app\<close>. Each round adds one attempt, so the number of rounds left,
  the last argument, is \<^verbatim>\<open>BACKUP_MAX_ATTEMPTS - attempts\<close>.
\<close>

definition start_failed ::
  "'w env \<Rightarrow> string \<Rightarrow> backup_app \<Rightarrow> agent_error \<Rightarrow> ('w, unit) comp \<Rightarrow> ('w, unit) comp" where
  "start_failed env rid app err again =
     andThen (dbnow env (record_start_failure rid (ba_app_id app) err)) (\<lambda>_.
     if attempts app \<ge> BACKUP_MAX_ATTEMPTS
     then andThen (dbnow env (mark_app_failed rid (ba_app_id app) err)) (\<lambda>_. throw err)
     else again)"

fun backup_attempts ::
  "'w env \<Rightarrow> nat \<Rightarrow> string \<Rightarrow> backup_app \<Rightarrow> storage_capability \<Rightarrow> backup_mode \<Rightarrow> nat \<Rightarrow> ('w, unit) comp"
where
  "backup_attempts env polls rid app cap mode 0 = throw ''backup attempts exhausted''"
| "backup_attempts env polls rid app cap mode (Suc n) =
     andThen (if attempts app > 0 then pause env (BACKOFFS ! (attempts app - 1)) else ret ()) (\<lambda>_.
     andThen (fresh_uuid env) (\<lambda>requested.
     andThen (attempt (start_backup env (ba_app_id app) mode requested
        (session_for_operation cap requested) (master_key_hex cap))) (\<lambda>started.
     let app' = app\<lparr>attempts := attempts app + 1\<rparr>;
         again = backup_attempts env polls rid app' cap mode n in
     case started of
       Inl err \<Rightarrow> start_failed env rid app' err again
     | Inr op \<Rightarrow>
         if is_blank op
         then start_failed env rid app' ''StartBackup returned an empty operation ID'' again
         else andThen (dbnow env (mark_app_running rid (ba_app_id app) op)) (\<lambda>_.
              andThen (attempt (monitor_and_verify env polls (ba_app_id app) op cap)) (\<lambda>result.
              case result of
                Inr (bundle, commit) \<Rightarrow>
                  dbnow env (mark_app_verified rid (ba_app_id app) bundle commit)
              | Inl err \<Rightarrow>
                  if attempts app' < BACKUP_MAX_ATTEMPTS
                  then andThen (dbnow env (mark_app_pending_retry rid (ba_app_id app) err))
                         (\<lambda>_. again)
                  else andThen (dbnow env (mark_app_failed rid (ba_app_id app) err))
                         (\<lambda>_. throw err))))))"

text \<open>
  The first part of \<^verbatim>\<open>backup_app\<close>: a row left \<^verbatim>\<open>RUNNING\<close> by a previous run of the agent is
  followed to its end. \<open>None\<close>: it is now verified; \<open>Some row\<close>: the row to retry.
\<close>

definition retry_row :: "'w env \<Rightarrow> string \<Rightarrow> string \<Rightarrow> ('w, backup_app option) comp" where
  "retry_row env rid app =
     andThen (dbcall env (backup_apps rid)) (\<lambda>rows.
     andThen (lift_res (ok_or ''frozen backup application disappeared''
       (find (\<lambda>r. ba_app_id r = app) rows))) (\<lambda>row. ret (Some row)))"

definition resume_running ::
  "'w env \<Rightarrow> nat \<Rightarrow> string \<Rightarrow> backup_app \<Rightarrow> storage_capability \<Rightarrow> ('w, backup_app option) comp" where
  "resume_running env polls rid app cap =
     (if status app = ''RUNNING''
      then (case operation_id app of
              Some op \<Rightarrow>
                andThen (attempt (monitor_and_verify env polls (ba_app_id app) op cap)) (\<lambda>result.
                case result of
                  Inr (bundle, commit) \<Rightarrow>
                    andThen (dbnow env (mark_app_verified rid (ba_app_id app) bundle commit))
                      (\<lambda>_. ret None)
                | Inl err \<Rightarrow>
                    andThen (dbnow env (mark_app_pending_retry rid (ba_app_id app) err))
                      (\<lambda>_. retry_row env rid (ba_app_id app)))
            | None \<Rightarrow>
                andThen (dbnow env (mark_app_pending_retry rid (ba_app_id app)
                    ''persisted running backup has no operation ID''))
                  (\<lambda>_. retry_row env rid (ba_app_id app)))
      else ret (Some app))"

definition backup_one ::
  "'w env \<Rightarrow> nat \<Rightarrow> string \<Rightarrow> backup_app \<Rightarrow> storage_capability \<Rightarrow> ('w, unit) comp" where
  "backup_one env polls rid app0 cap =
     andThen (resume_running env polls rid app0 cap) (\<lambda>row.
     case row of
       None \<Rightarrow> ret ()
     | Some app \<Rightarrow>
         andThen (fresh_uuid env) (\<lambda>probe.
         andThen (has_complete_baseline env (ba_app_id app) (session_for_operation cap probe)
            (master_key_hex cap)) (\<lambda>baseline.
         backup_attempts env polls rid app cap
           (if baseline then PersonalState else CompleteApplication)
           (BACKUP_MAX_ATTEMPTS - attempts app))))"

section \<open>Executing a run\<close>

text \<open>The backup loop of \<^verbatim>\<open>execute_run\<close>; \<open>False\<close>: the run was failed and is over.\<close>

fun backup_all ::
  "'w env \<Rightarrow> nat \<Rightarrow> string \<Rightarrow> storage_capability \<Rightarrow> backup_app list \<Rightarrow> ('w, bool) comp" where
  "backup_all env polls rid cap [] = ret True"
| "backup_all env polls rid cap (app # apps) =
     (if status app = ''VERIFIED'' then backup_all env polls rid cap apps
      else andThen (attempt (backup_one env polls rid app cap)) (\<lambda>result.
           case result of
             Inl err \<Rightarrow> andThen (dbcall env (fail_run (Some rid) BackupFailedSafe err))
                          (\<lambda>_. ret False)
           | Inr _ \<Rightarrow> backup_all env polls rid cap apps))"

definition provider_request_for :: "config \<Rightarrow> storage_capability \<Rightarrow> provider_request" where
  "provider_request_for cfg cap =
     \<lparr> req_base_url = vast_base_url cfg, req_instance_id = instance_id cfg,
       req_action = provider_action cfg, req_api_key = prov_api_key cap \<rparr>"

text \<open>
  The provider is called in the state the call finds, which the trace records with the
  instant at which the capability was last validated.
\<close>

definition apply_provider ::
  "'w env \<Rightarrow> string \<Rightarrow> config \<Rightarrow> storage_capability \<Rightarrow> int \<Rightarrow> ('w, unit) comp" where
  "apply_provider env rid cfg cap t =
     step env (andThen (modify (\<lambda>s. s\<lparr>trace :=
         ProviderApplied rid (provider_request_for cfg cap) t cap cfg (db s) # trace s\<rparr>)) (\<lambda>_.
       ask_res (provider_apply env (provider_request_for cfg cap))))"

fun provider_attempts ::
  "'w env \<Rightarrow> string \<Rightarrow> config \<Rightarrow> storage_capability \<Rightarrow> string option \<Rightarrow> nat list \<Rightarrow> ('w, unit) comp"
where
  "provider_attempts env rid cfg cap last_err [] =
     dbcall env (fail_run (Some rid) ShutdownFailedSafe
       (case last_err of Some e \<Rightarrow> e | None \<Rightarrow> ''provider action failed''))"
| "provider_attempts env rid cfg cap last_err (k # ks) =
     andThen (if k > 0
        then andThen (dbnow env (\<lambda>t. transition ShutdownRetryWait t last_err)) (\<lambda>_.
             pause env (BACKOFFS ! (k - 1)))
        else ret ()) (\<lambda>_.
     andThen (utc_now env) (\<lambda>t.
     case capability_validate cap cfg t of
       Inl err \<Rightarrow> dbcall env (fail_run (Some rid) ShutdownFailedSafe err)
     | Inr _ \<Rightarrow>
         andThen (dbnow env (mark_shutdown_started rid)) (\<lambda>_.
         andThen (attempt (apply_provider env rid cfg cap t)) (\<lambda>result.
         case result of
           Inr _ \<Rightarrow> dbnow env (complete_run rid)
         | Inl err \<Rightarrow> provider_attempts env rid cfg cap (Some err) ks))))"

definition load_capability :: "'w env \<Rightarrow> config \<Rightarrow> ('w, storage_capability) comp" where
  "load_capability env cfg =
     andThen (utc_now env) (\<lambda>t.
     andThen (step env (ask (read_capability env (capability_path cfg)))) (\<lambda>file.
     lift_res (load_and_validate file cfg t)))"

definition execute_run :: "'w env \<Rightarrow> nat \<Rightarrow> string \<Rightarrow> config \<Rightarrow> ('w, unit) comp" where
  "execute_run env polls rid cfg =
     andThen (attempt (load_capability env cfg)) (\<lambda>loaded.
     case loaded of
       Inl err \<Rightarrow> dbcall env (fail_run (Some rid) BackupFailedSafe err)
     | Inr cap \<Rightarrow>
         andThen (dbcall env (backup_apps rid)) (\<lambda>apps.
         andThen (backup_all env polls rid cap apps) (\<lambda>go_on.
         if \<not> go_on then ret ()
         else andThen (dbcall env (all_apps_verified rid)) (\<lambda>all_verified.
              if \<not> all_verified
              then dbcall env (fail_run (Some rid) BackupFailedSafe
                     ''not every selected application has a verified backup'')
              else provider_attempts env rid cfg cap None [0..<length BACKOFFS + 1]))))"

section \<open>The evaluation tick\<close>

text \<open>The end of \<^verbatim>\<open>tick\<close>: the timeout is latched, a run is created and executed.\<close>

definition begin_run :: "'w env \<Rightarrow> nat \<Rightarrow> config \<Rightarrow> ('w, unit) comp" where
  "begin_run env polls cfg =
     andThen (utc_now env) (\<lambda>timeout_at.
     andThen (dbcall env (transition TimeoutReached timeout_at None)) (\<lambda>_.
     andThen (dbnow env (\<lambda>t. transition SelectingApplications t None)) (\<lambda>_.
     andThen (attempt (validated_ranked_apps env (backup_app_limit cfg))) (\<lambda>selected.
     case selected of
       Inl err \<Rightarrow> dbcall env (fail_run None BackupFailedSafe
         (''unable to validate automatic-backup applications against shared storage: '' @ err))
     | Inr apps \<Rightarrow>
         if apps = []
         then dbcall env (fail_run None BackupFailedSafe
                ''no eligible ranked applications; provider action blocked'')
         else andThen (fresh_uuid env) (\<lambda>rid.
              andThen (dbcall env (create_run_with_frozen_apps rid timeout_at apps)) (\<lambda>run.
              execute_run env polls run cfg))))))"

text \<open>The part of \<^verbatim>\<open>tick\<close> that runs with an enabled configuration.\<close>

definition evaluate :: "'w env \<Rightarrow> nat \<Rightarrow> config \<Rightarrow> ('w, unit) comp" where
  "evaluate env polls cfg =
     andThen (attempt (update_usage env)) (\<lambda>_.
     andThen (dbcall env snapshot) (\<lambda>snap.
     if run_is_active (sn_state snap)
     then andThen (lift_res (ok_or ''active lifecycle state has no run ID''
            (sn_active_run_id snap))) (\<lambda>rid. execute_run env polls rid cfg)
     else if run_is_terminal (sn_state snap) then ret ()
     else andThen (step env (latch_timeout_if_elapsed env (timeout_ms cfg))) (\<lambda>reached.
          if \<not> reached
          then (if sn_state snap \<noteq> MonitoringIdle
                then dbnow env (\<lambda>t. transition MonitoringIdle t None)
                else ret ())
          else begin_run env polls cfg)))"

definition tick :: "'w env \<Rightarrow> nat \<Rightarrow> ('w, unit) comp" where
  "tick env polls =
     andThen (step env (get current_config)) (\<lambda>cfg.
     if \<not> enabled cfg
     then andThen (dbcall env snapshot) (\<lambda>snap.
          if \<not> run_is_active (sn_state snap) \<and> sn_state snap \<noteq> Disabled
          then dbnow env (initialize_monitoring False)
          else ret ())
     else evaluate env polls cfg)"

section \<open>Start-up (main.rs, LifecycleEngine::new)\<close>

text \<open>
  Starting the agent on the database it finds: only \<^const>\<open>db\<close>, \<^const>\<open>world\<close> and the trace
  survive a restart; the database file of a first start is \<^const>\<open>migrated_database\<close>.
\<close>

definition agent_start :: "'w env \<Rightarrow> ('w, unit) comp" where
  "agent_start env =
     andThen (ask (read_config env)) (\<lambda>file.
     andThen (lift_res (config_load file)) (\<lambda>cfg.
     andThen (lift_res (config_validate cfg)) (\<lambda>_.
     andThen (ask (now_utc env)) (\<lambda>t.
     andThen (query env (initialize_monitoring (enabled cfg) t)) (\<lambda>_.
     andThen (ask (monotonic_ms env)) (\<lambda>anchor.
     andThen (modify (\<lambda>s. s\<lparr>current_config := cfg, last_by_source := Map.empty,
        last_activity_monotonic_ms := anchor, timeout_latched := False\<rparr>)) (\<lambda>_.
     andThen (ask (monotonic_ms env)) (\<lambda>now_mono.
     andThen (query env snapshot) (\<lambda>snap.
     andThen (if run_is_active (sn_state snap) then latch_timeout else ret ()) (\<lambda>_.
     modify (\<lambda>s. s\<lparr>last_usage_tick_ms := now_mono, candidate_app_ids := {}\<rparr>)))))))))))"

end
