(* ===== verification/Lifecycle_Safety.thy ===== *)
theory Lifecycle_Safety
  imports Lifecycle_Engine
begin

text \<open>
  Safety of the lifecycle engine. \<open>engine_invariant\<close> is the contract of a property of the
  shared state that survives the engine's elementary effects; its lemmas carry such a
  property through every computation of the engine, whatever fails and whatever the other
  tasks do in between. Two properties implement it: the history of a run (\<open>follows\<close>) and
  the safety invariant of the trace (\<open>safe\<close>).
\<close>

lemmas quiet_steps [simp] =
  op_initialize.quiet_step op_reset.quiet_step op_activity.quiet_step op_transition.quiet_step
  op_shutdown.quiet_step op_complete.quiet_step op_fail.quiet_step op_snapshot.quiet_step
  op_session.quiet_step op_foreground.quiet_step op_ranked.quiet_step op_backup_apps.quiet_step
  op_running.quiet_step op_start_failure.quiet_step op_pending.quiet_step op_failed.quiet_step
  op_all_verified.quiet_step

section \<open>The contract and what it carries\<close>

locale engine_invariant =
  fixes env :: "'w env" and I :: "'w sys \<Rightarrow> bool"
  assumes quiet_change: "I s \<Longrightarrow> quiet (db s) (db s') \<Longrightarrow> trace s' = trace s \<Longrightarrow> I s'"
    and rpc_logged: "I s \<Longrightarrow> I (s\<lparr>trace := RpcCall m p r # trace s\<rparr>)"
    and app_verified: "I s \<Longrightarrow> commit_confirmed (parse_uuid env) (trace s) app b c \<Longrightarrow>
      I (s\<lparr>db := snd (mark_app_verified rid app b c t (db s)), world := w\<rparr>)"
    and provider_called: "I s \<Longrightarrow> run_verified rid (db s) \<Longrightarrow> capability_validate cap cfg t = Inr () \<Longrightarrow>
      I (s\<lparr>trace := ProviderApplied rid (provider_request_for cfg cap) t cap cfg (db s) # trace s\<rparr>)"
begin

lemma quiet_modify: "(\<And>s. db (g s) = db s \<and> trace (g s) = trace s) \<Longrightarrow> keeps I (modify g)"
  by (rule keeps_modify) (metis quiet_change quiet_refl)

lemma world_change: "I s \<Longrightarrow> I (s\<lparr>world := w\<rparr>)"
  by (rule quiet_change) auto

lemma quiet_asks [intro!, simp]: "keeps I (ask f)" "keeps I (ask_res g)"
  using keeps_ask [of I, OF world_change] by blast+

lemma quiet_query: "(\<And>d. quiet d (snd (op d))) \<Longrightarrow> keeps I (query env op)"
  by (rule keeps_query) (auto intro: quiet_change world_change)

lemmas quiet_rules = quiet_query quiet_modify

lemma record_activity_keeps [intro!]: "keeps I (record_activity env ev)"
  unfolding record_activity_def controller_drift_def by (auto intro!: quiet_rules)

lemma reset_for_monitoring_keeps [intro!]: "keeps I (reset_for_monitoring env)"
  unfolding reset_for_monitoring_def by (auto intro!: quiet_rules)

lemma reload_config_keeps [intro!]: "keeps I (reload_config env)"
  unfolding reload_config_def Let_def by (auto intro!: quiet_rules)

lemma serve_keeps [intro!]: "keeps I (serve env a)"
  by (cases a) auto

lemma interfere_keeps [intro!]: "keeps I (interfere env)"
  unfolding interfere_def by auto

lemma step_keeps [intro!]: "keeps I m \<Longrightarrow> keeps I (step env m)"
  unfolding step_def by auto

lemma step_quiet_modify [intro!]:
  "(\<And>s. db (g s) = db s \<and> trace (g s) = trace s) \<Longrightarrow> keeps I (step env (modify g))"
  by (intro step_keeps quiet_modify)

lemma prims_keep [intro!, simp]:
  "keeps I (utc_now env)" "keeps I (fresh_uuid env)" "keeps I (pause env ms)"
  unfolding utc_now_def fresh_uuid_def pause_def by auto

lemma dbcall_keeps [intro!]: "(\<And>d. quiet d (snd (op d))) \<Longrightarrow> keeps I (dbcall env op)"
  unfolding dbcall_def by (intro step_keeps quiet_query)

lemma dbnow_keeps [intro!]: "(\<And>t d. quiet d (snd (op t d))) \<Longrightarrow> keeps I (dbnow env op)"
  unfolding dbnow_def by auto

lemma call_keeps [intro!]: "keeps I (call env m p)"
  unfolding call_def Let_def by (auto intro!: keeps_modify rpc_logged)

lemma latch_keeps [intro!]: "keeps I (latch_timeout_if_elapsed env t)" "keeps I latch_timeout"
  unfolding latch_timeout_if_elapsed_def latch_timeout_def by (auto intro!: quiet_modify)

lemma client_keeps [intro!]:
  "keeps I (get_active_app_sessions env)" "keeps I (list_backup_candidate_app_ids env)"
  "keeps I (resolve_process_to_app env pid)" "keeps I (has_complete_baseline env app ses key)"
  "keeps I (start_backup env app mode op ses key)" "keeps I (get_operation_status env op)"
  "keeps I (verify_backup_commit env app b c ses key)"
  unfolding get_active_app_sessions_def list_backup_candidate_app_ids_def
    resolve_process_to_app_def has_complete_baseline_def start_backup_def
    get_operation_status_def verify_backup_commit_def Let_def
  by auto

lemma record_session_keeps [intro!]: "keeps I (record_session env cs n t ses)"
  unfolding record_session_def by auto

lemma update_usage_keeps [intro!]: "keeps I (update_usage env)"
  unfolding update_usage_def Let_def by (auto intro!: quiet_modify)

lemma eligible_keeps [intro!]: "keeps I (eligible_ranked_apps env n)"
  unfolding eligible_ranked_apps_def by auto

lemma validated_keeps [intro!]: "keeps I (validated_ranked_apps env n)"
  unfolding validated_ranked_apps_def by auto

lemma status_keeps: "keeps I (agent_status_of env)"
  unfolding agent_status_of_def idle_duration_ms_def by auto

lemma verify_completed_keeps [intro!]: "keeps I (verify_completed env app cap st)"
  unfolding verify_completed_def by auto

lemma poll_backup_keeps [intro!]: "keeps I (poll_backup env app op cap started n)"
proof (induction n)
  case 0
  show ?case by (simp add: keeps_def wp_def)
qed auto

lemma monitor_and_verify_keeps [intro!]: "keeps I (monitor_and_verify env n app op cap)"
  unfolding monitor_and_verify_def by auto

lemma load_capability_keeps [intro!]: "keeps I (load_capability env cfg)"
  unfolding load_capability_def by auto

lemma agent_start_keeps: "keeps I (agent_start env)"
  unfolding agent_start_def by (auto intro!: quiet_rules)

text \<open>The invariant together with a fact that the elementary effects also keep.\<close>

lemma with_confirmed:
  "engine_invariant env (\<lambda>s. I s \<and> commit_confirmed (parse_uuid env) (trace s) app b c)"
  by unfold_locales
    (auto intro: quiet_change rpc_logged app_verified provider_called
      elim!: commit_confirmed_mono)

lemma with_verified: "engine_invariant env (\<lambda>s. I s \<and> run_verified rid (db s))"
  by unfold_locales
    (auto intro: quiet_change rpc_logged app_verified provider_called
      advances_run_verified quiet_advances op_verified.keeps_verified)

lemma rpc_logged_world: "I s \<Longrightarrow> I (s\<lparr>world := w, trace := RpcCall m p r # trace s\<rparr>)"
  using rpc_logged [OF world_change] by simp

lemma call_logs:
  assumes "I s"
  shows "wp (call env m p)
    (\<lambda>r s'. I s' \<and> (\<forall>v. r = Inr v \<longrightarrow> RpcCall m p (Inr v) \<in> set (trace s'))) s"
proof -
  have "wp (interfere env) (\<lambda>_ s'. I s') s"
    using interfere_keeps assms by (rule keepsD)
  then show ?thesis
    unfolding call_def step_def
    by (rule wp_andThenI)
      (auto simp: wp_andThen wp_def ask_def modify_def lift_res_def Let_def andThen_def
        intro: rpc_logged_world split: prod.splits)
qed

lemma verify_backup_commit_wp:
  assumes "I s"
  shows "wp (verify_backup_commit env app b c ses key)
    (\<lambda>r s'. I s' \<and> (r = Inr True \<longrightarrow> commit_confirmed (parse_uuid env) (trace s') app b c)) s"
  unfolding verify_backup_commit_def
  by (rule wp_andThenI [OF call_logs [OF assms]]) (auto simp: commit_confirmed_def)

text \<open>A successful end of monitoring: the commit it returns has been confirmed.\<close>

definition confirmed_result ::
  "string \<Rightarrow> (agent_error, string \<times> string) result \<Rightarrow> 'w sys \<Rightarrow> bool" where
  "confirmed_result app r s' \<longleftrightarrow> I s' \<and> (case r of Inl _ \<Rightarrow> True
     | Inr (b, c) \<Rightarrow> commit_confirmed (parse_uuid env) (trace s') app b c)"

lemma confirmed_result_simps [simp]:
  "confirmed_result app (Inl e) s' = I s'"
  "confirmed_result app (Inr (b, c)) s' \<longleftrightarrow>
     I s' \<and> commit_confirmed (parse_uuid env) (trace s') app b c"
  by (simp_all add: confirmed_result_def)

lemma verify_completed_wp:
  assumes "I s"
  shows "wp (verify_completed env app cap st) (confirmed_result app) s"
proof (cases "completion_ids st")
  case (Inl e)
  with assms show ?thesis
    by (simp add: verify_completed_def wp_andThen)
next
  case (Inr bc)
  obtain b c where bc: "bc = (b, c)" by (cases bc)
  have finish: "wp (andThen (dbnow env (\<lambda>t. transition BackingUp t None)) (\<lambda>_. ret (b, c)))
      (confirmed_result app) s'"
    if "I s' \<and> commit_confirmed (parse_uuid env) (trace s') app b c" for s'
  proof -
    have "keeps (\<lambda>s. I s \<and> commit_confirmed (parse_uuid env) (trace s) app b c)
        (dbnow env (\<lambda>t. transition BackingUp t None))"
      by (rule engine_invariant.dbnow_keeps [OF with_confirmed]) simp
    from keepsD [OF this that] show ?thesis
      by (rule wp_andThenI) auto
  qed
  have "keeps I (dbnow env (\<lambda>t. transition Verifying t None))" and "keeps I (fresh_uuid env)"
    by auto
  note pre = this [THEN keepsD]
  have "wp (verify_completed env app cap st) (confirmed_result app) s =
    wp (andThen (dbnow env (\<lambda>t. transition Verifying t None)) (\<lambda>_.
       andThen (fresh_uuid env) (\<lambda>op.
       andThen (verify_backup_commit env app b c (session_for_operation cap op)
          (master_key_hex cap)) (\<lambda>verified.
       if \<not> verified then throw ''backup commit verification failed''
       else andThen (dbnow env (\<lambda>t. transition BackingUp t None)) (\<lambda>_. ret (b, c))))))
      (confirmed_result app) s"
    unfolding verify_completed_def Inr bc by (simp add: wp_andThen)
  also have "\<dots>"
    by (rule wp_andThenI [OF pre(1) [OF assms]], simp,
        rule wp_andThenI [OF pre(2)], assumption, simp,
        rule wp_andThenI [OF verify_backup_commit_wp], assumption)
      (auto intro: finish)
  finally show ?thesis .
qed

lemma poll_backup_wp:
  "I s \<Longrightarrow> wp (poll_backup env app op cap started n) (confirmed_result app) s"
proof (induction n arbitrary: s)
  case (Suc n)
  have "wp (get_operation_status env op) (\<lambda>_ s'. I s') s"
    using Suc.prems by (rule keepsD [rotated]) blast
  note status = this
  have again: "wp (andThen (step env (ask (monotonic_ms env))) (\<lambda>now_mono.
        if now_mono - started \<ge> BACKUP_POLL_TIMEOUT_MS then throw ''backup operation timed out''
        else andThen (pause env BACKUP_POLL_INTERVAL_MS) (\<lambda>_.
             poll_backup env app op cap started n))) (confirmed_result app) s'"
    if "I s'" for s'
    by (rule wp_andThenI [OF keepsD [OF step_keeps [OF quiet_asks(1)] that]])
      (auto intro!: wp_andThenI [OF keepsD [OF prims_keep(3)]] Suc.IH)
  show ?case
    unfolding poll_backup.simps
    by (rule wp_andThenI [OF status]) (auto simp: again intro: verify_completed_wp)
qed (simp add: wp_def)

lemma monitor_and_verify_wp:
  "I s \<Longrightarrow> wp (monitor_and_verify env n app op cap) (confirmed_result app) s"
  unfolding monitor_and_verify_def
  by (rule wp_andThenI [OF keepsD [OF step_keeps [OF quiet_asks(1)]]])
    (auto intro: poll_backup_wp)

lemma mark_verified_wp:
  assumes "I s" and "commit_confirmed (parse_uuid env) (trace s) app b c"
  shows "wp (dbnow env (mark_app_verified rid app b c)) (\<lambda>_ s'. I s') s"
proof -
  let ?J = "\<lambda>s. I s \<and> commit_confirmed (parse_uuid env) (trace s) app b c"
  note J = with_confirmed [of app b c]
  have "keeps ?J (utc_now env)" and inter: "keeps ?J (interfere env)"
    by (rule engine_invariant.prims_keep(1) [OF J] engine_invariant.interfere_keeps [OF J])+
  from keepsD [OF this(1)] assms
  have now: "wp (utc_now env) (\<lambda>_. ?J) s" by blast
  have upd: "wp (query env (mark_app_verified rid app b c t)) (\<lambda>_ s'. I s') s'" if "?J s'" for t s'
  proof -
    have "I (s'\<lparr>db := snd (mark_app_verified rid app b c t (db s')), world := w\<rparr>)" for w
      using that app_verified by blast
    with that show ?thesis
      by (auto simp: wp_def query_def intro: world_change split: prod.splits option.splits)
  qed
  show ?thesis
    unfolding dbnow_def dbcall_def step_def
    by (rule wp_andThenI [OF now], simp, rule wp_andThenI [OF keepsD [OF inter]], assumption)
      (auto intro: upd)
qed

lemma mark_confirmed_wp:
  "confirmed_result app (Inr (b, c)) s \<Longrightarrow>
   wp (dbnow env (mark_app_verified rid app b c)) (\<lambda>_ s'. I s') s"
  by (simp add: mark_verified_wp)

lemma start_failed_keeps [intro!]: "keeps I again \<Longrightarrow> keeps I (start_failed env rid app err again)"
  unfolding start_failed_def by auto

text \<open>Monitoring followed by a continuation that may use the confirmation.\<close>

lemma monitored_keeps:
  assumes "\<And>e. keeps I (f (Inl e))"
    and "\<And>b c s. confirmed_result app (Inr (b, c)) s \<Longrightarrow> wp (f (Inr (b, c))) (\<lambda>_ s'. I s') s"
  shows "keeps I (andThen (attempt (monitor_and_verify env n app op cap)) f)"
  unfolding keeps_def
proof (intro allI impI)
  fix s assume "I s"
  then have "wp (attempt (monitor_and_verify env n app op cap))
      (\<lambda>r s'. case r of Inl e \<Rightarrow> False | Inr r' \<Rightarrow> confirmed_result app r' s') s"
    by (intro wp_attemptI [OF monitor_and_verify_wp]) auto
  then show "wp (andThen (attempt (monitor_and_verify env n app op cap)) f) (\<lambda>_ s'. I s') s"
  proof (rule wp_andThenI)
    fix r s' assume "case Inr r of Inl e \<Rightarrow> False | Inr r' \<Rightarrow> confirmed_result app r' s'"
    then show "wp (f r) (\<lambda>_ s'. I s') s'"
      using assms by (cases r) (auto intro: keepsD)
  qed simp
qed

lemma backup_attempts_keeps [intro!]: "keeps I (backup_attempts env polls rid app cap mode n)"
  by (induction n arbitrary: app)
    (auto simp: Let_def intro!: monitored_keeps mark_confirmed_wp)

lemma retry_row_keeps [intro!]: "keeps I (retry_row env rid app)"
  unfolding retry_row_def by auto

lemma resume_running_keeps [intro!]: "keeps I (resume_running env polls rid app cap)"
  unfolding resume_running_def
  by (auto intro!: monitored_keeps wp_andThenI [OF mark_confirmed_wp])

lemma backup_one_keeps [intro!]: "keeps I (backup_one env polls rid app cap)"
  unfolding backup_one_def by auto

lemma backup_all_keeps [intro!]: "keeps I (backup_all env polls rid cap apps)"
  by (induction apps) auto


lemma apply_provider_keeps:
  assumes "capability_validate cap cfg t = Inr ()"
  shows "keeps (\<lambda>s. I s \<and> run_verified rid (db s)) (apply_provider env rid cfg cap t)"
  unfolding apply_provider_def
  using assms
  by (intro engine_invariant.step_keeps [OF with_verified] keeps_andThen keeps_modify
      engine_invariant.quiet_asks(2) [OF with_verified]) (auto intro: provider_called)

lemma provider_attempts_keeps:
  "keeps (\<lambda>s. I s \<and> run_verified rid (db s)) (provider_attempts env rid cfg cap err ks)"
proof (induction ks arbitrary: err)
  case Nil
  show ?case
    unfolding provider_attempts.simps
    by (rule engine_invariant.dbcall_keeps [OF with_verified]) simp
next
  case (Cons k ks)
  note V = with_verified [of rid]
  show ?case
    unfolding provider_attempts.simps
    by (intro keeps_andThen keeps_if keeps_sum keeps_attempt keeps_basic Cons.IH
        apply_provider_keeps engine_invariant.dbnow_keeps [OF V]
        engine_invariant.dbcall_keeps [OF V] engine_invariant.prims_keep [OF V]) auto
qed

lemma all_apps_verified_wp:
  assumes "I s"
  shows "wp (dbcall env (all_apps_verified rid))
    (\<lambda>r s'. I s' \<and> (r = Inr True \<longrightarrow> run_verified rid (db s'))) s"
  unfolding dbcall_def step_def
proof (rule wp_andThenI [OF keepsD [OF interfere_keeps assms]])
  fix x s' assume s': "I s'"
  have "fst (all_apps_verified rid (db s')) = Inr (run_verified rid (db s'))"
    and "snd (all_apps_verified rid (db s')) = db s'"
    by (rule all_apps_verified_iff) (simp add: all_apps_verified_def Let_def)
  then have "all_apps_verified rid (db s') = (Inr (run_verified rid (db s')), db s')"
    by (simp add: prod_eq_iff)
  with s' show "wp (query env (all_apps_verified rid))
      (\<lambda>r s'. I s' \<and> (r = Inr True \<longrightarrow> run_verified rid (db s'))) s'"
    by (auto simp: wp_def query_def split: prod.splits option.splits
        intro: world_change quiet_change)
qed simp

lemma provider_stage_keeps:
  "keeps I (andThen (dbcall env (all_apps_verified rid)) (\<lambda>ok.
     if \<not> ok then dbcall env (fail_run (Some rid) BackupFailedSafe msg)
     else provider_attempts env rid cfg cap None ks))"
  unfolding keeps_def
proof (intro allI impI)
  fix s assume "I s"
  then show "wp (andThen (dbcall env (all_apps_verified rid)) (\<lambda>ok.
     if \<not> ok then dbcall env (fail_run (Some rid) BackupFailedSafe msg)
     else provider_attempts env rid cfg cap None ks)) (\<lambda>_ s'. I s') s"
    by (rule wp_andThenI [OF all_apps_verified_wp])
      (auto intro!: keepsD [of I] wp_mono [OF keepsD [OF provider_attempts_keeps]])
qed

lemma execute_run_keeps [intro!]: "keeps I (execute_run env polls rid cfg)"
  unfolding execute_run_def by (auto intro!: provider_stage_keeps)

end

text \<open>A property that also survives the creation of a run is kept by whole ticks.\<close>

locale agent_invariant = engine_invariant +
  assumes run_created: "I s \<Longrightarrow> create_run_with_frozen_apps rid t apps (db s) = (r, d) \<Longrightarrow>
    I (s\<lparr>db := d, world := w\<rparr>)"
begin

lemma create_run_keeps [intro!]: "keeps I (dbcall env (create_run_with_frozen_apps rid t apps))"
  unfolding dbcall_def
  by (intro step_keeps keeps_query) (auto intro: world_change run_created prod.collapse [symmetric])

lemma begin_run_keeps [intro!]: "keeps I (begin_run env polls cfg)"
  unfolding begin_run_def by auto

lemma tick_keeps: "keeps I (tick env polls)"
  unfolding tick_def evaluate_def by auto

end

section \<open>The history of a run\<close>

text \<open>
  \<open>evolves d d'\<close>: the rows of \<open>d\<close> are all still there and have advanced, and rows that were
  added belong to runs \<open>d\<close> did not know.
\<close>

definition known_run :: "string \<Rightarrow> database \<Rightarrow> bool" where
  "known_run rid d \<longleftrightarrow> rid \<in> run_id ` set (lifecycle_runs d)"

definition evolves :: "database \<Rightarrow> database \<Rightarrow> bool" where
  "evolves d d' \<longleftrightarrow>
     (\<exists>old new. backup_apps_table d' = old @ new
        \<and> list_all2 row_advances (backup_apps_table d) old
        \<and> (\<forall>r \<in> set new. \<not> known_run (ba_run_id r) d))
     \<and> (\<forall>rid. known_run rid d \<longrightarrow> known_run rid d')"

definition follows :: "'w sys \<Rightarrow> 'w sys \<Rightarrow> bool" where
  "follows s0 s \<longleftrightarrow> evolves (db s0) (db s) \<and> suffix (trace s0) (trace s)"

lemma same_runs_known: "same_runs d d' \<Longrightarrow> known_run rid d' = known_run rid d"
  by (metis (no_types) known_run_def list.set_map same_runs_def)

lemma advances_evolves: "evolves d d1 \<Longrightarrow> advances d1 d2 \<Longrightarrow> evolves d d2"
proof -
  assume "evolves d d1" and adv: "advances d1 d2"
  then obtain old new where t: "backup_apps_table d1 = old @ new"
      and old: "list_all2 row_advances (backup_apps_table d) old"
      and new: "\<forall>r \<in> set new. \<not> known_run (ba_run_id r) d"
      and runs: "\<forall>rid. known_run rid d \<longrightarrow> known_run rid d1"
    by (auto simp: evolves_def)
  from adv t obtain old' new' where t': "backup_apps_table d2 = old' @ new'"
      and o: "list_all2 row_advances old old'" and n: "list_all2 row_advances new new'"
    by (auto simp: advances_def list_all2_append1)
  have "\<not> known_run (ba_run_id r) d" if "r \<in> set new'" for r
    using that n new by (fastforce simp: list_all2_conv_all_nth in_set_conv_nth row_advances_def)
  moreover have "list_all2 row_advances (backup_apps_table d) old'"
    by (rule list_all2_trans [OF row_advances_trans old o])
  moreover have "known_run rid d2 = known_run rid d1" for rid
    using adv by (auto simp: advances_def same_runs_known)
  ultimately show ?thesis
    using t' runs by (auto simp: evolves_def)
qed

lemma create_evolves:
  assumes "evolves d d1" and "create_run_with_frozen_apps rid t apps d1 = (r, d2)"
  shows "evolves d d2"
  using create_run_table [OF assms(2)]
proof (elim disjE conjE)
  assume tab: "backup_apps_table d2 = backup_apps_table d1 @ pending_rows rid 0 apps (format_time t)"
    and fresh: "rid \<notin> run_id ` set (lifecycle_runs d1)"
    and runs: "map run_id (lifecycle_runs d2) = map run_id (lifecycle_runs d1) @ [rid]"
  have "ba_run_id x = rid" if "x \<in> set (pending_rows rid i apps n)" for x i n
    using that by (induction apps arbitrary: i) auto
  moreover have "\<not> known_run rid d"
    using assms(1) fresh by (auto simp: evolves_def known_run_def)
  ultimately have new: "\<forall>x \<in> set (pending_rows rid 0 apps (format_time t)). \<not> known_run (ba_run_id x) d"
    by simp
  have known: "known_run k d1 \<Longrightarrow> known_run k d2" for k
    using arg_cong [OF runs, of set] by (auto simp: known_run_def)
  from assms(1) obtain old more where "backup_apps_table d1 = old @ more"
      and "list_all2 row_advances (backup_apps_table d) old"
      and "\<forall>r \<in> set more. \<not> known_run (ba_run_id r) d"
    by (auto simp: evolves_def)
  with new have "backup_apps_table d2 = old @ (more @ pending_rows rid 0 apps (format_time t))
      \<and> list_all2 row_advances (backup_apps_table d) old
      \<and> (\<forall>r \<in> set (more @ pending_rows rid 0 apps (format_time t)). \<not> known_run (ba_run_id r) d)"
    using tab by auto
  then show ?thesis
    using assms(1) known unfolding evolves_def by blast
qed (use assms(1) in simp)

lemma evolves_refl [simp]: "evolves d d"
  unfolding evolves_def
  by (intro conjI exI [of _ "backup_apps_table d"] exI [of _ "[]"]) (auto simp: list_all2_refl)

lemma evolves_selection:
  assumes "evolves d d'" and "known_run rid d"
  shows "selection rid d' = selection rid d"
proof -
  from assms obtain old new where t: "backup_apps_table d' = old @ new"
      and old: "list_all2 row_advances (backup_apps_table d) old"
      and new: "\<forall>r \<in> set new. \<not> known_run (ba_run_id r) d"
    by (auto simp: evolves_def)
  have "filter (\<lambda>r. ba_run_id r = rid) new = []"
    using new assms(2) by (auto simp: filter_empty_conv)
  moreover have "map (\<lambda>r. (ba_app_id r, rank r)) (filter (\<lambda>r. ba_run_id r = rid) old)
      = selection rid d"
    using old unfolding selection_def
    by (induction rule: list_all2_induct) (auto simp: row_advances_def)
  ultimately show ?thesis by (simp add: selection_def t)
qed

lemma evolves_verified:
  assumes "evolves d d'" and "known_run rid d" and "run_verified rid d"
  shows "run_verified rid d'"
proof -
  from assms obtain old new where t: "backup_apps_table d' = old @ new"
      and old: "list_all2 row_advances (backup_apps_table d) old"
      and new: "\<forall>r \<in> set new. \<not> known_run (ba_run_id r) d"
    by (auto simp: evolves_def)
  let ?d = "d\<lparr>backup_apps_table := old\<rparr>"
  have "advances d ?d"
    using old by (simp add: advances_def same_runs_def)
  then have "run_verified rid ?d"
    using assms(3) by (rule advances_run_verified)
  with new assms(2) show ?thesis
    by (auto simp: run_verified_def t list_all_iff)
qed

interpretation history: agent_invariant env "follows s0"
  by unfold_locales
    (auto simp: follows_def suffix_Cons
      intro: advances_evolves quiet_advances op_verified.advances_op create_evolves)

section \<open>The safety invariant\<close>

definition row_confirmed ::
  "(string \<Rightarrow> string option) \<Rightarrow> effect list \<Rightarrow> backup_app \<Rightarrow> bool" where
  "row_confirmed uuid tr r \<longleftrightarrow> (\<exists>b c. bundle_id r = Some b \<and> commit_id r = Some c
     \<and> commit_confirmed uuid tr (ba_app_id r) b c)"

fun effect_safe :: "(string \<Rightarrow> string option) \<Rightarrow> effect list \<Rightarrow> effect \<Rightarrow> bool" where
  "effect_safe uuid tr (RpcCall m p r) = True"
| "effect_safe uuid tr (ProviderApplied rid req t cap cfg d) =
     (run_verified rid d
      \<and> (\<forall>r \<in> set (backup_apps_table d). ba_run_id r = rid \<longrightarrow> row_confirmed uuid tr r)
      \<and> capability_validate cap cfg t = Inr () \<and> req = provider_request_for cfg cap)"

fun trace_safe :: "(string \<Rightarrow> string option) \<Rightarrow> effect list \<Rightarrow> bool" where
  "trace_safe uuid [] = True"
| "trace_safe uuid (e # tr) = (effect_safe uuid tr e \<and> trace_safe uuid tr)"

definition row_safe :: "(string \<Rightarrow> string option) \<Rightarrow> effect list \<Rightarrow> database \<Rightarrow> backup_app \<Rightarrow> bool" where
  "row_safe uuid tr d r \<longleftrightarrow>
     known_run (ba_run_id r) d \<and> attempts r \<le> BACKUP_MAX_ATTEMPTS
     \<and> (status r = ''VERIFIED'' \<longrightarrow> row_confirmed uuid tr r)"

definition safe :: "'w env \<Rightarrow> 'w sys \<Rightarrow> bool" where
  "safe env s \<longleftrightarrow> trace_safe (parse_uuid env) (trace s)
     \<and> (\<forall>r \<in> set (backup_apps_table (db s)). row_safe (parse_uuid env) (trace s) (db s) r)"

lemma trace_safe_split:
  "trace_safe uuid (later @ e # earlier) \<Longrightarrow> effect_safe uuid earlier e"
  by (induction later) auto

lemma row_confirmed_mono:
  "row_confirmed uuid tr r \<Longrightarrow> set tr \<subseteq> set tr' \<Longrightarrow> row_confirmed uuid tr' r"
  by (auto simp: row_confirmed_def intro: commit_confirmed_mono)

lemma row_safe_mono: "row_safe uuid tr d r \<Longrightarrow> set tr \<subseteq> set tr' \<Longrightarrow> row_safe uuid tr' d r"
  by (auto simp: row_safe_def intro: row_confirmed_mono)

lemma quiet_row_safe:
  assumes "quiet d d'" and "\<forall>r \<in> set (backup_apps_table d). row_safe uuid tr d r"
  shows "\<forall>r \<in> set (backup_apps_table d'). row_safe uuid tr d' r"
proof
  fix r' assume "r' \<in> set (backup_apps_table d')"
  with assms(1) obtain r where r: "r \<in> set (backup_apps_table d)" and q: "row_quiet r r'"
    by (auto simp: quiet_def list_all2_conv_all_nth in_set_conv_nth) metis
  have "known_run (ba_run_id r') d' = known_run (ba_run_id r') d"
    using assms(1) by (simp add: quiet_def same_runs_known)
  with q assms(2) r show "row_safe uuid tr d' r'"
    unfolding row_safe_def row_quiet_def row_advances_def BACKUP_MAX_ATTEMPTS_def by metis
qed

lemma verified_row_safe:
  assumes "\<forall>r \<in> set (backup_apps_table d). row_safe uuid tr d r"
    and "commit_confirmed uuid tr app b c"
  shows "\<forall>r \<in> set (backup_apps_table (snd (mark_app_verified rid app b c t d))).
    row_safe uuid tr (snd (mark_app_verified rid app b c t d)) r"
  using assms
  by (auto simp: mark_app_verified_def update_app_def row_safe_def known_run_def row_confirmed_def)

lemma created_row_safe:
  assumes "create_run_with_frozen_apps rid t apps d = (r, d')"
    and "\<forall>r \<in> set (backup_apps_table d). row_safe uuid tr d r"
  shows "\<forall>r \<in> set (backup_apps_table d'). row_safe uuid tr d' r"
  using create_run_table [OF assms(1)]
proof (elim disjE conjE)
  assume tab: "backup_apps_table d' = backup_apps_table d @ pending_rows rid 0 apps (format_time t)"
    and runs: "map run_id (lifecycle_runs d') = map run_id (lifecycle_runs d) @ [rid]"
  have new: "ba_run_id x = rid \<and> status x = ''PENDING'' \<and> attempts x = 0"
    if "x \<in> set (pending_rows rid i apps n)" for x i n
    using that by (induction apps arbitrary: i) auto
  have "known_run k d' \<longleftrightarrow> known_run k d \<or> k = rid" for k
    using arg_cong [OF runs, of set] by (auto simp: known_run_def)
  with new assms(2) show ?thesis
    unfolding tab row_safe_def by auto
qed (use assms(2) in simp)

interpretation safety: agent_invariant env "safe env"
proof unfold_locales
  fix s s' :: "'a sys"
  assume "safe env s" "quiet (db s) (db s')" "trace s' = trace s"
  then show "safe env s'"
    using quiet_row_safe by (auto simp: safe_def)
next
  fix s :: "'a sys" and m p r
  assume "safe env s"
  then show "safe env (s\<lparr>trace := RpcCall m p r # trace s\<rparr>)"
    by (auto simp: safe_def intro: row_safe_mono)
next
  fix s :: "'a sys" and app b c rid t w
  assume "safe env s" "commit_confirmed (parse_uuid env) (trace s) app b c"
  then show "safe env (s\<lparr>db := snd (mark_app_verified rid app b c t (db s)), world := w\<rparr>)"
    using verified_row_safe by (auto simp: safe_def)
next
  fix s :: "'a sys" and rid cap cfg t
  assume "safe env s" "run_verified rid (db s)" "capability_validate cap cfg t = Inr ()"
  then show "safe env (s\<lparr>trace :=
      ProviderApplied rid (provider_request_for cfg cap) t cap cfg (db s) # trace s\<rparr>)"
    by (auto simp: safe_def run_verified_def list_all_iff row_safe_def
        intro: row_confirmed_mono)
next
  fix s :: "'a sys" and rid t apps r d w
  assume "safe env s" "create_run_with_frozen_apps rid t apps (db s) = (r, d)"
  then show "safe env (s\<lparr>db := d, world := w\<rparr>)"
    using created_row_safe by (auto simp: safe_def)
qed

section \<open>Reachable states\<close>

text \<open>
  The states of the agent over any number of ticks, requests and restarts. The database
  may fail at any call; a tick all of whose database calls fail from some point on leaves
  the database as a crash at that point would.
\<close>

inductive reachable :: "'w env \<Rightarrow> 'w sys \<Rightarrow> bool" for env where
  boot: "db s0 = migrated_database \<Longrightarrow> trace s0 = [] \<Longrightarrow> agent_start env s0 = Some (r, s) \<Longrightarrow>
    reachable env s"
| tick: "reachable env s \<Longrightarrow> tick env polls s = Some (r, s') \<Longrightarrow> reachable env s'"
| request: "reachable env s \<Longrightarrow> serve env a s = Some (r, s') \<Longrightarrow> reachable env s'"
| status: "reachable env s \<Longrightarrow> agent_status_of env s = Some (st, s') \<Longrightarrow> reachable env s'"
| restart: "reachable env s \<Longrightarrow> agent_start env s = Some (r, s') \<Longrightarrow> reachable env s'"

lemma reachable_safe: "reachable env s \<Longrightarrow> safe env s"
proof (induction rule: reachable.induct)
  case (boot s0 r s)
  then have "safe env s0"
    by (simp add: safe_def migrated_database_def)
  then show ?case
    using boot.hyps(3) by (rule keeps_run [OF safety.agent_start_keeps])
qed (blast intro: keeps_run [OF safety.tick_keeps] keeps_run [OF safety.serve_keeps]
    keeps_run [OF safety.status_keeps] keeps_run [OF safety.agent_start_keeps])+

text \<open>One transition of the agent, and any number of them.\<close>

inductive agent_step :: "'w env \<Rightarrow> 'w sys \<Rightarrow> 'w sys \<Rightarrow> bool" for env where
  ticks: "tick env polls s = Some (r, s') \<Longrightarrow> agent_step env s s'"
| serves: "serve env a s = Some (r, s') \<Longrightarrow> agent_step env s s'"
| reports: "agent_status_of env s = Some (st, s') \<Longrightarrow> agent_step env s s'"
| restarts: "agent_start env s = Some (r, s') \<Longrightarrow> agent_step env s s'"

lemma agent_steps_follow: "(agent_step env)\<^sup>*\<^sup>* s0 s \<Longrightarrow> follows s0 s"
proof (induction rule: rtranclp_induct)
  case base
  show ?case by (simp add: follows_def)
next
  case (step s s')
  from step.hyps(2) step.IH show ?case
    by cases
      (blast intro: keeps_run [OF history.tick_keeps] keeps_run [OF history.serve_keeps]
        keeps_run [OF history.status_keeps] keeps_run [OF history.agent_start_keeps])+
qed

end
