(* ===== verification/Lifecycle_Progress.thy ===== *)
theory Lifecycle_Progress
  imports Lifecycle_Safety
begin

text \<open>
  Progress of the lifecycle engine: an evaluation ends when the clock keeps running (the
  poll bound of \<open>poll_backup\<close> is enough), and an evaluation that ends without an error
  leaves no run half-way.
\<close>

section \<open>Ending\<close>

text \<open>
  What is relied on of the clock: \<open>clk\<close> is what the monotonic clock reads, nothing turns it
  back and a sleep lasts at least as long as asked.
\<close>

definition clock_laws :: "'w env \<Rightarrow> ('w \<Rightarrow> nat) \<Rightarrow> bool" where
  "clock_laws env clk \<longleftrightarrow>
     (\<forall>w. fst (monotonic_ms env w) = clk w) \<and> (\<forall>w. clk w \<le> clk (snd (monotonic_ms env w)))
     \<and> (\<forall>ms w. clk w + ms \<le> clk (sleep_ms env ms w))
     \<and> (\<forall>w. clk w \<le> clk (snd (now_utc env w))) \<and> (\<forall>w. clk w \<le> clk (snd (new_v4 env w)))
     \<and> (\<forall>w. clk w \<le> clk (snd (db_fault env w))) \<and> (\<forall>w. clk w \<le> clk (snd (read_config env w)))
     \<and> (\<forall>q w. clk w \<le> clk (snd (rpc env q w))) \<and> (\<forall>w. clk w \<le> clk (snd (interleaved env w)))"

abbreviation not_before :: "('w \<Rightarrow> nat) \<Rightarrow> nat \<Rightarrow> 'w sys \<Rightarrow> bool" where
  "not_before clk t s \<equiv> t \<le> clk (world s)"

lemma time_ask:
  "(\<And>w. clk w \<le> clk (snd (f w))) \<Longrightarrow> keeps (not_before clk t) (ask f)"
  unfolding ask_def by (rule keepsI) (auto split: prod.splits, metis le_trans snd_conv)

lemma time_modify [intro!]:
  "(\<And>s. world (g s) = world s) \<Longrightarrow> keeps (not_before clk t) (modify g)"
  by (rule keeps_modify) simp

lemma time_query: "clock_laws env clk \<Longrightarrow> keeps (not_before clk t) (query env op)"
  unfolding query_def clock_laws_def
  by (rule keepsI) (auto split: prod.splits option.splits, (metis le_trans snd_conv)+)

lemma time_serve: "clock_laws env clk \<Longrightarrow> keeps (not_before clk t) (serve env a)"
  by (cases a)
    (auto simp: record_activity_def controller_drift_def reload_config_def
      reset_for_monitoring_def Let_def clock_laws_def intro!: time_ask time_query)

lemma time_interfere: "clock_laws env clk \<Longrightarrow> keeps (not_before clk t) (interfere env)"
  unfolding interfere_def
  by (intro keeps_andThen keeps_for_each time_serve time_ask) (auto simp: clock_laws_def)

lemma time_step: "clock_laws env clk \<Longrightarrow> keeps (not_before clk t) m \<Longrightarrow> keeps (not_before clk t) (step env m)"
  unfolding step_def by (intro keeps_andThen time_interfere) auto

lemma time_call: "clock_laws env clk \<Longrightarrow> keeps (not_before clk t) (call env m p)"
  unfolding call_def Let_def
  by (intro time_step keeps_andThen time_ask time_modify keeps_basic) (auto simp: clock_laws_def)

lemma time_status: "clock_laws env clk \<Longrightarrow> keeps (not_before clk t) (get_operation_status env op)"
  unfolding get_operation_status_def by (auto intro: time_call)

lemma ends_cases [intro!]:
  "(c \<Longrightarrow> ends m) \<Longrightarrow> (\<not> c \<Longrightarrow> ends n) \<Longrightarrow> ends (if c then m else n)"
  "(x = None \<Longrightarrow> ends m) \<Longrightarrow> (\<And>y. x = Some y \<Longrightarrow> ends (f y)) \<Longrightarrow>
     ends (case x of None \<Rightarrow> m | Some y \<Rightarrow> f y)"
  "(\<And>e. z = Inl e \<Longrightarrow> ends (h e)) \<Longrightarrow> (\<And>y. z = Inr y \<Longrightarrow> ends (k y)) \<Longrightarrow>
     ends (case z of Inl e \<Rightarrow> h e | Inr y \<Rightarrow> k y)"
  "(\<And>a b. q = (a, b) \<Longrightarrow> ends (l a b)) \<Longrightarrow> ends (case q of (a, b) \<Rightarrow> l a b)"
  by (auto split: option.split sum.split prod.split)

lemma ends_serve [intro!]: "ends (serve env a)"
  by (cases a)
    (auto simp: record_activity_def controller_drift_def reload_config_def
      reset_for_monitoring_def Let_def)

lemma ends_interfere [intro!]: "ends (interfere env)"
  unfolding interfere_def by auto

lemma ends_step [intro!]: "ends m \<Longrightarrow> ends (step env m)"
  unfolding step_def by auto

lemma ends_engine_prims [intro!, simp]:
  "ends (utc_now env)" "ends (dbcall env op)" "ends (dbnow env op')" "ends (fresh_uuid env)"
  "ends (pause env ms)" "ends (call env m p)"
  unfolding utc_now_def dbcall_def dbnow_def fresh_uuid_def pause_def call_def Let_def by auto

lemma ends_client [intro!]:
  "ends (get_active_app_sessions env)" "ends (list_backup_candidate_app_ids env)"
  "ends (resolve_process_to_app env pid)" "ends (has_complete_baseline env app ses key)"
  "ends (start_backup env app mode op ses key)" "ends (get_operation_status env op)"
  "ends (verify_backup_commit env app b c ses key)" "ends (verify_completed env app cap st)"
  unfolding get_active_app_sessions_def list_backup_candidate_app_ids_def
    resolve_process_to_app_def has_complete_baseline_def start_backup_def
    get_operation_status_def verify_backup_commit_def verify_completed_def Let_def
  by auto

lemma andThen_ends_from:
  assumes "wp m (\<lambda>r s'. \<forall>x. r = Inr x \<longrightarrow> f x s' \<noteq> None) s" and "m s \<noteq> None"
  shows "andThen m f s \<noteq> None"
  using assms by (auto simp: wp_def andThen_def split: option.splits sum.splits)

lemma mono_reading:
  assumes laws: "clock_laws env clk" and "t \<le> clk (world s)"
  shows "wp (step env (ask (monotonic_ms env)))
    (\<lambda>r s'. \<forall>now. r = Inr now \<longrightarrow> t \<le> now \<and> now \<le> clk (world s')) s"
  unfolding step_def
proof (rule wp_andThenI [OF keepsD [OF time_interfere [OF laws], of t, OF assms(2)]])
  fix x s' assume s': "not_before clk t s'"
  obtain n w where r: "monotonic_ms env (world s') = (n, w)" by fastforce
  then have "n = clk (world s')" and "clk (world s') \<le> clk w"
    using laws unfolding clock_laws_def by (metis fst_conv, metis snd_conv)
  with s' r show "wp (ask (monotonic_ms env))
      (\<lambda>r s'. \<forall>now. r = Inr now \<longrightarrow> t \<le> now \<and> now \<le> clk (world s')) s'"
    by (simp add: wp_def ask_def)
qed auto

lemma pause_advances:
  assumes laws: "clock_laws env clk" and "t \<le> clk (world s)"
  shows "wp (pause env ms) (\<lambda>r s'. \<forall>x. r = Inr x \<longrightarrow> t + ms \<le> clk (world s')) s"
  unfolding pause_def step_def
proof (rule wp_andThenI [OF keepsD [OF time_interfere [OF laws], of t, OF assms(2)]])
  fix x s' assume s': "not_before clk t s'"
  have "clk (world s') + ms \<le> clk (sleep_ms env ms (world s'))"
    using laws by (simp add: clock_laws_def)
  with s' show "wp (ask (\<lambda>w. ((), sleep_ms env ms w)))
      (\<lambda>r s'. \<forall>x. r = Inr x \<longrightarrow> t + ms \<le> clk (world s')) s'"
    by (simp add: wp_def ask_def)
qed auto

lemma poll_backup_ends:
  fixes env :: "'w env"
  assumes laws: "clock_laws env clk"
  shows "started + BACKUP_POLL_TIMEOUT_MS + BACKUP_POLL_INTERVAL_MS
      \<le> clk (world s) + BACKUP_POLL_INTERVAL_MS * polls \<Longrightarrow>
    0 < polls \<Longrightarrow> poll_backup env app op cap started polls s \<noteq> None"
proof (induction polls arbitrary: s)
  case (Suc n)
  let ?next = "\<lambda>now_mono. if now_mono - started \<ge> BACKUP_POLL_TIMEOUT_MS
      then throw ''backup operation timed out''
      else andThen (pause env BACKUP_POLL_INTERVAL_MS) (\<lambda>_.
           poll_backup env app op cap started n)"
  have wait: "andThen (step env (ask (monotonic_ms env))) ?next s' \<noteq> None"
    if s': "clk (world s) \<le> clk (world s')" for s'
  proof (rule andThen_ends_from [OF wp_mono [OF mono_reading [OF laws s']]], intro allI impI)
    fix r and s1 :: "'w sys" and now
    assume "\<forall>now. r = Inr now \<longrightarrow> clk (world s) \<le> now \<and> now \<le> clk (world s1)" and "r = Inr now"
    then have now: "clk (world s) \<le> now" and s1: "now \<le> clk (world s1)" by auto
    show "?next now s1 \<noteq> None"
    proof (cases "now - started \<ge> BACKUP_POLL_TIMEOUT_MS")
      case True
      then show ?thesis by (simp add: throw_def)
    next
      case False
      with now Suc.prems have "0 < n"
        by (cases n) auto
      have again: "poll_backup env app op cap started n s2 \<noteq> None"
        if "now + BACKUP_POLL_INTERVAL_MS \<le> clk (world s2)" for s2
        using that Suc.prems(1) now \<open>0 < n\<close> by (intro Suc.IH) auto
      have "andThen (pause env BACKUP_POLL_INTERVAL_MS) (\<lambda>_.
          poll_backup env app op cap started n) s1 \<noteq> None"
        by (intro andThen_ends_from [OF wp_mono [OF pause_advances [OF laws s1]]])
          (use again in \<open>auto simp: ends_engine_prims [unfolded ends_def]\<close>)
      with False show ?thesis by simp
    qed
  qed (rule ends_step [OF ends_prims(1), unfolded ends_def, rule_format])
  show ?case
    unfolding poll_backup.simps
    by (rule andThen_ends_from [OF wp_mono [OF keepsD [OF time_status [OF laws] order_refl]]])
      (use wait in \<open>auto simp: throw_def ends_client [unfolded ends_def] simp del: not_None_eq\<close>)
qed simp

definition enough_polls :: nat where
  "enough_polls = BACKUP_POLL_TIMEOUT_MS div BACKUP_POLL_INTERVAL_MS + 1"

lemma monitor_ends:
  fixes env :: "'w env"
  assumes laws: "clock_laws env clk" and polls: "enough_polls \<le> polls"
  shows "ends (monitor_and_verify env polls app op cap)"
  unfolding ends_def monitor_and_verify_def
proof (intro allI andThen_ends_from [OF wp_mono [OF mono_reading [OF laws order_refl]]] impI)
  fix s s' :: "'w sys" and r started
  assume "\<forall>now. r = Inr now \<longrightarrow> clk (world s) \<le> now \<and> now \<le> clk (world s')" and "r = Inr started"
  then have "started \<le> clk (world s')" by simp
  with polls show "poll_backup env app op cap started polls s' \<noteq> None"
    by (intro poll_backup_ends [OF laws])
      (auto simp: enough_polls_def BACKUP_POLL_TIMEOUT_MS_def BACKUP_POLL_INTERVAL_MS_def)
qed (rule ends_step [OF ends_prims(1), unfolded ends_def, rule_format])

lemma start_failed_ends [intro!]: "ends again \<Longrightarrow> ends (start_failed env rid app err again)"
  unfolding start_failed_def by auto

lemma backup_ends:
  assumes "\<And>app op cap. ends (monitor_and_verify env polls app op cap)"
  shows "ends (backup_attempts env polls rid app cap mode n)"
    and "ends (backup_one env polls rid app' cap)"
    and "ends (backup_all env polls rid cap apps)"
proof -
  show a: "ends (backup_attempts env polls rid app cap mode n)" for app mode n
    by (induction n arbitrary: app) (auto simp: Let_def intro!: assms)
  show b: "ends (backup_one env polls rid app' cap)" for app'
    unfolding backup_one_def resume_running_def retry_row_def by (auto intro!: a assms)
  show "ends (backup_all env polls rid cap apps)"
    by (induction apps) (auto intro!: b)
qed

lemma provider_attempts_end: "ends (provider_attempts env rid cfg cap err ks)"
  by (induction ks arbitrary: err) (auto simp: apply_provider_def)

lemma execute_run_ends:
  assumes "\<And>app op cap. ends (monitor_and_verify env polls app op cap)"
  shows "ends (execute_run env polls rid cfg)"
  unfolding execute_run_def load_capability_def
  by (auto intro!: backup_ends [OF assms] provider_attempts_end)

lemma usage_ends: "ends (update_usage env)" "ends (validated_ranked_apps env n)"
  unfolding update_usage_def record_session_def validated_ranked_apps_def
    eligible_ranked_apps_def Let_def
  by auto

lemma tick_ends:
  assumes "\<And>app op cap. ends (monitor_and_verify env polls app op cap)"
  shows "ends (tick env polls)"
  unfolding tick_def evaluate_def begin_run_def latch_timeout_if_elapsed_def latch_timeout_def
  by (auto intro!: execute_run_ends [OF assms] usage_ends)

section \<open>Settling\<close>

text \<open>
  \<open>settled\<close>: the persisted state is none of the active ones. \<open>in_run rid\<close>: it is active and
  belongs to the run \<open>rid\<close>. The requests other tasks serve keep both.
\<close>

definition row_settled :: "state_row \<Rightarrow> bool" where
  "row_settled row \<longleftrightarrow> (\<exists>st. ls_state row = state_as_str st \<and> \<not> run_is_active st)"

definition row_in_run :: "string \<Rightarrow> state_row \<Rightarrow> bool" where
  "row_in_run rid row \<longleftrightarrow> active_run_id row = Some rid
     \<and> (\<exists>st. ls_state row = state_as_str st \<and> run_is_active st)"

definition settled :: "'w sys \<Rightarrow> bool" where
  "settled s \<longleftrightarrow> row_settled (lifecycle_state (db s))"

locale row_invariant =
  fixes P :: "state_row \<Rightarrow> bool"
  assumes initialized: "P (lifecycle_state d) \<Longrightarrow>
      P (lifecycle_state (snd (initialize_monitoring en t d)))"
    and rearmed: "P (lifecycle_state d) \<Longrightarrow> P (lifecycle_state (snd (reset_terminal_failure t d)))"
    and active: "P (lifecycle_state d) \<Longrightarrow> P (lifecycle_state (snd (record_accepted_activity t d)))"
begin

abbreviation (input) holds :: "'w sys \<Rightarrow> bool" where
  "holds s \<equiv> P (lifecycle_state (db s))"

lemma row_query:
  "(\<And>d. P (lifecycle_state d) \<Longrightarrow> P (lifecycle_state (snd (op d)))) \<Longrightarrow> keeps holds (query env op)"
  by (rule keeps_query) auto

lemma row_ask [intro!, simp]: "keeps holds (ask f)" "keeps holds (ask_res g)"
  by (rule conjunct1 [OF keeps_ask] conjunct2 [OF keeps_ask]; simp)+

lemma row_modify [intro!]: "(\<And>s. db (g s) = db s) \<Longrightarrow> keeps holds (modify g)"
  by (rule keeps_modify) simp

lemma row_serve [intro!]: "keeps holds (serve env a)"
  by (cases a)
    (auto simp: record_activity_def controller_drift_def reload_config_def
      reset_for_monitoring_def Let_def snapshot_def
      intro!: row_query initialized rearmed active)

lemma row_step [intro!]: "keeps holds m \<Longrightarrow> keeps holds (step env m)"
  unfolding step_def interfere_def by auto

lemma row_dbcall:
  "(\<And>d. P (lifecycle_state d) \<Longrightarrow> P (lifecycle_state (snd (op d)))) \<Longrightarrow> keeps holds (dbcall env op)"
  unfolding dbcall_def by (intro row_step row_query)

lemma row_prims [intro!, simp]:
  "keeps holds (utc_now env)" "keeps holds (fresh_uuid env)" "keeps holds (pause env ms)"
  "keeps holds (call env m p)"
  unfolding utc_now_def fresh_uuid_def pause_def call_def Let_def by auto

lemma row_dbnow:
  "(\<And>t d. P (lifecycle_state d) \<Longrightarrow> P (lifecycle_state (snd (op t d)))) \<Longrightarrow> keeps holds (dbnow env op)"
  unfolding dbnow_def by (intro keeps_andThen row_prims row_dbcall)

lemma row_dbcall_same [intro!]:
  "(\<And>d. lifecycle_state (snd (op d)) = lifecycle_state d) \<Longrightarrow> keeps holds (dbcall env op)"
  by (rule row_dbcall) simp

lemma row_dbnow_same [intro!]:
  "(\<And>t d. lifecycle_state (snd (op t d)) = lifecycle_state d) \<Longrightarrow> keeps holds (dbnow env op)"
  by (rule row_dbnow) simp

lemma row_client [intro!]:
  "keeps holds (get_active_app_sessions env)" "keeps holds (list_backup_candidate_app_ids env)"
  "keeps holds (resolve_process_to_app env pid)"
  "keeps holds (has_complete_baseline env app ses key)"
  "keeps holds (start_backup env app mode op ses key)" "keeps holds (get_operation_status env op)"
  "keeps holds (verify_backup_commit env app b c ses key)"
  unfolding get_active_app_sessions_def list_backup_candidate_app_ids_def
    resolve_process_to_app_def has_complete_baseline_def start_backup_def
    get_operation_status_def verify_backup_commit_def Let_def
  by auto

lemma row_latch [intro!]: "keeps holds (latch_timeout_if_elapsed env t)"
  unfolding latch_timeout_if_elapsed_def latch_timeout_def by auto

lemma row_load_capability [intro!]: "keeps holds (load_capability env cfg)"
  unfolding load_capability_def by auto

end

lemma rows_untouched [simp]:
  "lifecycle_state (snd (snapshot d)) = lifecycle_state d"
  "lifecycle_state (snd (backup_apps rid d)) = lifecycle_state d"
  "lifecycle_state (snd (all_apps_verified rid d)) = lifecycle_state d"
  "lifecycle_state (snd (mark_app_running rid app op t d)) = lifecycle_state d"
  "lifecycle_state (snd (record_start_failure rid app err t d)) = lifecycle_state d"
  "lifecycle_state (snd (mark_app_pending_retry rid app err t d)) = lifecycle_state d"
  "lifecycle_state (snd (mark_app_failed rid app err t d)) = lifecycle_state d"
  "lifecycle_state (snd (mark_app_verified rid app b c t d)) = lifecycle_state d"
  by (simp_all add: db_op_defs update_app_def Let_def)

text \<open>A property of the state row that the steps of a run itself also keep.\<close>

locale run_row_invariant = row_invariant +
  assumes moved: "run_is_active st \<Longrightarrow> P (lifecycle_state d) \<Longrightarrow>
      P (lifecycle_state (snd (transition st t err d)))"
    and shutting_down: "P (lifecycle_state d) \<Longrightarrow>
      P (lifecycle_state (snd (mark_shutdown_started rid t d)))"
begin

lemma row_transition [intro!]:
  "run_is_active st \<Longrightarrow> keeps holds (dbnow env (\<lambda>t. transition st t err))"
  by (rule row_dbnow) (rule moved)

lemma row_monitor [intro!]: "keeps holds (monitor_and_verify env polls app op cap)"
proof -
  have "keeps holds (poll_backup env app op cap started n)" for started n
  proof (induction n)
    case 0
    show ?case by (simp add: keeps_def wp_def)
  next
    case (Suc n)
    then show ?case by (auto simp: verify_completed_def)
  qed
  then show ?thesis unfolding monitor_and_verify_def by auto
qed

lemma row_backup_attempts [intro!]: "keeps holds (backup_attempts env polls rid app cap mode n)"
  by (induction n arbitrary: app) (auto simp: Let_def start_failed_def)

lemma row_backup_one [intro!]: "keeps holds (backup_one env polls rid app cap)"
  unfolding backup_one_def resume_running_def retry_row_def by auto

end

lemma state_literals [simp]:
  "''BACKUP_FAILED_SAFE'' = state_as_str st \<longleftrightarrow> st = BackupFailedSafe"
  "''SHUTDOWN_FAILED_SAFE'' = state_as_str st \<longleftrightarrow> st = ShutdownFailedSafe"
  "''SHUTTING_DOWN'' = state_as_str st \<longleftrightarrow> st = ShuttingDown"
  "''MONITORING/IDLE'' = state_as_str st \<longleftrightarrow> st = MonitoringIdle"
  "''DISABLED'' = state_as_str st \<longleftrightarrow> st = Disabled"
  "''BACKING_UP'' = state_as_str st \<longleftrightarrow> st = BackingUp"
  "''COMPLETED'' = state_as_str st \<longleftrightarrow> st = Completed"
  by (cases st; simp)+

interpretation settled_row: row_invariant row_settled
  by unfold_locales
    (auto simp: row_settled_def initialize_monitoring_def reset_terminal_failure_def
      record_accepted_activity_def Let_def split: sum.splits)

interpretation run_row: run_row_invariant "row_in_run rid"
  by unfold_locales
    (auto simp: row_in_run_def initialize_monitoring_def reset_terminal_failure_def
      record_accepted_activity_def transition_def mark_shutdown_started_def Let_def
      split: sum.splits)

text \<open>Ends of a run: a computation that succeeds leaves a settled state.\<close>

definition settles :: "(agent_error, 'a) result \<Rightarrow> 'w sys \<Rightarrow> bool" where
  "settles r s \<longleftrightarrow> (case r of Inl _ \<Rightarrow> True | Inr _ \<Rightarrow> settled s)"

lemma settles_simps [simp]: "settles (Inl e) s" "settles (Inr x) s = settled s"
  by (simp_all add: settles_def)

lemma dbcall_settles:
  assumes "\<And>d. row_settled (lifecycle_state (snd (op d)))"
  shows "wp (dbcall env op) settles s"
  unfolding dbcall_def step_def
  by (rule wp_andThenI [of _ "\<lambda>_ _. True"])
    (use assms in \<open>auto simp: wp_def query_def settles_def settled_def
      split: option.splits prod.splits sum.splits, (metis snd_conv)+\<close>)

lemma fail_settles: "st \<in> {BackupFailedSafe, ShutdownFailedSafe} \<Longrightarrow>
    row_settled (lifecycle_state (snd (fail_run rid st err d)))"
  by (auto simp: row_settled_def fail_run_def)

lemma fail_run_settles:
  "st \<in> {BackupFailedSafe, ShutdownFailedSafe} \<Longrightarrow>
   wp (dbcall env (fail_run rid st err)) settles s"
  by (intro dbcall_settles fail_settles)

lemma complete_run_settles:
  assumes "row_in_run rid (lifecycle_state (db s))"
  shows "wp (dbnow env (complete_run rid)) settles s"
proof -
  have fin: "wp (query env (complete_run rid t)) settles s'"
    if "row_in_run rid (lifecycle_state (db s'))" for t and s' :: "'a sys"
    using that
    by (auto simp: wp_def query_def complete_run_def settles_def settled_def row_in_run_def row_settled_def
        Let_def split: option.splits prod.splits)
  have int: "keeps (\<lambda>s :: 'a sys. row_in_run rid (lifecycle_state (db s))) (interfere env)"
    unfolding interfere_def by auto
  show ?thesis
    unfolding dbnow_def dbcall_def step_def
    by (rule wp_andThenI [OF keepsD [OF run_row.row_prims(1)]], rule assms, simp,
        rule wp_andThenI [OF keepsD [OF int]], assumption)
      (auto intro: fin)
qed

definition goes_on :: "string \<Rightarrow> (agent_error, bool) result \<Rightarrow> 'w sys \<Rightarrow> bool" where
  "goes_on rid r s \<longleftrightarrow> (case r of Inl _ \<Rightarrow> True
     | Inr go \<Rightarrow> if go then row_in_run rid (lifecycle_state (db s)) else settled s)"

lemma goes_on_simps [simp]:
  "goes_on rid (Inl e) s"
  "goes_on rid (Inr True) s = row_in_run rid (lifecycle_state (db s))"
  "goes_on rid (Inr False) s = settled s"
  by (simp_all add: goes_on_def)

lemma backup_all_settles:
  "row_in_run rid (lifecycle_state (db s)) \<Longrightarrow>
   wp (backup_all env polls rid cap apps) (goes_on rid) s"
proof (induction apps arbitrary: s)
  case (Cons app apps)
  have failed: "wp (andThen (dbcall env (fail_run (Some rid) BackupFailedSafe err)) (\<lambda>_. ret False))
      (goes_on rid) s'" for err and s' :: "'a sys"
    by (rule wp_andThenI [OF fail_run_settles]) auto
  have one: "keeps (\<lambda>s. row_in_run rid (lifecycle_state (db s)))
      (attempt (backup_one env polls rid app cap))"
    by auto
  have "wp (andThen (attempt (backup_one env polls rid app cap)) (\<lambda>result. case result of
             Inl err \<Rightarrow> andThen (dbcall env (fail_run (Some rid) BackupFailedSafe err)) (\<lambda>_. ret False)
           | Inr _ \<Rightarrow> backup_all env polls rid cap apps)) (goes_on rid) s"
    by (rule wp_andThenI [OF keepsD [OF one Cons.prems]])
      (auto intro: failed Cons.IH split: sum.split)
  then show ?case
    by (simp add: Cons.IH [OF Cons.prems])
qed simp

lemma provider_attempts_settles:
  "row_in_run rid (lifecycle_state (db s)) \<Longrightarrow>
   wp (provider_attempts env rid cfg cap err ks) settles s"
proof (induction ks arbitrary: err s)
  case Nil
  show ?case by (simp add: fail_run_settles)
next
  case (Cons k ks)
  let ?I = "\<lambda>s :: 'a sys. row_in_run rid (lifecycle_state (db s))"
  let ?round = "\<lambda>t. case capability_validate cap cfg t of
       Inl err \<Rightarrow> dbcall env (fail_run (Some rid) ShutdownFailedSafe err)
     | Inr _ \<Rightarrow>
         andThen (dbnow env (mark_shutdown_started rid)) (\<lambda>_.
         andThen (attempt (apply_provider env rid cfg cap t)) (\<lambda>result.
         case result of
           Inr _ \<Rightarrow> dbnow env (complete_run rid)
         | Inl err \<Rightarrow> provider_attempts env rid cfg cap (Some err) ks))"
  have wait: "keeps ?I (if k > 0
        then andThen (dbnow env (\<lambda>t. transition ShutdownRetryWait t err)) (\<lambda>_.
             pause env (BACKOFFS ! (k - 1)))
        else ret ())"
    by auto
  have mark: "keeps ?I (dbnow env (mark_shutdown_started rid))"
    by (rule run_row.row_dbnow) (rule run_row.shutting_down)
  have call: "keeps ?I (attempt (apply_provider env rid cfg cap t))" for t
    unfolding apply_provider_def by auto
  have round: "wp (?round t) settles s'" if "?I s'" for t s'
    using that
    by (auto intro!: fail_run_settles wp_andThenI [OF keepsD [OF mark]]
        wp_andThenI [OF keepsD [OF call]] intro: complete_run_settles Cons.IH split: sum.split)
  show ?case
    unfolding provider_attempts.simps
    by (rule wp_andThenI [OF keepsD [OF wait Cons.prems]], simp,
        rule wp_andThenI [OF keepsD [OF run_row.row_prims(1)]], assumption, simp, rule round)
qed

lemma execute_run_settles:
  assumes "row_in_run rid (lifecycle_state (db s))"
  shows "wp (execute_run env polls rid cfg) settles s"
proof -
  let ?I = "\<lambda>s :: 'a sys. row_in_run rid (lifecycle_state (db s))"
  have keep: "keeps ?I (attempt (load_capability env cfg))" "keeps ?I (dbcall env (backup_apps rid))"
      "keeps ?I (dbcall env (all_apps_verified rid))"
    by auto
  have last: "wp (andThen (dbcall env (all_apps_verified rid)) (\<lambda>all_verified.
        if \<not> all_verified then dbcall env (fail_run (Some rid) BackupFailedSafe
               ''not every selected application has a verified backup'')
        else provider_attempts env rid cfg cap None [0..<length BACKOFFS + 1])) settles s'"
    if "?I s'" for cap s'
    by (rule wp_andThenI [OF keepsD [OF keep(3) that]])
      (auto simp del: upt_Suc intro: fail_run_settles provider_attempts_settles)
  have middle: "wp (andThen (dbcall env (backup_apps rid)) (\<lambda>apps.
         andThen (backup_all env polls rid cap apps) (\<lambda>go_on.
         if \<not> go_on then ret ()
         else andThen (dbcall env (all_apps_verified rid)) (\<lambda>all_verified.
              if \<not> all_verified
              then dbcall env (fail_run (Some rid) BackupFailedSafe
                     ''not every selected application has a verified backup'')
              else provider_attempts env rid cfg cap None [0..<length BACKOFFS + 1])))) settles s'"
    if "?I s'" for cap s'
    by (rule wp_andThenI [OF keepsD [OF keep(2) that]], simp,
        rule wp_andThenI [OF backup_all_settles], assumption)
      (auto simp del: upt_Suc intro: last)
  show ?thesis
    unfolding execute_run_def
    by (rule wp_andThenI [OF keepsD [OF keep(1) assms]])
      (auto simp del: upt_Suc intro: fail_run_settles middle split: sum.split)
qed

lemma create_run_in_run:
  "wp (dbcall env (create_run_with_frozen_apps rid t apps))
     (\<lambda>r s'. \<forall>run. r = Inr run \<longrightarrow> row_in_run run (lifecycle_state (db s'))) s"
  unfolding dbcall_def step_def
  by (rule wp_andThenI [of _ "\<lambda>_ _. True"])
    (auto simp: wp_def query_def row_in_run_def split: option.splits prod.splits
      dest!: create_run_table)

lemma settles_after: "(\<And>x s'. wp (f x) settles s') \<Longrightarrow> wp (andThen m f) settles s"
  by (rule wp_andThenI [of _ "\<lambda>_ _. True"]) (auto simp: wp_def split: option.splits)

lemma begin_run_settles: "wp (begin_run env polls cfg) settles s"
proof -
  have created: "wp (andThen (dbcall env (create_run_with_frozen_apps rid t apps)) (\<lambda>run.
      execute_run env polls run cfg)) settles s'" for rid t apps s'
    by (rule wp_andThenI [OF create_run_in_run]) (auto intro: execute_run_settles)
  have chosen: "wp (case selected of
       Inl err \<Rightarrow> dbcall env (fail_run None BackupFailedSafe (msg @ err))
     | Inr apps \<Rightarrow> if apps = [] then dbcall env (fail_run None BackupFailedSafe none)
         else andThen (fresh_uuid env) (\<lambda>rid.
              andThen (dbcall env (create_run_with_frozen_apps rid t apps)) (\<lambda>run.
              execute_run env polls run cfg))) settles s'" for selected msg none t s'
    by (cases selected) (auto intro: fail_run_settles settles_after created)
  show ?thesis
    unfolding begin_run_def by (intro settles_after chosen)
qed

text \<open>A run that the snapshot finds active has an identifier, or the evaluation fails.\<close>

lemma snapshot_wp:
  "wp (dbcall env snapshot) (\<lambda>r s'. \<forall>snap. r = Inr snap \<longrightarrow>
      (if run_is_active (sn_state snap)
       then \<forall>rid. sn_active_run_id snap = Some rid \<longrightarrow> row_in_run rid (lifecycle_state (db s'))
       else settled s')) s"
  unfolding dbcall_def step_def
  by (rule wp_andThenI [of _ "\<lambda>_ _. True"])
    (auto simp: wp_def query_def snapshot_def row_in_run_def settled_def row_settled_def Let_def
      state_from_str_Inr elim!: res_bind_InrE split: option.splits prod.splits)

lemma evaluate_settles: "wp (evaluate env polls cfg) settles s"
proof -
  have stay: "keeps settled (step env (latch_timeout_if_elapsed env t))" for t
    unfolding settled_def by auto
  have idle: "wp (dbnow env (\<lambda>t. transition MonitoringIdle t None)) settles s'" for s' :: "'a sys"
    unfolding dbnow_def
    by (intro settles_after dbcall_settles) (auto simp: transition_def row_settled_def Let_def)
  have waiting: "wp (andThen (step env (latch_timeout_if_elapsed env t)) (\<lambda>reached.
      if \<not> reached then (if c then dbnow env (\<lambda>t. transition MonitoringIdle t None) else ret ())
      else begin_run env polls cfg)) settles s'" if "settled s'" for s' t c
    by (rule wp_andThenI [OF keepsD [OF stay that]]) (auto intro: idle begin_run_settles)
  have resume: "wp (andThen (lift_res (ok_or e run)) (\<lambda>rid. execute_run env polls rid cfg)) settles s'"
    if "\<forall>rid. run = Some rid \<longrightarrow> row_in_run rid (lifecycle_state (db s'))"
    for run e and s' :: "'a sys"
    using that by (cases run) (auto simp: wp_andThen execute_run_settles)
  show ?thesis
    unfolding evaluate_def
  proof (rule settles_after, rule wp_andThenI [OF snapshot_wp], simp)
    fix snap and s' :: "'a sys"
    assume "\<forall>sn. (Inr snap :: (agent_error, lifecycle_snapshot) result) = Inr sn \<longrightarrow>
      (if run_is_active (sn_state sn)
       then \<forall>rid. sn_active_run_id sn = Some rid \<longrightarrow> row_in_run rid (lifecycle_state (db s'))
       else settled s')"
    then have "if run_is_active (sn_state snap)
       then \<forall>rid. sn_active_run_id snap = Some rid \<longrightarrow> row_in_run rid (lifecycle_state (db s'))
       else settled s'" by blast
    then show "wp (if run_is_active (sn_state snap)
        then andThen (lift_res (ok_or ''active lifecycle state has no run ID''
               (sn_active_run_id snap))) (\<lambda>rid. execute_run env polls rid cfg)
        else if run_is_terminal (sn_state snap) then ret ()
        else andThen (step env (latch_timeout_if_elapsed env (timeout_ms cfg))) (\<lambda>reached.
          if \<not> reached
          then (if sn_state snap \<noteq> MonitoringIdle
                then dbnow env (\<lambda>t. transition MonitoringIdle t None)
                else ret ())
          else begin_run env polls cfg)) settles s'"
      by (cases "run_is_active (sn_state snap)"; cases "run_is_terminal (sn_state snap)")
        (simp_all only: if_True if_False resume waiting wp_basic settles_simps)
  qed
qed

end
