(* ===== verification/Lifecycle_Properties.thy ===== *)
theory Lifecycle_Properties
  imports Lifecycle_Progress
begin

text \<open>
  The properties of the lifecycle agent, with a simulated environment on which they are
  exercised: a clock that advances at each reading, a state agent that completes and
  confirms every backup and a provider that accepts.
\<close>

section \<open>A simulated environment\<close>

definition demo_config :: config where
  "demo_config = default_config\<lparr>enabled := True, instance_id := 7, inactivity_seconds := 300\<rparr>"

definition demo_session :: rclone_session where
  "demo_session = \<lparr> sess_operation_id = [], sess_provider = ''local'',
     sess_backend_type = ''local'', sess_remote_name = ''r'', sess_root = ''/'',
     sess_config_ini = [], sess_expires_at_unix = 1, sess_upload_concurrency = None \<rparr>"

definition demo_capability :: storage_capability where
  "demo_capability = \<lparr> cap_version = 1, cap_instance_id = 7, cap_profile_id = ''p'',
     cap_expires_at = 10 ^ 20, cap_session = demo_session,
     master_key_hex = replicate 64 CHR ''a'', prov_api_key = ''k'', prov_instance_id = 7,
     prov_action = Destroy \<rparr>"

definition demo_reply :: "string \<Rightarrow> json" where
  "demo_reply m =
     (if m = ''GetActiveAppSessions'' then JArray [JArray [JString ''s'', JString ''steam:1'']]
      else if m = ''ListBackupCandidateIds'' then JArray [JString ''steam:1'']
      else if m = ''ListCloudCatalog'' then JObject [(''apps'', JArray [])]
      else if m = ''StartBackup'' then JObject [(''operation_id'', JString ''op'')]
      else if m = ''GetOperationStatus'' then JObject [(''state'', JString ''completed''),
        (''detail_json'', JObject [(''bundle_id'', JString ''b''), (''commit_id'', JString ''c'')])]
      else if m = ''VerifyBackupCommit''
      then JArray [JBool True, JString ''steam:1'', JString ''b'', JString ''c'']
      else JNull)"

definition demo_env :: "nat env" where
  "demo_env = \<lparr>
     now_utc = (\<lambda>w. (int w * 1000000, w)),
     monotonic_ms = (\<lambda>w. (w, w + 200000)),
     sleep_ms = (\<lambda>ms w. w + ms),
     new_v4 = (\<lambda>w. (''run'', w)),
     parse_uuid = Some,
     db_fault = (\<lambda>w. (None, w)),
     read_config = (\<lambda>w. (Inr (Some demo_config), w)),
     read_capability = (\<lambda>_ w. (Inr demo_capability, w)),
     rpc = (\<lambda>q w. (Inr \<lparr> rs_id = rq_id q, rs_result = Some (demo_reply (rq_method q)),
       rs_error = None \<rparr>, w)),
     foreground_pid = (\<lambda>w. (None, w)),
     provider_apply = (\<lambda>_ w. (Inr (), w)),
     interleaved = (\<lambda>w. ([], w)) \<rparr>"

definition blank_sys :: "'w \<Rightarrow> 'w sys" where
  "blank_sys w = \<lparr> db = migrated_database, current_config = default_config,
     last_by_source = Map.empty, last_activity_monotonic_ms = 0, timeout_latched = False,
     last_usage_tick_ms = 0, candidate_app_ids = {}, world = w, trace = [] \<rparr>"

definition demo_booted :: "nat sys" where
  "demo_booted = \<lparr>
     db = \<lparr> app_usage = [], lifecycle_runs = [],
       lifecycle_state = \<lparr> ls_state = ''MONITORING/IDLE'', last_activity_at = Some 0,
         timeout_reached_at = None, active_run_id = None, last_error = None,
         shutdown_started_at = None \<rparr>,
       backup_apps_table = [], seen_sessions = [] \<rparr>,
     current_config = demo_config, last_by_source = Map.empty, last_activity_monotonic_ms = 0,
     timeout_latched = False, last_usage_tick_ms = 200000, candidate_app_ids = {},
     world = 400000, trace = [] \<rparr>"

text \<open>The database when the provider is called, and the state after the tick.\<close>

definition demo_row :: backup_app where
  "demo_row = \<lparr> ba_run_id = ''run'', ba_app_id = ''steam:1'', rank = Suc 0,
     status = ''VERIFIED'', attempts = Suc 0, operation_id = Some ''op'', bundle_id = Some ''b'',
     commit_id = Some ''c'', ba_last_error = None, updated_at = 1000000 \<rparr>"

definition demo_shutdown_db :: database where
  "demo_shutdown_db = \<lparr>
     app_usage = [\<lparr> app_id = ''steam:1'', foreground_active_ms = 0, process_runtime_ms = 200000,
       launch_count = 1, last_active_at = 600000 \<rparr>],
     lifecycle_runs = [\<lparr> run_id = ''run'', created_at = 800000, run_timeout_reached_at = 800000,
       frozen_at = Some 800000, run_status = ''SHUTTING_DOWN'', run_last_error = None,
       run_shutdown_started_at = Some 1000000, completed_at = None \<rparr>],
     lifecycle_state = \<lparr> ls_state = ''SHUTTING_DOWN'', last_activity_at = Some 0,
       timeout_reached_at = Some 800000, active_run_id = Some ''run'', last_error = None,
       shutdown_started_at = Some 1000000 \<rparr>,
     backup_apps_table = [demo_row],
     seen_sessions = [(''s'', ''steam:1'', 600000)] \<rparr>"

lemma demo_validated: "config_validate demo_config = Inr ()"
  by code_simp

lemma demo_capability_valid:
  "t < 10 ^ 20 \<Longrightarrow> capability_validate demo_capability demo_config t = Inr ()"
proof -
  have "capability_validate demo_capability demo_config 0 = Inr ()" by code_simp
  moreover assume "t < 10 ^ 20"
  ultimately show ?thesis
    by (auto simp: capability_validate_def demo_capability_def split: if_splits)
qed

lemma demo_env_fields:
  "now_utc demo_env = (\<lambda>w. (int w * 1000000, w))"
  "monotonic_ms demo_env = (\<lambda>w. (w, w + 200000))"
  "sleep_ms demo_env = (\<lambda>ms w. w + ms)"
  "new_v4 demo_env = (\<lambda>w. (''run'', w))"
  "parse_uuid demo_env = Some"
  "db_fault demo_env = (\<lambda>w. (None, w))"
  "read_config demo_env = (\<lambda>w. (Inr (Some demo_config), w))"
  "read_capability demo_env = (\<lambda>_ w. (Inr demo_capability, w))"
  "rpc demo_env = (\<lambda>q w. (Inr \<lparr> rs_id = rq_id q, rs_result = Some (demo_reply (rq_method q)),
     rs_error = None \<rparr>, w))"
  "foreground_pid demo_env = (\<lambda>w. (None, w))"
  "provider_apply demo_env = (\<lambda>_ w. (Inr (), w))"
  "interleaved demo_env = (\<lambda>w. ([], w))"
  by (simp_all add: demo_env_def)

lemma demo_config_fields:
  "enabled demo_config" "backup_app_limit demo_config = 3" "timeout_ms demo_config = 300000"
  by (simp_all add: demo_config_def default_config_def timeout_ms_def u64_max_def)

lemma demo_eligible: "is_backup_eligible_app_id ''steam:1''"
  by code_simp

lemma demo_not_blank: "\<not> is_blank ''op''" "\<not> is_blank ''b''" "\<not> is_blank ''c''"
  by code_simp+

lemma demo_upper:
  "upper_char CHR ''c'' = CHR ''C''" "upper_char CHR ''o'' = CHR ''O''"
  "upper_char CHR ''m'' = CHR ''M''" "upper_char CHR ''p'' = CHR ''P''"
  "upper_char CHR ''l'' = CHR ''L''" "upper_char CHR ''e'' = CHR ''E''"
  "upper_char CHR ''t'' = CHR ''T''" "upper_char CHR ''d'' = CHR ''D''"
  by code_simp+

text \<open>Symbolic execution: a continuation is not looked at before its argument is known.\<close>

lemma andThen_weak: "m = m' \<Longrightarrow> s = s' \<Longrightarrow> andThen m f s = andThen m' f s'"
  by simp

lemma Suc_2: "Suc 2 = 3"
  by simp

lemmas backup_attempts_3 = backup_attempts.simps(2) [where n = 2, unfolded Suc_2]

lemmas exec_prims =
  andThen_def ask_def ask_res_def get_def modify_def ret_def throw_def lift_res_def query_def
  attempt_def step_def interfere_def utc_now_def dbcall_def dbnow_def fresh_uuid_def pause_def

lemmas exec_client =
  get_active_app_sessions_def call_def checked_response_def demo_reply_def
  list_backup_candidate_app_ids_def build_session_def nth_opt_def has_complete_baseline_def
  start_backup_def get_operation_status_def decode_status_def verify_backup_commit_def
  verification_result_matches_def build_verification_def nonblank_str_def json_get2_def
  catalog_has_nonempty_complete_baseline_def

lemmas exec_engine =
  update_usage_def record_session_def eligible_ranked_apps_def validated_ranked_apps_def
  completion_ids_def string_field_def verify_completed_def monitor_and_verify_def
  resume_running_def backup_one_def apply_provider_def load_capability_def execute_run_def
  begin_run_def tick_def evaluate_def latch_timeout_if_elapsed_def latch_timeout_def
  load_and_validate_def config_load_def agent_start_def run_is_terminal_def MAX_TRACKED_APPS_def
  BACKUP_MAX_ATTEMPTS_def BACKOFFS_def backup_attempts_3

lemmas exec_db =
  db_op_defs to_i64_def upsert_usage_def create_run_with_frozen_apps_def insert_backup_app_def
  update_app_def updated_rows_def may_retry_def usage_key_def coalesce_def format_time_def
  parse_time_def state_from_str_def migrated_database_def Let_def

lemmas demo_facts =
  demo_env_fields demo_config_fields demo_validated demo_capability_valid demo_eligible
  demo_not_blank demo_upper

lemmas exec = exec_prims exec_client exec_engine exec_db demo_facts

lemma demo_boot: "agent_start demo_env (blank_sys 0) = Some (Inr (), demo_booted)"
  by (simp add: exec blank_sys_def demo_booted_def cong: andThen_weak)

lemma demo_tick:
  "\<exists>s tr. tick demo_env (Suc 0) demo_booted = Some (Inr (), s)
     \<and> trace s = ProviderApplied ''run'' (provider_request_for demo_config demo_capability)
          1000000000000 demo_capability demo_config demo_shutdown_db # tr
     \<and> backup_apps_table (db s) = [demo_row]
     \<and> map run_id (lifecycle_runs (db s)) = [''run'']"
  by (simp add: exec demo_booted_def demo_shutdown_db_def demo_row_def
      cong: andThen_weak del: backup_attempts.simps(2))

lemma demo_reachable:
  "\<exists>s tr. reachable demo_env s
     \<and> trace s = ProviderApplied ''run'' (provider_request_for demo_config demo_capability)
          1000000000000 demo_capability demo_config demo_shutdown_db # tr
     \<and> backup_apps_table (db s) = [demo_row]"
proof -
  have "reachable demo_env demo_booted"
    using demo_boot by (rule reachable.boot [rotated 2]) (simp_all add: blank_sys_def)
  then show ?thesis
    using demo_tick reachable.tick by blast
qed

section \<open>Safety of the provider action\<close>

text \<open>C1: the instance is stopped or destroyed only after every application frozen for the run
  has a backup commit that the state agent confirmed for exactly that application, bundle and
  commit, and only under a capability that was valid for the configured instance and action.
  This holds over any sequence of evaluations, requests and restarts, with any database
  failures and any interleaved requests.\<close>

theorem shutdown_requires_verified_backups:
  assumes "reachable env s"
    and "trace s = later @ ProviderApplied rid req t cap cfg d # earlier"
  shows "run_verified rid d
    \<and> (\<forall>r \<in> set (backup_apps_table d). ba_run_id r = rid \<longrightarrow>
         (\<exists>b c. bundle_id r = Some b \<and> commit_id r = Some c
            \<and> commit_confirmed (parse_uuid env) earlier (ba_app_id r) b c))
    \<and> prov_instance_id cap = instance_id cfg \<and> req_instance_id req = instance_id cfg
    \<and> req_action req = provider_action cfg \<and> prov_action cap = provider_action cfg
    \<and> t < cap_expires_at cap"
proof -
  have "effect_safe (parse_uuid env) earlier (ProviderApplied rid req t cap cfg d)"
    using reachable_safe [OF assms(1)] trace_safe_split assms(2) by (fastforce simp: safe_def)
  then show ?thesis
    by (auto simp: row_confirmed_def provider_request_for_def dest: capability_validate_ok)
qed

theorem shutdown_requires_verified_backups_witness:
  "\<exists>s tr. reachable demo_env s
     \<and> trace s = [] @ ProviderApplied ''run'' (provider_request_for demo_config demo_capability)
          1000000000000 demo_capability demo_config demo_shutdown_db # tr
     \<and> commit_confirmed Some tr ''steam:1'' ''b'' ''c''"
proof -
  obtain s tr where s: "reachable demo_env s" and tr: "trace s = [] @ ProviderApplied ''run''
      (provider_request_for demo_config demo_capability)
      1000000000000 demo_capability demo_config demo_shutdown_db # tr"
    using demo_reachable by auto
  from shutdown_requires_verified_backups [OF s tr] show ?thesis
    using s tr by (auto simp: demo_shutdown_db_def demo_row_def demo_env_fields)
qed

text \<open>C2: the applications frozen for a run and their ranks never change, and a run all of
  whose applications are verified stays so, over any number of evaluations, requests and
  restarts.\<close>

theorem frozen_selection_immutable:
  assumes "(agent_step env)\<^sup>*\<^sup>* s0 s" and "known_run rid (db s0)"
  shows "selection rid (db s) = selection rid (db s0)
    \<and> (run_verified rid (db s0) \<longrightarrow> run_verified rid (db s))"
  using agent_steps_follow [OF assms(1)] assms(2)
  by (auto simp: follows_def intro: evolves_selection evolves_verified)

theorem frozen_selection_immutable_witness:
  "\<exists>s0 s. (agent_step demo_env)\<^sup>*\<^sup>* s0 s \<and> known_run ''run'' (db s0)
     \<and> selection ''run'' (db s) = [(''steam:1'', 1)]"
proof -
  obtain s0 :: "nat sys" where s0: "backup_apps_table (db s0) = [demo_row]"
      and runs: "map run_id (lifecycle_runs (db s0)) = [''run'']"
    using demo_tick by (elim exE conjE) (rule that)
  have "ends (agent_start demo_env)"
    unfolding agent_start_def latch_timeout_def by auto
  then obtain r s where "agent_start demo_env s0 = Some (r, s)"
    unfolding ends_def by (metis not_None_eq prod.collapse)
  then have path: "(agent_step demo_env)\<^sup>*\<^sup>* s0 s"
    by (blast intro: agent_step.restarts)
  have known: "known_run ''run'' (db s0)"
    using arg_cong [OF runs, of set] by (auto simp: known_run_def)
  have "selection ''run'' (db s0) = [(''steam:1'', 1)]"
    by (simp add: selection_def s0 demo_row_def)
  with frozen_selection_immutable [OF path known] path known show ?thesis
    by auto
qed

text \<open>C3: an application is never attempted more than three times in a run, and its row says
  verified only with a bundle and commit that the state agent confirmed.\<close>

theorem backup_rows_safe:
  assumes "reachable env s" and "r \<in> set (backup_apps_table (db s))"
  shows "attempts r \<le> 3
    \<and> (status r = ''VERIFIED'' \<longrightarrow> (\<exists>b c. bundle_id r = Some b \<and> commit_id r = Some c
         \<and> commit_confirmed (parse_uuid env) (trace s) (ba_app_id r) b c))"
  using reachable_safe [OF assms(1)] assms(2)
  by (auto simp: safe_def row_safe_def row_confirmed_def BACKUP_MAX_ATTEMPTS_def)

theorem backup_rows_safe_witness:
  "\<exists>s. reachable demo_env s \<and> demo_row \<in> set (backup_apps_table (db s))
     \<and> commit_confirmed Some (trace s) ''steam:1'' ''b'' ''c''"
proof -
  obtain s where s: "reachable demo_env s" and r: "demo_row \<in> set (backup_apps_table (db s))"
    using demo_reachable by (metis list.set_intros(1))
  from backup_rows_safe [OF s r] s r show ?thesis
    by (auto simp: demo_row_def demo_env_fields)
qed

section \<open>Progress\<close>

text \<open>C4: an evaluation always ends: with a clock that keeps running, 901 polls per backup
  operation are enough for every tick to return a result.\<close>

theorem tick_returns:
  assumes "clock_laws env clk" and "901 \<le> polls"
  shows "\<exists>r s'. tick env polls s = Some (r, s')"
proof -
  have "enough_polls \<le> polls"
    using assms(2)
    by (simp add: enough_polls_def BACKUP_POLL_TIMEOUT_MS_def BACKUP_POLL_INTERVAL_MS_def)
  then have "ends (tick env polls)"
    by (intro tick_ends monitor_ends [OF assms(1)])
  then show ?thesis
    by (auto simp: ends_def)
qed

theorem tick_returns_witness:
  "clock_laws demo_env id \<and> (\<exists>r s'. tick demo_env 901 demo_booted = Some (r, s'))"
proof -
  have "clock_laws demo_env id"
    by (simp add: clock_laws_def demo_env_fields)
  with tick_returns [of demo_env id 901] show ?thesis by simp
qed

text \<open>C5: an evaluation with the agent enabled that returns without an error leaves no run
  half-way: the persisted state is idle, completed or one of the two safe failures.\<close>

theorem evaluation_settles:
  assumes "evaluate env polls cfg s = Some (Inr (), s')"
  shows "\<exists>st. ls_state (lifecycle_state (db s')) = state_as_str st \<and> \<not> run_is_active st"
  using wpD [OF evaluate_settles assms] by (simp add: settled_def row_settled_def)

theorem evaluation_settles_witness:
  "\<exists>s'. evaluate demo_env (Suc 0) demo_config demo_booted = Some (Inr (), s')
     \<and> (\<exists>st. ls_state (lifecycle_state (db s')) = state_as_str st \<and> \<not> run_is_active st)"
proof -
  have "\<exists>s'. evaluate demo_env (Suc 0) demo_config demo_booted = Some (Inr (), s')"
    by (simp add: exec demo_booted_def cong: andThen_weak del: backup_attempts.simps(2))
  then show ?thesis
    using evaluation_settles by blast
qed

section \<open>Selection and freezing\<close>

text \<open>C22: freezing between one and ten distinct applications under a fresh run identifier
  succeeds, records exactly these applications with ranks 1, 2, ... in their order, makes the run
  the active one, and from then on the database refuses every further row for the run.\<close>

theorem create_run_freezes:
  assumes "apps \<noteq> []" and "length apps \<le> 10" and "distinct (map app_id apps)"
    and "\<not> known_run rid d" and "\<forall>r \<in> set (backup_apps_table d). ba_run_id r \<noteq> rid"
  shows "\<exists>d'. create_run_with_frozen_apps rid t apps d = (Inr rid, d')
    \<and> selection rid d' = zip (map app_id apps) [1..<1 + length apps]
    \<and> active_run_id (lifecycle_state d') = Some rid
    \<and> (\<forall>app rk u. insert_backup_app rid app rk u d' = None)"
proof -
  let ?now = "format_time t"
  let ?d1 = "d\<lparr>lifecycle_runs := lifecycle_runs d @
     [\<lparr> run_id = rid, created_at = ?now, run_timeout_reached_at = ?now, frozen_at = None,
        run_status = ''BACKING_UP'', run_last_error = None, run_shutdown_started_at = None,
        completed_at = None \<rparr>]\<rparr>"
  have fresh: "\<not> list_ex (\<lambda>r. run_id r = rid) (lifecycle_runs d)"
    using assms(4) by (auto simp: known_run_def list_ex_iff)
  then have "\<not> frozen rid ?d1"
    by (auto simp: frozen_def list_ex_iff)
  then have "\<exists>d2. insert_backup_apps rid 0 apps ?now ?d1 = Some d2"
    using assms by (intro insert_backup_apps_Some) auto
  then obtain d2 where d2: "insert_backup_apps rid 0 apps ?now ?d1 = Some d2" ..
  note rows = insert_backup_apps_table [OF d2]
  obtain d' where d': "create_run_with_frozen_apps rid t apps d = (Inr rid, d')"
      and runs: "lifecycle_runs d' = map (\<lambda>r. if run_id r = rid then r\<lparr>frozen_at := Some ?now\<rparr> else r)
         (lifecycle_runs d2)"
    using assms(1,2) fresh d2 by (simp add: create_run_with_frozen_apps_def Let_def)
  have tab: "backup_apps_table d' = backup_apps_table d @ pending_rows rid 0 apps ?now"
      and act: "active_run_id (lifecycle_state d') = Some rid"
    using create_run_table [OF d'] by auto
  have "filter (\<lambda>r. ba_run_id r = rid) (backup_apps_table d) = []"
    using assms(5) by (auto simp: filter_empty_conv)
  then have "selection rid d' = zip (map app_id apps) [1..<1 + length apps]"
    using pending_selection [of rid 0 apps ?now] by (simp add: selection_def tab)
  moreover have "list_ex (\<lambda>r. run_id r = rid \<and> frozen_at r \<noteq> None) (lifecycle_runs d')"
    unfolding runs using rows by (auto simp: list_ex_iff)
  ultimately show ?thesis
    using d' act by (auto simp: insert_backup_app_def)
qed

definition demo_usage :: "string \<Rightarrow> ranked_app" where
  "demo_usage app = \<lparr> app_id = app, foreground_active_ms = 1, process_runtime_ms = 1,
     launch_count = 1, last_active_at = 0 \<rparr>"

theorem create_run_freezes_witness:
  "\<exists>d'. create_run_with_frozen_apps ''r'' 0 [demo_usage ''a'', demo_usage ''b''] migrated_database
      = (Inr ''r'', d') \<and> selection ''r'' d' = [(''a'', 1), (''b'', 2)]"
  using create_run_freezes [of "[demo_usage ''a'', demo_usage ''b'']" "''r''" migrated_database 0]
  by (auto simp: demo_usage_def migrated_database_def known_run_def upt_rec)

text \<open>A row as the ranking returns it, its time parsed; parsing keeps the order.\<close>

definition parsed :: "ranked_app \<Rightarrow> ranked_app" where
  "parsed r = r\<lparr>last_active_at := parse_time (last_active_at r)\<rparr>"


lemma app_id_parsed [simp]: "app_id (parsed r) = app_id r"
  by (simp add: parsed_def)



definition sample_session ::
  "string \<Rightarrow> string \<Rightarrow> int \<Rightarrow> nat list \<Rightarrow> database \<Rightarrow> database" where
  "sample_session sid app t mss d =
     foldl (\<lambda>d ms. snd (record_active_session sid app ms t d)) d mss"

text \<open>Sampling one session any number of times counts one launch of the application, none
  when the session was already known, and adds up the sampled run time.\<close>

theorem launch_counted_once:
  assumes "\<forall>ms \<in> set mss. ms < 2 ^ 63" and "mss \<noteq> []"
  shows "launches app (sample_session sid app t mss d)
      = launches app d + (if session_seen sid d then 0 else 1)
    \<and> runtime app (sample_session sid app t mss d) = runtime app d + int (sum_list mss)"
proof -
  have "launches app (sample_session sid app t ms d) = launches app d
      \<and> runtime app (sample_session sid app t ms d) = runtime app d + int (sum_list ms)"
    if "session_seen sid d" and "\<forall>m \<in> set ms. m < 2 ^ 63" for ms d
    using that
    by (induction ms arbitrary: d)
      (simp_all add: sample_session_def record_active_session_counts)
  with assms show ?thesis
    by (cases mss) (auto simp: sample_session_def record_active_session_counts)
qed

theorem launch_counted_once_witness:
  "launches ''a'' (sample_session ''s'' ''a'' 0 [5, 7] migrated_database) = 1
   \<and> runtime ''a'' (sample_session ''s'' ''a'' 0 [5, 7] migrated_database) = 12"
  using launch_counted_once [of "[5, 7]" "''a''" "''s''" 0 migrated_database]
  by (simp add: migrated_database_def launches_def runtime_def usage_row_def session_seen_def)

section \<open>Activity and configuration\<close>

text \<open>An accepted event makes the reading of the monotonic clock the new idle anchor and
  records the activity; every other outcome, and every refused event, leaves the database and
  the anchor as they were. A controller event inside the dead zone and a synthetic event are
  never accepted.\<close>

theorem record_activity_outcomes:
  assumes "record_activity env ev s = Some (r, s')"
  shows "(case r of
      Inr Accepted \<Rightarrow>
        event_type ev = ''user_activity'' \<and> 0 \<le> timestamp_ms ev \<and> \<not> synthetic ev
        \<and> last_activity_monotonic_ms s' = fst (monotonic_ms env (world s))
        \<and> last_by_source s' (source ev) = Some (fst (monotonic_ms env (world s)))
        \<and> \<not> debounced (last_by_source s) (source ev) (fst (monotonic_ms env (world s)))
        \<and> (\<exists>now. db s' = snd (record_accepted_activity now (db s)))
        \<and> (source ev = Controller \<longrightarrow> (\<exists>m. magnitude ev = Some m \<and> f32_is_finite m
             \<and> \<not> f32_le (f32_abs m) (controller_dead_zone (current_config s))))
    | _ \<Rightarrow> db s' = db s \<and> last_activity_monotonic_ms s' = last_activity_monotonic_ms s)
    \<and> timeout_latched s' = timeout_latched s \<and> trace s' = trace s"
  using assms
  by (auto simp: record_activity_def controller_drift_def finite_magnitude_def exec_prims
      record_accepted_activity_def split: if_splits option.splits prod.splits sum.splits
      activity_outcome.splits)

definition demo_key :: activity_event where
  "demo_key = \<lparr> event_type = ''user_activity'', source = Keyboard, timestamp_ms = 0,
     synthetic = False, magnitude = None \<rparr>"

theorem record_activity_outcomes_witness:
  "\<exists>s'. record_activity demo_env demo_key demo_booted = Some (Inr Accepted, s')
     \<and> last_activity_monotonic_ms s' = 400000"
proof -
  have "\<exists>s'. record_activity demo_env demo_key demo_booted = Some (Inr Accepted, s')"
    by (simp add: record_activity_def controller_drift_def demo_key_def demo_booted_def
        debounced_def exec_prims exec_db demo_facts)
  then obtain s' where s': "record_activity demo_env demo_key demo_booted = Some (Inr Accepted, s')" ..
  have "fst (monotonic_ms demo_env (world demo_booted)) = 400000"
    by (simp add: demo_env_fields demo_booted_def)
  with record_activity_outcomes [OF s'] s' show ?thesis by auto
qed

text \<open>The idle timeout is reported exactly when it was latched before or the clock is at
  least the timeout past the idle anchor, and it stays latched from then on.\<close>

theorem latch_timeout_correct:
  "latch_timeout_if_elapsed env timeout s =
     (let (now_mono, w) = monotonic_ms env (world s);
          reached = timeout \<le> now_mono - last_activity_monotonic_ms s
      in if timeout_latched s then Some (Inr True, s)
         else Some (Inr reached, s\<lparr>world := w, timeout_latched := reached\<rparr>))"
  by (auto simp: latch_timeout_if_elapsed_def latch_timeout_def exec_prims split: prod.splits)

lemma period_bounds:
  "300 \<le> i \<and> i \<le> 86400 \<longleftrightarrow>
     300000 \<le> min u64_max (unat i * 1000) \<and> min u64_max (unat i * 1000) \<le> 86400000
     \<and> min u64_max (unat i * 1000) = unat i * 1000" for i :: u64
proof -
  have "300 \<le> i \<and> i \<le> 86400 \<longleftrightarrow> unat (300 :: u64) \<le> unat i \<and> unat i \<le> unat (86400 :: u64)"
    by (simp only: word_le_nat_alt)
  then show ?thesis by (auto simp: u64_max_def min_def)
qed

lemma whitespace_line_ends: "\<not> has_whitespace s \<Longrightarrow> CHR 0x0A \<notin> set s \<and> CHR 0x0D \<notin> set s"
  by (auto simp: has_whitespace_def whitespace_seqs_def sublist_def in_set_conv_decomp)

lemma longer_prefix: "prefix p s \<Longrightarrow> length s \<le> length p \<longleftrightarrow> s = p"
  by (auto simp: prefix_def)

text \<open>A configuration is accepted exactly when its bounds, the instance, the provider URL
  and the absolute paths are right; an accepted inactivity period is between five minutes and a
  day and its conversion to milliseconds does not saturate.\<close>

theorem config_validate_iff:
  "config_validate c = Inr () \<longleftrightarrow>
     300000 \<le> timeout_ms c \<and> timeout_ms c \<le> 86400000
     \<and> timeout_ms c = unat (inactivity_seconds c) * 1000
     \<and> 1 \<le> backup_app_limit c \<and> backup_app_limit c \<le> 10
     \<and> (\<exists>z. controller_dead_zone c = Fin z \<and> 0 \<le> z \<and> z \<le> 15938355 / 16777216)
     \<and> \<not> (enabled c \<and> instance_id c = 0)
     \<and> prefix ''https://'' (trim (vast_base_url c)) \<and> trim (vast_base_url c) \<noteq> ''https://''
     \<and> \<not> has_whitespace (trim (vast_base_url c))
     \<and> list_all is_absolute [state_agent_socket c, status_socket c, activity_socket c,
          database_path c, capability_path c]"
proof -
  have period: "300 \<le> inactivity_seconds c \<and> inactivity_seconds c \<le> 86400 \<longleftrightarrow>
      300000 \<le> timeout_ms c \<and> timeout_ms c \<le> 86400000
      \<and> timeout_ms c = unat (inactivity_seconds c) * 1000"
    unfolding timeout_ms_def by (rule period_bounds)
  have zone: "f32_is_finite z \<and> f32_le (Fin 0) z \<and> f32_le z f32_0_95 \<longleftrightarrow>
      (\<exists>q. z = Fin q \<and> 0 \<le> q \<and> q \<le> 15938355 / 16777216)" for z
    by (cases z) (auto simp: f32_0_95_def)
  have url: "\<not> (\<not> prefix ''https://'' u \<or> length u \<le> length ''https://'' \<or> has_whitespace u
        \<or> CHR 0x0A \<in> set u \<or> CHR 0x0D \<in> set u)
      \<longleftrightarrow> prefix ''https://'' u \<and> u \<noteq> ''https://'' \<and> \<not> has_whitespace u" for u
    using whitespace_line_ends [of u] longer_prefix [of "''https://''" u] by blast
  have paths: "res_bind (check_absolute a x) f = Inr () \<longleftrightarrow> is_absolute x \<and> f () = Inr ()" for a x f
    by (simp add: check_absolute_def)
  have last: "check_absolute a x = Inr () \<longleftrightarrow> is_absolute x" for a x
    by (simp add: check_absolute_def)
  have ok: "(if b then Inl e else x) = Inr () \<longleftrightarrow> \<not> b \<and> x = Inr ()"
    for b and e :: agent_error and x :: "(agent_error, unit) result"
    by simp
  show ?thesis
    unfolding config_validate_def Let_def ok paths last url period zone [symmetric]
    by (simp only: list.pred_inject de_Morgan_disj not_not not_imp) blast
qed

text \<open>Whatever reads the activity socket delivers, exactly the non-empty lines of at most
  4096 bytes reach the decoder, in order; an oversized line is dropped without disturbing the
  next one.\<close>

theorem activity_lines_framed:
  assumes "\<forall>l \<in> set ls. 10 \<notin> set l" and "concat reads = concat (map (\<lambda>l. l @ [10]) ls)"
  shows "feed_reads new_line_reader reads =
    (new_line_reader, filter (\<lambda>l. l \<noteq> [] \<and> length l \<le> 4096) ls)"
  using feed_lines [OF assms(1)] assms(2)
  by (simp add: feed_reads_concat accepted_line_def [abs_def] MAX_ACTIVITY_LINE_BYTES_def)

theorem activity_lines_framed_witness:
  "feed_reads new_line_reader [[1], [2, 10, 10], [3, 10]] = (new_line_reader, [[1, 2], [3]])"
  using activity_lines_framed [of "[[1, 2], [], [3]]" "[[1], [2, 10, 10], [3, 10]]"] by simp

section \<open>Only eligible applications are frozen\<close>

definition eligible_rows :: "'w sys \<Rightarrow> bool" where
  "eligible_rows s \<longleftrightarrow>
     (\<forall>r \<in> set (backup_apps_table (db s)). is_backup_eligible_app_id (ba_app_id r))"

lemma advances_eligible:
  assumes "list_all2 row_advances (backup_apps_table d) (backup_apps_table d')"
    and "\<forall>r \<in> set (backup_apps_table d). is_backup_eligible_app_id (ba_app_id r)"
  shows "\<forall>r \<in> set (backup_apps_table d'). is_backup_eligible_app_id (ba_app_id r)"
  using assms by (induction rule: list_all2_induct) (auto simp: row_advances_def)

lemma advances_eligible_rows: "eligible_rows s \<Longrightarrow> advances (db s) (db s') \<Longrightarrow> eligible_rows s'"
  unfolding eligible_rows_def advances_def using advances_eligible by blast

interpretation eligible: engine_invariant env eligible_rows
proof unfold_locales
  fix s s' :: "'a sys"
  assume "eligible_rows s" "quiet (db s) (db s')"
  then show "eligible_rows s'"
    by (blast intro: advances_eligible_rows quiet_advances)
next
  fix s :: "'a sys" and app b c rid t w
  assume "eligible_rows s"
  then show "eligible_rows (s\<lparr>db := snd (mark_app_verified rid app b c t (db s)), world := w\<rparr>)"
    by (rule advances_eligible_rows) (simp add: op_verified.advances_op)
qed (simp_all add: eligible_rows_def)

lemma eligible_ranked_apps_wp:
  assumes "eligible_rows s"
  shows "wp (eligible_ranked_apps env n)
    (\<lambda>r s'. eligible_rows s' \<and> (\<forall>apps. r = Inr apps \<longrightarrow>
       (\<forall>a \<in> set apps. is_backup_eligible_app_id (app_id a)))) s"
  unfolding eligible_ranked_apps_def
proof (rule wp_andThenI)
  show "wp (step env (get candidate_app_ids)) (\<lambda>_ s'. eligible_rows s') s"
    using assms by (rule keepsD [rotated]) blast
next
  fix cs and s' :: "'a sys" assume s': "eligible_rows s'"
  have "keeps eligible_rows (dbcall env (ranked_apps MAX_TRACKED_APPS))"
    by (rule eligible.dbcall_keeps) simp
  from keepsD [OF this s'] show "wp (andThen (dbcall env (ranked_apps MAX_TRACKED_APPS)) (\<lambda>apps.
      ret (take n (filter (\<lambda>a. app_id a \<in> cs \<and> is_backup_eligible_app_id (app_id a)) apps))))
    (\<lambda>r s'. eligible_rows s' \<and> (\<forall>apps. r = Inr apps \<longrightarrow>
       (\<forall>a \<in> set apps. is_backup_eligible_app_id (app_id a)))) s'"
    by (rule wp_andThenI) (auto dest!: in_set_takeD)
qed simp

lemma create_eligible:
  assumes "eligible_rows s" and "\<forall>a \<in> set apps. is_backup_eligible_app_id (app_id a)"
  shows "wp (dbcall env (create_run_with_frozen_apps rid t apps)) (\<lambda>_ s'. eligible_rows s') s"
proof -
  have pending: "\<forall>r \<in> set (pending_rows rid i apps n). is_backup_eligible_app_id (ba_app_id r)" for i n
    using assms(2) by (induction apps arbitrary: i) auto
  have "wp (query env (create_run_with_frozen_apps rid t apps)) (\<lambda>_ s'. eligible_rows s') s'"
    if "eligible_rows s'" for s' :: "'a sys"
    using that pending
    by (auto simp: wp_def query_def eligible_rows_def split: option.splits prod.splits
        dest!: create_run_table)
  then show ?thesis
    unfolding dbcall_def step_def
    by (rule wp_andThenI [OF keepsD [OF eligible.interfere_keeps assms(1)], rotated]) auto
qed

lemma begin_run_eligible: "keeps eligible_rows (begin_run env polls cfg)"
  unfolding keeps_def
proof (intro allI impI)
  fix s :: "'a sys" assume "eligible_rows s"
  let ?I = "\<lambda>_ s' :: 'a sys. eligible_rows s'"
  let ?sel = "\<lambda>r s' :: 'a sys. eligible_rows s' \<and> (\<forall>apps. r = Inr apps \<longrightarrow>
       (\<forall>a \<in> set apps. is_backup_eligible_app_id (app_id a)))"
  have validated: "wp (validated_ranked_apps env n) ?sel s'" if "eligible_rows s'" for n s'
    unfolding validated_ranked_apps_def
    by (rule wp_andThenI [OF keepsD [OF eligible.client_keeps(2) that]], simp,
        rule wp_andThenI [OF keepsD [OF eligible.step_quiet_modify]])
      (auto intro: eligible_ranked_apps_wp)
  have selected: "wp (attempt (validated_ranked_apps env n)) (\<lambda>r s'. \<exists>r'. r = Inr r' \<and> ?sel r' s') s'"
    if "eligible_rows s'" for n s'
    by (rule wp_attemptI [OF validated [OF that]]) blast
  have fails: "wp (dbcall env (fail_run None BackupFailedSafe e)) ?I s'" if "eligible_rows s'" for e s'
    using that by (rule keepsD [rotated]) (rule eligible.dbcall_keeps, simp)
  have created: "wp (andThen (fresh_uuid env) (\<lambda>rid.
      andThen (dbcall env (create_run_with_frozen_apps rid t apps)) (\<lambda>run.
        execute_run env polls run cfg))) ?I s'"
    if "eligible_rows s'" "\<forall>a \<in> set apps. is_backup_eligible_app_id (app_id a)" for t apps s'
    using that
    by (intro wp_andThenI [OF keepsD [OF eligible.prims_keep(2)]] wp_andThenI [OF create_eligible])
      (auto intro: keepsD [OF eligible.execute_run_keeps])
  have moves: "keeps eligible_rows (dbcall env (transition TimeoutReached t None))"
      "keeps eligible_rows (dbnow env (\<lambda>t. transition SelectingApplications t None))" for t
    by (auto intro!: eligible.dbcall_keeps eligible.dbnow_keeps)
  show "wp (begin_run env polls cfg) ?I s"
    unfolding begin_run_def
    by (rule wp_andThenI [OF keepsD [OF eligible.prims_keep(1) \<open>eligible_rows s\<close>]], simp,
        rule wp_andThenI [OF keepsD [OF moves(1)]], assumption, simp,
        rule wp_andThenI [OF keepsD [OF moves(2)]], assumption, simp,
        rule wp_andThenI [OF selected], assumption)
      (auto intro: fails created split: sum.splits)
qed

lemma tick_eligible: "keeps eligible_rows (tick env polls)"
  unfolding tick_def evaluate_def
  by (auto intro!: begin_run_eligible eligible.dbcall_keeps eligible.dbnow_keeps)

lemma lower_idem: "lower_char (lower_char c) = lower_char c"
proof -
  have "(of_char (char_of (n + 32 :: nat) :: char) :: nat) = n + 32" if "n \<le> 90" for n
    using that by simp
  then show ?thesis by (auto simp: lower_char_def Let_def)
qed

lemma split_on_single: "c \<notin> set xs \<Longrightarrow> split_on c xs = [xs]"
  by (induction xs) auto

lemma file_name_of_path:
  assumes "CHR ''/'' \<notin> set nm" and "dir = [] \<or> last dir = CHR ''/''"
  shows "last (split_on CHR ''/'' (dir @ nm)) = nm"
proof (cases dir rule: rev_cases)
  case Nil
  then show ?thesis using split_on_single [OF assms(1)] by simp
next
  case (snoc d c)
  then have "dir @ nm = d @ CHR ''/'' # nm" using assms(2) by simp
  then show ?thesis using split_on_single [OF assms(1)] by (simp add: split_on_append_sep)
qed

lemma before_last_snoc: "c \<notin> set ys \<Longrightarrow> before_last c (xs @ c # ys) = xs"
proof -
  assume "c \<notin> set ys"
  then have "dropWhile (\<lambda>x. x \<noteq> c) (rev ys @ c # rev xs) = c # rev xs" by (subst dropWhile_append2) auto
  then show ?thesis by (simp add: before_last_def)
qed

lemma ignored_name_not_eligible:
  assumes "nm \<in> set ALWAYS_IGNORE_EXECUTABLES \<or> (\<exists>m \<in> set ALWAYS_IGNORE_MARKERS. sublist m nm)"
    and "trim nm = nm" "CHR ''/'' \<notin> set nm" and "dir = [] \<or> last dir = CHR ''/''"
    and "to_ascii_lowercase (trim app) = ''exe:'' @ rest" and "before_last CHR '':'' rest = dir @ nm"
    and "set nm \<subseteq> set rest"
  shows "\<not> is_backup_eligible_app_id app"
proof -
  have "set nm \<subseteq> set (to_ascii_lowercase (trim app))" using assms(5,7) by auto
  then have lower: "to_ascii_lowercase nm = nm"
    by (intro map_idI [of nm lower_char, folded to_ascii_lowercase_def]) (auto simp: to_ascii_lowercase_def lower_idem)
  have "is_always_ignored_executable_name nm"
    using assms(1) by (auto simp: is_always_ignored_executable_name_def assms(2) split_on_single [OF assms(3)] lower list_ex_iff)
  moreover have "strip_prefix ''exe:'' (to_ascii_lowercase (trim app)) = Some rest"
    unfolding assms(5) by (rule strip_prefix_append)
  ultimately show ?thesis
    unfolding is_backup_eligible_app_id_def by (simp add: assms(6) file_name_of_path [OF assms(3,4)])
qed

text \<open>C23: no process of a shell, a system service, the desktop or no_land itself is ever frozen for a backup. No row of a run
  has an identifier of the form that discovery gives an executable, exe:<directory><name>:<session> or
  exe:<directory><name> in any case and with any surrounding white space, whose name is one of the names below or
  contains one of the markers below. (Identifiers of other forms, such as those of desktop entries, are not tested.)\<close>

theorem frozen_apps_eligible:
  assumes "reachable env s" and "r \<in> set (backup_apps_table (db s))"
    and "nm \<in> {''accounts-daemon'', ''agetty'', ''avahi-daemon'', ''bash'', ''csh'', ''dash'', ''fish'',
      ''ksh'', ''sh'', ''tcsh'', ''zsh'', ''cron'', ''dbus-broker'', ''dbus-daemon'', ''caddy'',
      ''guacd'', ''vast-caddy'', ''kdeinit'', ''kioslave'', ''networkmanager'',
      ''noland-lifecycle-agent'', ''noland-state-agent'', ''packagekitd'', ''pipewire'',
      ''polkitd'', ''pulseaudio'', ''rtkit-daemon'', ''sshd'', ''startplasma'', ''sunshine'',
      ''systemd'', ''udisksd'', ''upowerd'', ''wireplumber'', ''xorg'', ''xsettingsd''}
      \<or> (\<exists>m \<in> {''sunshine'', ''noland'', ''systemd'', ''startplasma'', ''at-spi'', ''plasmashell'',
        ''plasma_session'', ''kdeinit'', ''kioslave'', ''xsettingsd'', ''dbus-run-session'',
        ''geoclue'', ''xdg-desktop-portal'', ''xdg-document-portal'', ''htop'', ''konsole'',
        ''kate'', ''kwrite'', ''dolphin'', ''spectacle'', ''systemsettings'', ''nvidia-settings''}. sublist m nm)"
    and "trim nm = nm" "CHR ''/'' \<notin> set nm" and "dir = [] \<or> last dir = CHR ''/''"
  shows "(CHR '':'' \<notin> set ses \<longrightarrow> to_ascii_lowercase (trim (ba_app_id r)) \<noteq> ''exe:'' @ dir @ nm @ CHR '':'' # ses)
    \<and> (CHR '':'' \<notin> set (dir @ nm) \<longrightarrow> to_ascii_lowercase (trim (ba_app_id r)) \<noteq> ''exe:'' @ dir @ nm)"
proof -
  from assms(1) have "eligible_rows s"
  proof (induction rule: reachable.induct)
    case (boot s0 r s)
    then have "eligible_rows s0" by (simp add: eligible_rows_def migrated_database_def)
    then show ?case
      using boot.hyps(3) by (rule keeps_run [OF eligible.agent_start_keeps])
  qed (blast intro: keeps_run [OF tick_eligible] keeps_run [OF eligible.serve_keeps]
      keeps_run [OF eligible.status_keeps] keeps_run [OF eligible.agent_start_keeps])+
  with assms(2) have ok: "is_backup_eligible_app_id (ba_app_id r)" by (simp add: eligible_rows_def)
  have ignored: "nm \<in> set ALWAYS_IGNORE_EXECUTABLES \<or> (\<exists>m \<in> set ALWAYS_IGNORE_MARKERS. sublist m nm)"
    using assms(3) unfolding ALWAYS_IGNORE_EXECUTABLES_def ALWAYS_IGNORE_MARKERS_def list.set .
  note never = ignored_name_not_eligible [OF ignored assms(4-6)]
  have "to_ascii_lowercase (trim (ba_app_id r)) \<noteq> ''exe:'' @ dir @ nm @ CHR '':'' # ses" if "CHR '':'' \<notin> set ses"
    using never [of "ba_app_id r" "dir @ nm @ CHR '':'' # ses"] before_last_snoc [OF that, of "dir @ nm"] ok by auto
  moreover have "to_ascii_lowercase (trim (ba_app_id r)) \<noteq> ''exe:'' @ dir @ nm" if "CHR '':'' \<notin> set (dir @ nm)"
    using never [of "ba_app_id r" "dir @ nm"] that ok by (auto simp: before_last_def)
  ultimately show ?thesis by blast
qed

theorem frozen_apps_eligible_witness:
  "\<exists>s. reachable demo_env s \<and> demo_row \<in> set (backup_apps_table (db s))
     \<and> to_ascii_lowercase (trim (ba_app_id demo_row)) \<noteq> ''exe:'' @ ''/usr/bin/'' @ ''bash'' @ CHR '':'' # ''1-s''"
proof -
  obtain s where s: "reachable demo_env s" and r: "demo_row \<in> set (backup_apps_table (db s))"
    using demo_reachable by (metis list.set_intros(1))
  have "trim ''bash'' = ''bash''" by code_simp
  then show ?thesis
    using frozen_apps_eligible [OF s r, of "''bash''" "''/usr/bin/''" "''1-s''"] s r by auto
qed

section \<open>Re-arming after a safe failure\<close>

text \<open>
  An environment in which the capability cannot be read at first. After the run has failed
  safely, the user is active, and the enabled configuration is saved again.
\<close>

definition rearm_env :: "nat env" where
  "rearm_env = demo_env
     \<lparr>monotonic_ms := (\<lambda>w. (w, if w < 800000 then w + 200000 else w + 1)),
      new_v4 := (\<lambda>w. (if w \<le> 800000 then ''run1'' else ''run2'', w)),
      read_capability := (\<lambda>_ w. (if w \<le> 800000 then Inl ''unreadable'' else Inr demo_capability, w))\<rparr>"

lemma rearm_env_fields:
  "now_utc rearm_env = (\<lambda>w. (int w * 1000000, w))"
  "monotonic_ms rearm_env = (\<lambda>w. (w, if w < 800000 then w + 200000 else w + 1))"
  "sleep_ms rearm_env = (\<lambda>ms w. w + ms)"
  "new_v4 rearm_env = (\<lambda>w. (if w \<le> 800000 then ''run1'' else ''run2'', w))"
  "parse_uuid rearm_env = Some"
  "db_fault rearm_env = (\<lambda>w. (None, w))"
  "read_config rearm_env = (\<lambda>w. (Inr (Some demo_config), w))"
  "read_capability rearm_env =
     (\<lambda>_ w. (if w \<le> 800000 then Inl ''unreadable'' else Inr demo_capability, w))"
  "rpc rearm_env = rpc demo_env"
  "foreground_pid rearm_env = (\<lambda>w. (None, w))"
  "provider_apply rearm_env = (\<lambda>_ w. (Inr (), w))"
  "interleaved rearm_env = (\<lambda>w. ([], w))"
  by (simp_all add: rearm_env_def demo_env_fields)

definition rearm_db :: "string \<Rightarrow> int \<Rightarrow> string option \<Rightarrow> string option \<Rightarrow> int option \<Rightarrow> database" where
  "rearm_db st seen run err timeout = \<lparr>
     app_usage = [\<lparr> app_id = ''steam:1'', foreground_active_ms = 0, process_runtime_ms = 200000,
       launch_count = 1, last_active_at = 600000 \<rparr>],
     lifecycle_runs = [\<lparr> run_id = ''run1'', created_at = 800000, run_timeout_reached_at = 800000,
       frozen_at = Some 800000, run_status = ''BACKUP_FAILED_SAFE'',
       run_last_error = Some ''unreadable'', run_shutdown_started_at = None, completed_at = None \<rparr>],
     lifecycle_state = \<lparr> ls_state = st, last_activity_at = Some seen, timeout_reached_at = timeout,
       active_run_id = run, last_error = err, shutdown_started_at = None \<rparr>,
     backup_apps_table = pending_rows ''run1'' 0 [demo_usage ''steam:1''] 800000,
     seen_sessions = [(''s'', ''steam:1'', 600000)] \<rparr>"

definition rearm_sys ::
  "database \<Rightarrow> (activity_source \<Rightarrow> nat option) \<Rightarrow> nat \<Rightarrow> nat \<Rightarrow> nat sys" where
  "rearm_sys d sources anchor w = \<lparr> db = d, current_config = demo_config,
     last_by_source = sources, last_activity_monotonic_ms = anchor, timeout_latched = True,
     last_usage_tick_ms = 400000, candidate_app_ids = {''steam:1''}, world = w,
     trace = [RpcCall ''ListBackupCandidateIds'' (JObject []) (Inr (JArray [JString ''steam:1''])),
       RpcCall ''ListBackupCandidateIds'' (JObject []) (Inr (JArray [JString ''steam:1''])),
       RpcCall ''GetActiveAppSessions'' (JObject [])
         (Inr (JArray [JArray [JString ''s'', JString ''steam:1'']]))] \<rparr>"

definition rearm_failed :: "nat sys" where
  "rearm_failed = rearm_sys (rearm_db ''BACKUP_FAILED_SAFE'' 0 (Some ''run1'')
     (Some ''unreadable'') (Some 800000)) Map.empty 0 800000"

definition rearm_active :: "nat sys" where
  "rearm_active = rearm_sys (rearm_db ''BACKUP_FAILED_SAFE'' 800001 (Some ''run1'')
     (Some ''unreadable'') (Some 800000)) [Keyboard \<mapsto> 800000] 800000 800001"

definition rearm_saved :: "nat sys" where
  "rearm_saved = rearm_sys (rearm_db ''MONITORING/IDLE'' 800001 None None None)
     [Keyboard \<mapsto> 800000] 800000 800001"

lemmas rearm_defs = rearm_env_fields rearm_failed_def rearm_active_def rearm_saved_def
  rearm_sys_def rearm_db_def demo_usage_def

lemma rearm_boot: "agent_start rearm_env (blank_sys 0) = Some (Inr (), demo_booted)"
  by (simp add: exec rearm_defs blank_sys_def demo_booted_def cong: andThen_weak)

lemma rearm_fail: "tick rearm_env (Suc 0) demo_booted = Some (Inr (), rearm_failed)"
  by (simp add: exec rearm_defs demo_booted_def cong: andThen_weak del: backup_attempts.simps(2))

lemma rearm_activity:
  "serve rearm_env (RecordActivity demo_key) rearm_failed = Some (Inr (), rearm_active)"
  by (simp add: exec rearm_defs record_activity_def controller_drift_def demo_key_def debounced_def
      cong: andThen_weak)

lemma rearm_reload: "serve rearm_env ReloadConfig rearm_active = Some (Inr (), rearm_saved)"
  by (simp add: exec rearm_defs reload_config_def runtime_paths_match_def path_eq_def
      cong: andThen_weak)

lemma rearm_tick:
  "\<exists>s req t cap d tr. tick rearm_env (Suc 0) rearm_saved = Some (Inr (), s)
     \<and> trace s = ProviderApplied ''run2'' req t cap demo_config d # tr \<and> world s < 800010"
  by (simp add: exec rearm_defs cong: andThen_weak del: backup_attempts.simps(2))

text \<open>Saving the enabled configuration after a safe failure re-arms the database but not
  the latched timeout: there is a reachable monitoring state in which the user was active less
  than ten milliseconds before, and the next tick backs up and destroys the instance although
  the configured period of 300 seconds has not passed.\<close>

theorem rearmed_run_skips_idle_period:
  "\<exists>s req t cap d tr. reachable rearm_env rearm_saved
     \<and> ls_state (lifecycle_state (db rearm_saved)) = state_as_str MonitoringIdle
     \<and> timeout_ms (current_config rearm_saved) = 300000
     \<and> tick rearm_env (Suc 0) rearm_saved = Some (Inr (), s)
     \<and> trace s = ProviderApplied ''run2'' req t cap demo_config d # tr
     \<and> world s - last_activity_monotonic_ms rearm_saved < 10"
proof -
  have "reachable rearm_env demo_booted"
    using rearm_boot by (rule reachable.boot [rotated 2]) (simp_all add: blank_sys_def)
  then have saved: "reachable rearm_env rearm_saved"
    using rearm_fail rearm_activity rearm_reload reachable.tick reachable.request by meson
  obtain s req t cap d tr where "tick rearm_env (Suc 0) rearm_saved = Some (Inr (), s)"
      and "trace s = ProviderApplied ''run2'' req t cap demo_config d # tr" and "world s < 800010"
    using rearm_tick by (elim exE conjE) (rule that)
  moreover have "ls_state (lifecycle_state (db rearm_saved)) = state_as_str MonitoringIdle"
      "timeout_ms (current_config rearm_saved) = 300000"
      "last_activity_monotonic_ms rearm_saved = 800000"
    by (simp_all add: rearm_saved_def rearm_sys_def rearm_db_def demo_config_fields)
  ultimately show ?thesis
    using saved by (simp del: state_as_str.simps)
qed

end
