(* ===== verification/Probe.thy ===== *)
theory Probe
  imports Prelude
begin

text \<open>
  The authenticated path probes of \<^verbatim>\<open>network-contracts/src/probe.rs\<close>: the three packet
  versions, their byte layout, decoding with and without the tag, and the acknowledgement a
  host sends back. HMAC-SHA-256 is a parameter (\<open>hmac key message\<close>, 32 bytes).
\<close>

section \<open>Layout constants\<close>

definition V1_PACKET_LEN :: nat where "V1_PACKET_LEN = 48"
definition V2_PACKET_LEN :: nat where "V2_PACKET_LEN = 56"
definition V3_ACK_PACKET_LEN :: nat where "V3_ACK_PACKET_LEN = 72"
definition V3_MIN_PACKET_LEN :: nat where "V3_MIN_PACKET_LEN = V3_ACK_PACKET_LEN"
definition V3_MAX_PACKET_LEN :: nat where "V3_MAX_PACKET_LEN = 1500"
definition V1_AUTHENTICATED_LEN :: nat where "V1_AUTHENTICATED_LEN = 32"
definition V2_AUTHENTICATED_LEN :: nat where "V2_AUTHENTICATED_LEN = 40"
definition TAG_LEN :: nat where "TAG_LEN = 16"
definition MAGIC :: bytes where "MAGIC = [0x4E, 0x4C, 0x4E, 0x44]"

lemmas probe_lens =
  V1_PACKET_LEN_def V2_PACKET_LEN_def V3_ACK_PACKET_LEN_def V3_MIN_PACKET_LEN_def
  V3_MAX_PACKET_LEN_def V1_AUTHENTICATED_LEN_def V2_AUTHENTICATED_LEN_def TAG_LEN_def

section \<open>Packets\<close>

datatype packet_type = Probe | Ack

fun packet_type_u8 :: "packet_type \<Rightarrow> byte" where
  "packet_type_u8 Probe = 1"
| "packet_type_u8 Ack = 2"

datatype probe_path = PathUnspecified | Direct | CloudflareTurn

fun probe_path_u8 :: "probe_path \<Rightarrow> byte" where
  "probe_path_u8 PathUnspecified = 0"
| "probe_path_u8 Direct = 1"
| "probe_path_u8 CloudflareTurn = 2"

datatype probe_direction = DirectionUnspecified | ClientToHost | HostToClient

fun probe_direction_u8 :: "probe_direction \<Rightarrow> byte" where
  "probe_direction_u8 DirectionUnspecified = 0"
| "probe_direction_u8 ClientToHost = 1"
| "probe_direction_u8 HostToClient = 2"

text \<open>A UUID is its 128-bit value; \<^verbatim>\<open>as_bytes\<close> is big-endian.\<close>

type_synonym uuid = "128 word"

definition uuid_as_bytes :: "uuid \<Rightarrow> bytes" where "uuid_as_bytes u = to_be 16 (unat u)"
definition uuid_from_bytes :: "bytes \<Rightarrow> uuid" where "uuid_from_bytes bs = of_nat (from_be bs)"

interpretation be128: fixed_codec uuid_as_bytes uuid_from_bytes 16
proof unfold_locales
  have less: "unat x < 256 ^ 16" for x :: uuid
    using unsigned_less [of x, where ?'a = nat] by simp
  show "uuid_from_bytes (uuid_as_bytes x) = x" for x
    using from_to_be [OF less] by (simp add: uuid_from_bytes_def uuid_as_bytes_def)
  show "uuid_as_bytes (uuid_from_bytes bs) = bs" if "length bs = 16" for bs
    using from_be_bound [of bs] to_from_be [OF that] that
    by (simp add: uuid_from_bytes_def uuid_as_bytes_def unat_of_nat)
qed (simp add: uuid_as_bytes_def)

lemmas [simp, codec_simps] = be128.length_enc be128.dec_enc

record probe_packet =
  version :: byte
  packet_type :: packet_type
  path :: probe_path
  sequence :: u64
  session_id :: uuid
  client_monotonic_us :: u64
  profile_generation :: u64
  payload_size :: u16
  observed_payload_size :: u16
  direction :: probe_direction

definition probe_v1 :: "packet_type \<Rightarrow> u64 \<Rightarrow> uuid \<Rightarrow> probe_packet" where
  "probe_v1 t sq ses = \<lparr> version = 1, packet_type = t, path = PathUnspecified, sequence = sq,
     session_id = ses, client_monotonic_us = 0, profile_generation = 0, payload_size = 0,
     observed_payload_size = 0, direction = DirectionUnspecified \<rparr>"

definition probe_v2 :: "packet_type \<Rightarrow> probe_path \<Rightarrow> u64 \<Rightarrow> uuid \<Rightarrow> u64 \<Rightarrow> probe_packet" where
  "probe_v2 t p sq ses us = \<lparr> version = 2, packet_type = t, path = p, sequence = sq,
     session_id = ses, client_monotonic_us = us, profile_generation = 0, payload_size = 0,
     observed_payload_size = 0, direction = DirectionUnspecified \<rparr>"

definition probe_v3 ::
  "packet_type \<Rightarrow> probe_path \<Rightarrow> probe_direction \<Rightarrow> u64 \<Rightarrow> uuid \<Rightarrow> u64 \<Rightarrow> u64 \<Rightarrow> u16 \<Rightarrow> probe_packet"
where
  "probe_v3 t p dir sq ses us gen ps = \<lparr> version = 3, packet_type = t, path = p, sequence = sq,
     session_id = ses, client_monotonic_us = us, profile_generation = gen, payload_size = ps,
     observed_payload_size = 0, direction = dir \<rparr>"

section \<open>Encoding\<close>

text \<open>\<^verbatim>\<open>bytes[a..a + src.len()].copy_from_slice(src)\<close>.\<close>

definition copy_at :: "nat \<Rightarrow> bytes \<Rightarrow> bytes \<Rightarrow> bytes" where
  "copy_at a src bs = take a bs @ src @ drop (a + length src) bs"

definition slice :: "nat \<Rightarrow> nat \<Rightarrow> bytes \<Rightarrow> bytes" where
  "slice a b bs = take (b - a) (drop a bs)"

definition authentication_tag :: "(bytes \<Rightarrow> bytes \<Rightarrow> bytes) \<Rightarrow> bytes \<Rightarrow> bytes \<Rightarrow> bytes" where
  "authentication_tag hmac payload token = take TAG_LEN (hmac token payload)"

text \<open>The packet and authenticated lengths, or \<open>None\<close> where \<^verbatim>\<open>encode\<close> returns no bytes.\<close>

definition encode_lengths :: "probe_packet \<Rightarrow> (nat \<times> nat) option" where
  "encode_lengths p =
     (if version p = 1 then Some (V1_PACKET_LEN, V1_AUTHENTICATED_LEN)
      else if version p = 2 then Some (V2_PACKET_LEN, V2_AUTHENTICATED_LEN)
      else if version p = 3 then
        (let len = (if packet_type p = Ack then V3_ACK_PACKET_LEN else unat (payload_size p)) in
         if \<not> (V3_MIN_PACKET_LEN \<le> len \<and> len \<le> V3_MAX_PACKET_LEN) then None
         else Some (len, len - TAG_LEN))
      else None)"

text \<open>The vector before the tag is written.\<close>

definition encode_body :: "probe_packet \<Rightarrow> nat \<Rightarrow> bytes" where
  "encode_body p len =
     (let b0 = replicate len 0;
          b1 = copy_at 0 MAGIC b0;
          b2 = b1[4 := version p];
          b3 = b2[5 := packet_type_u8 (packet_type p)];
          b4 = b3[6 := (if version p \<ge> 2 then probe_path_u8 (path p) else 0)];
          b5 = b4[7 := (if version p = 3 then probe_direction_u8 (direction p) else 0)];
          b6 = copy_at 8 (u64_to_be (sequence p)) b5;
          b7 = copy_at 16 (uuid_as_bytes (session_id p)) b6;
          b8 = (if version p \<ge> 2 then copy_at 32 (u64_to_be (client_monotonic_us p)) b7 else b7)
      in if version p = 3
         then copy_at 50 (u16_to_be (observed_payload_size p))
               (copy_at 48 (u16_to_be (payload_size p))
                 (copy_at 40 (u64_to_be (profile_generation p)) b8))
         else b8)"

definition encode :: "(bytes \<Rightarrow> bytes \<Rightarrow> bytes) \<Rightarrow> probe_packet \<Rightarrow> bytes \<Rightarrow> bytes" where
  "encode hmac p token =
     (case encode_lengths p of
        None \<Rightarrow> []
      | Some (len, authenticated_len) \<Rightarrow>
          let bs = encode_body p len;
              tag = authentication_tag hmac (take authenticated_len bs) token
          in copy_at authenticated_len tag bs)"

section \<open>Decoding\<close>

definition expected_len :: "bytes \<Rightarrow> nat option" where
  "expected_len bs =
     (if bs ! 4 = 1 \<and> bs ! 7 = 0 then Some V1_PACKET_LEN
      else if bs ! 4 = 2 \<and> bs ! 7 = 0 then Some V2_PACKET_LEN
      else if bs ! 4 = 3 \<and> V3_MIN_PACKET_LEN \<le> length bs \<and> length bs \<le> V3_MAX_PACKET_LEN
      then Some (length bs) else None)"

definition decode_type :: "byte \<Rightarrow> packet_type option" where
  "decode_type b = (if b = 1 then Some Probe else if b = 2 then Some Ack else None)"

definition decode_path :: "byte \<Rightarrow> byte \<Rightarrow> probe_path option" where
  "decode_path v b =
     (if (v = 1 \<or> v = 2) \<and> b = 0 then Some PathUnspecified
      else if (v = 2 \<or> v = 3) \<and> b = 1 then Some Direct
      else if (v = 2 \<or> v = 3) \<and> b = 2 then Some CloudflareTurn
      else None)"

definition decode_direction :: "byte \<Rightarrow> byte \<Rightarrow> probe_direction option" where
  "decode_direction v b =
     (if (v = 1 \<or> v = 2 \<or> v = 3) \<and> b = 0 then Some DirectionUnspecified
      else if v = 3 \<and> b = 1 then Some ClientToHost
      else if v = 3 \<and> b = 2 then Some HostToClient
      else None)"

definition v3_sizes_ok :: "packet_type \<Rightarrow> u16 \<Rightarrow> u16 \<Rightarrow> bytes \<Rightarrow> bool" where
  "v3_sizes_ok t ps obs bs =
     (slice 52 56 bs = replicate 4 0
      \<and> (case t of
           Probe \<Rightarrow> \<not> (unat ps \<noteq> length bs \<or> obs \<noteq> 0)
         | Ack \<Rightarrow> \<not> (length bs \<noteq> V3_ACK_PACKET_LEN \<or> unat ps < V3_MIN_PACKET_LEN
                      \<or> unat ps > V3_MAX_PACKET_LEN \<or> obs \<noteq> ps)))"

definition decode_unverified :: "bytes \<Rightarrow> probe_packet option" where
  "decode_unverified bs =
     (if length bs < 8 \<or> slice 0 4 bs \<noteq> MAGIC then None
      else let v = bs ! 4 in
      Option.bind (expected_len bs) (\<lambda>len.
      if length bs \<noteq> len then None else
      Option.bind (decode_type (bs ! 5)) (\<lambda>t.
      Option.bind (decode_path v (bs ! 6)) (\<lambda>p.
      Option.bind (decode_direction v (bs ! 7)) (\<lambda>dir.
      let ps = (if v = 3 then u16_from_be (slice 48 50 bs) else 0);
          obs = (if v = 3 then u16_from_be (slice 50 52 bs) else 0) in
      if v = 3 \<and> \<not> v3_sizes_ok t ps obs bs then None
      else Some \<lparr> version = v, packet_type = t, path = p,
        sequence = u64_from_be (slice 8 16 bs),
        session_id = uuid_from_bytes (slice 16 32 bs),
        client_monotonic_us = (if v \<ge> 2 then u64_from_be (slice 32 40 bs) else 0),
        profile_generation = (if v = 3 then u64_from_be (slice 40 48 bs) else 0),
        payload_size = ps, observed_payload_size = obs, direction = dir \<rparr>)))))"

definition decode_and_verify ::
  "(bytes \<Rightarrow> bytes \<Rightarrow> bytes) \<Rightarrow> bytes \<Rightarrow> bytes \<Rightarrow> probe_packet option" where
  "decode_and_verify hmac bs token =
     Option.bind (decode_unverified bs) (\<lambda>packet.
     Option.bind
       (if version packet = 1 then Some V1_AUTHENTICATED_LEN
        else if version packet = 2 then Some V2_AUTHENTICATED_LEN
        else if version packet = 3 then (if length bs < TAG_LEN then None else Some (length bs - TAG_LEN))
        else None) (\<lambda>n.
     if authentication_tag hmac (take n bs) token = slice n (n + TAG_LEN) bs
     then Some packet else None))"

definition acknowledge_probe ::
  "(bytes \<Rightarrow> bytes \<Rightarrow> bytes) \<Rightarrow> bytes \<Rightarrow> bytes \<Rightarrow> bytes option" where
  "acknowledge_probe hmac bs token =
     Option.bind (decode_and_verify hmac bs token) (\<lambda>probe.
     if packet_type probe \<noteq> Probe then None
     else Option.bind
       (if version probe = 3
        then (if length bs < 2 ^ 16 then Some (of_nat (length bs)) else None) else Some 0)
       (\<lambda>obs. Some (encode hmac
          (probe\<lparr>packet_type := Ack, observed_payload_size := obs\<rparr>) token)))"

section \<open>The layout of an encoded packet\<close>

lemma copy_at_zeros:
  "length pre = a \<Longrightarrow> length src \<le> n \<Longrightarrow>
   copy_at a src (pre @ replicate n 0) = (pre @ src) @ replicate (n - length src) 0"
  by (simp add: copy_at_def)

lemma set_zero:
  "length pre = i \<Longrightarrow> 0 < n \<Longrightarrow> (pre @ replicate n 0)[i := x] = (pre @ [x]) @ replicate (n - 1) 0"
  by (cases n) (simp_all add: list_update_append)

lemma version_order [simp]: "\<not> (2 :: byte) \<le> 1" "(2 :: byte) \<le> 3"
  by (simp_all add: word_le_nat_alt)

text \<open>Everything a packet says, in wire order; padding and tag follow.\<close>

definition header :: "probe_packet \<Rightarrow> bytes" where
  "header p = MAGIC @ [version p, packet_type_u8 (packet_type p),
       if version p \<ge> 2 then probe_path_u8 (path p) else 0,
       if version p = 3 then probe_direction_u8 (direction p) else 0]
     @ u64_to_be (sequence p) @ uuid_as_bytes (session_id p)
     @ (if version p \<ge> 2 then u64_to_be (client_monotonic_us p) else [])
     @ (if version p = 3
        then u64_to_be (profile_generation p) @ u16_to_be (payload_size p)
             @ u16_to_be (observed_payload_size p) else [])"

lemma length_MAGIC [simp]: "length MAGIC = 4"
  by (simp add: MAGIC_def)

lemma length_header:
  "length (header p) = (if version p = 3 then 52 else if version p \<ge> 2 then 40 else 32)"
  by (simp add: header_def)

lemma encode_body_layout:
  assumes "length (header p) \<le> len"
  shows "encode_body p len = header p @ replicate (len - length (header p)) 0"
proof -
  have b1: "copy_at 0 MAGIC (replicate len 0) = MAGIC @ replicate (len - 4) 0"
    using copy_at_zeros [of "[]" 0 MAGIC len] assms by (simp add: length_header split: if_splits)
  show ?thesis
    using assms
    by (simp add: encode_body_def header_def Let_def b1 set_zero copy_at_zeros del: append_assoc
        split: if_splits)
qed

text \<open>What is relied on of the MAC: it has the 32 bytes of SHA-256.\<close>

definition mac_ok :: "(bytes \<Rightarrow> bytes \<Rightarrow> bytes) \<Rightarrow> bool" where
  "mac_ok hmac \<longleftrightarrow> (\<forall>k m. length (hmac k m) = 32)"

lemma length_tag [simp]: "mac_ok hmac \<Longrightarrow> length (authentication_tag hmac m token) = 16"
  by (simp add: authentication_tag_def mac_ok_def probe_lens)

lemma encode_lengths_bounds:
  "encode_lengths p = Some (len, n) \<Longrightarrow> length (header p) \<le> n \<and> len = n + 16"
  by (auto simp: encode_lengths_def length_header probe_lens Let_def split: if_splits)

lemma encode_layout:
  assumes "mac_ok hmac" and "encode_lengths p = Some (len, n)"
  shows "encode hmac p token =
    (header p @ replicate (n - length (header p)) 0)
    @ authentication_tag hmac (header p @ replicate (n - length (header p)) 0) token"
proof -
  let ?h = "length (header p)"
  have b: "?h \<le> n" "len = n + 16"
    using encode_lengths_bounds [OF assms(2)] by auto
  have "len - ?h = (n - ?h) + 16" using b by simp
  then have zeros: "replicate (len - ?h) 0 = replicate (n - ?h) (0 :: byte) @ replicate 16 0"
    by (simp only: replicate_add)
  have "?h \<le> len" using b by simp
  then have body: "encode_body p len = (header p @ replicate (n - ?h) 0) @ replicate 16 0"
    by (simp only: encode_body_layout zeros append_assoc)
  have "take n (encode_body p len) = header p @ replicate (n - ?h) 0"
    unfolding body using b by simp
  then show ?thesis
    unfolding encode_def assms(2)
    using b(1) assms(1) by (simp add: Let_def body copy_at_zeros del: append_assoc)
qed

text \<open>
  The packets of each version that the protocol can carry: a version-3 packet names its path,
  a probe its own size and an acknowledgement the size it observed.
\<close>

definition packet_ok :: "probe_packet \<Rightarrow> bool" where
  "packet_ok p \<longleftrightarrow>
     (if version p = 3
      then path p \<noteq> PathUnspecified
        \<and> V3_MIN_PACKET_LEN \<le> unat (payload_size p) \<and> unat (payload_size p) \<le> V3_MAX_PACKET_LEN
        \<and> observed_payload_size p = (case packet_type p of Probe \<Rightarrow> 0 | Ack \<Rightarrow> payload_size p)
      else (version p = 1 \<and> path p = PathUnspecified \<and> client_monotonic_us p = 0 \<or> version p = 2)
        \<and> profile_generation p = 0 \<and> payload_size p = 0 \<and> observed_payload_size p = 0
        \<and> direction p = DirectionUnspecified)"

lemma packet_ok_version: "packet_ok p \<Longrightarrow> version p = 1 \<or> version p = 2 \<or> version p = 3"
  by (auto simp: packet_ok_def split: if_splits)

lemma packet_ok_lengths:
  assumes "packet_ok p"
  obtains len n where "encode_lengths p = Some (len, n)"
proof -
  have "encode_lengths p \<noteq> None"
    using assms by (auto simp: packet_ok_def encode_lengths_def probe_lens Let_def split: if_splits)
  then show ?thesis using that by auto
qed

lemma decode_type_u8 [simp]: "decode_type (packet_type_u8 t) = Some t"
  by (cases t) (simp_all add: decode_type_def)

lemma decode_path_u8: "v = 2 \<or> v = 3 \<and> p \<noteq> PathUnspecified \<Longrightarrow> decode_path v (probe_path_u8 p) = Some p"
  by (cases p) (auto simp: decode_path_def)

lemma decode_direction_u8 [simp]: "decode_direction 3 (probe_direction_u8 d) = Some d"
  by (cases d) (simp_all add: decode_direction_def)

lemmas slices = slice_def header_def nth_append

lemma decode_header_v1:
  assumes "version p = 1" and "packet_ok p" and "length rest = 16"
  shows "decode_unverified (header p @ rest) = Some p"
  using assms
  by (cases p) (simp add: decode_unverified_def expected_len_def slices packet_ok_def
      decode_path_def decode_direction_def probe_lens MAGIC_def Let_def)

lemma decode_header_v2:
  assumes "version p = 2" and "packet_ok p" and "length rest = 16"
  shows "decode_unverified (header p @ rest) = Some p"
  using assms
  by (cases p) (simp add: decode_unverified_def expected_len_def slices packet_ok_def
      decode_path_u8 decode_direction_def probe_lens MAGIC_def Let_def)

lemma decode_header_v3:
  assumes "version p = 3" and "packet_ok p" and "slice 0 4 rest = replicate 4 0"
    and "length rest = (case packet_type p of Probe \<Rightarrow> unat (payload_size p) | Ack \<Rightarrow> 72) - 52"
  shows "decode_unverified (header p @ rest) = Some p"
proof -
  have "length (header p @ rest) = (case packet_type p of Probe \<Rightarrow> unat (payload_size p) | Ack \<Rightarrow> 72)"
    using assms(1,2,4) by (cases "packet_type p") (auto simp: length_header packet_ok_def probe_lens)
  then have "expected_len (header p @ rest) = Some (length (header p @ rest))"
      and "v3_sizes_ok (packet_type p) (payload_size p) (observed_payload_size p) (header p @ rest)"
    using assms
    by (cases "packet_type p"; simp add: expected_len_def v3_sizes_ok_def packet_ok_def probe_lens
        slices MAGIC_def)+
  then show ?thesis
    using assms
    by (cases p) (simp add: decode_unverified_def slices packet_ok_def decode_path_u8 MAGIC_def Let_def)
qed

lemma decode_unverified_encode:
  assumes "mac_ok hmac" and "packet_ok p"
  shows "decode_unverified (encode hmac p token) = Some p"
proof -
  obtain len n where el: "encode_lengths p = Some (len, n)"
    using packet_ok_lengths [OF assms(2)] .
  note layout = encode_layout [OF assms(1) el]
  note ok = assms(2) [unfolded packet_ok_def probe_lens]
  consider "version p = 1" | "version p = 2" | "version p = 3"
    using packet_ok_version [OF assms(2)] by blast
  then show ?thesis
  proof cases
    case 1
    then have "n = 32" using el by (simp add: encode_lengths_def probe_lens)
    with 1 assms show ?thesis
      unfolding layout by (simp add: length_header decode_header_v1)
  next
    case 2
    then have "n = 40" using el by (simp add: encode_lengths_def probe_lens)
    with 2 assms show ?thesis
      unfolding layout by (simp add: length_header decode_header_v2)
  next
    case 3
    then have n: "n = (case packet_type p of Probe \<Rightarrow> unat (payload_size p) | Ack \<Rightarrow> 72) - 16"
      using el ok by (cases "packet_type p") (auto simp: encode_lengths_def probe_lens Let_def)
    then have "56 \<le> n"
      using 3 ok by (cases "packet_type p") auto
    then have "slice 0 4 (replicate (n - 52) 0 @ tag) = replicate 4 (0 :: byte)" for tag
      by (simp add: slice_def min_def)
    then show ?thesis
      unfolding layout using 3 assms n \<open>56 \<le> n\<close>
      by (simp add: length_header decode_header_v3)
  qed
qed

text \<open>The authenticated prefix and the tag of an encoded packet.\<close>

definition authenticated_len :: "probe_packet \<Rightarrow> bytes \<Rightarrow> nat" where
  "authenticated_len p bs =
     (if version p = 1 then 32 else if version p = 2 then 40 else length bs - 16)"

lemma decode_and_verify_iff:
  "decode_and_verify hmac bs token = Some p \<longleftrightarrow>
     decode_unverified bs = Some p
     \<and> authentication_tag hmac (take (authenticated_len p bs) bs) token
       = slice (authenticated_len p bs) (authenticated_len p bs + 16) bs"
proof -
  have "decode_unverified bs = Some p \<Longrightarrow>
      version p = 1 \<or> version p = 2 \<or> version p = 3 \<and> 72 \<le> length bs" for p
    by (auto simp: decode_unverified_def expected_len_def Let_def probe_lens bind_eq_Some_conv
        split: if_splits)
  then show ?thesis
    by (auto simp: decode_and_verify_def authenticated_len_def probe_lens bind_eq_Some_conv
        split: if_splits)
qed

lemma length_decoded:
  assumes "decode_unverified bs = Some p"
  shows "length bs = (if version p = 1 then 48 else if version p = 2 then 56
      else case packet_type p of Probe \<Rightarrow> unat (payload_size p) | Ack \<Rightarrow> 72)"
    and "packet_ok p"
  using assms
  by (auto simp: decode_unverified_def expected_len_def Let_def probe_lens bind_eq_Some_conv
      v3_sizes_ok_def decode_type_def decode_path_def decode_direction_def packet_ok_def
      split: if_splits packet_type.splits)

lemma take_slice: "a \<le> b \<Longrightarrow> take b bs = take a bs @ slice a b bs"
  unfolding slice_def by (metis add_diff_inverse_nat not_less take_add)

lemma take_word: "32 \<le> length bs \<Longrightarrow> take 32 bs =
    slice 0 4 bs @ [bs ! 4, bs ! 5, bs ! 6, bs ! 7] @ slice 8 16 bs @ slice 16 32 bs"
proof -
  assume len: "32 \<le> length bs"
  have "take 8 bs = slice 0 4 bs @ [bs ! 4, bs ! 5, bs ! 6, bs ! 7]"
    using len take_slice [of 4 8 bs]
    by (simp add: slice_def take_Suc_conv_app_nth numeral_eq_Suc del: take_Suc_Cons)
  then show ?thesis
    using take_slice [of 8 16 bs] take_slice [of 16 32 bs] by simp
qed

lemma decode_type_Some: "decode_type b = Some t \<longleftrightarrow> b = packet_type_u8 t"
  by (cases t) (auto simp: decode_type_def)

lemma decode_path_Some:
  "decode_path v b = Some p \<Longrightarrow> b = (if v \<ge> 2 then probe_path_u8 p else 0)"
  by (auto simp: decode_path_def split: if_splits)

lemma decode_direction_Some:
  "decode_direction v b = Some d \<Longrightarrow> b = (if v = 3 then probe_direction_u8 d else 0)"
  by (auto simp: decode_direction_def split: if_splits)

lemma length_slice [simp]: "b \<le> length bs \<Longrightarrow> length (slice a b bs) = b - a"
  by (simp add: slice_def)

lemma header_decoded:
  assumes "decode_unverified bs = Some p"
  shows "take (length (header p)) bs = header p"
proof -
  note len = length_decoded [OF assms]
  have l32: "32 \<le> length bs" and l40: "version p \<ge> 2 \<Longrightarrow> 40 \<le> length bs"
      and l52: "version p = 3 \<Longrightarrow> 52 \<le> length bs"
    using len packet_ok_version [OF len(2)]
    by (auto simp: packet_ok_def probe_lens split: packet_type.splits)
  have f: "slice 0 4 bs = MAGIC" "version p = bs ! 4" "bs ! 5 = packet_type_u8 (packet_type p)"
      "bs ! 6 = (if version p \<ge> 2 then probe_path_u8 (path p) else 0)"
      "bs ! 7 = (if version p = 3 then probe_direction_u8 (direction p) else 0)"
      "u64_to_be (sequence p) = slice 8 16 bs" "uuid_as_bytes (session_id p) = slice 16 32 bs"
    using assms l32
    by (auto simp: decode_unverified_def Let_def bind_eq_Some_conv decode_type_Some
        be64.enc_dec be128.enc_dec split: if_splits dest: decode_path_Some decode_direction_Some)
  have us: "version p \<ge> 2 \<Longrightarrow> u64_to_be (client_monotonic_us p) = slice 32 40 bs"
    using assms l40
    by (auto simp: decode_unverified_def Let_def bind_eq_Some_conv be64.enc_dec split: if_splits)
  have v3: "version p = 3 \<Longrightarrow> u64_to_be (profile_generation p) @ u16_to_be (payload_size p)
      @ u16_to_be (observed_payload_size p) = slice 40 48 bs @ slice 48 50 bs @ slice 50 52 bs"
    using assms l52
    by (auto simp: decode_unverified_def Let_def bind_eq_Some_conv be64.enc_dec be16.enc_dec
        split: if_splits)
  have head: "header p = take 32 bs @ (if version p \<ge> 2 then slice 32 40 bs else [])
      @ (if version p = 3 then slice 40 48 bs @ slice 48 50 bs @ slice 50 52 bs else [])"
    by (simp add: header_def take_word [OF l32] f [symmetric] us v3)
  show ?thesis
    unfolding head using l32 l40 l52 take_slice [of 32 40 bs] take_slice [of 40 48 bs]
      take_slice [of 48 50 bs] take_slice [of 50 52 bs]
    by auto
qed

section \<open>Properties\<close>

lemma decode_verified:
  assumes "mac_ok hmac" and "packet_ok p"
  shows "decode_and_verify hmac (encode hmac p token) token = Some p"
proof -
  obtain len n where el: "encode_lengths p = Some (len, n)"
    using packet_ok_lengths [OF assms(2)] .
  let ?m = "header p @ replicate (n - length (header p)) 0"
  have enc: "encode hmac p token = ?m @ authentication_tag hmac ?m token"
    using encode_layout [OF assms(1) el] .
  have b: "length (header p) \<le> n" "len = n + 16"
    using encode_lengths_bounds [OF el] by auto
  then have m: "length ?m = n" by simp
  have "length (encode hmac p token) = n + 16"
    unfolding enc using m assms(1) by simp
  then have "authenticated_len p (encode hmac p token) = n"
    using el by (auto simp: authenticated_len_def encode_lengths_def probe_lens split: if_splits)
  moreover have "take n (encode hmac p token) = ?m"
      and "slice n (n + 16) (encode hmac p token) = authentication_tag hmac ?m token"
    unfolding enc slice_def using m assms(1) by simp_all
  ultimately show ?thesis
    by (simp add: decode_and_verify_iff decode_unverified_encode [OF assms])
qed

lemma length_verified:
  "decode_and_verify hmac bs token = Some p \<Longrightarrow> version p = 3 \<Longrightarrow> length bs < 2 ^ 16"
  using length_decoded [of bs p]
  by (auto simp: decode_and_verify_iff packet_ok_def probe_lens split: packet_type.splits)

text \<open>C25: every packet the protocol can carry survives encoding and authenticated decoding under
  the same token.\<close>

theorem probe_roundtrip:
  assumes "mac_ok hmac" and "packet_ok p"
  shows "decode_and_verify hmac (encode hmac p token) token = Some p"
  using assms by (rule decode_verified)

text \<open>A MAC for the witnesses: 32 bytes of the message, padded.\<close>

definition demo_mac :: "bytes \<Rightarrow> bytes \<Rightarrow> bytes" where
  "demo_mac k m = take 32 (k @ m @ replicate 32 7)"

lemma demo_mac_ok [simp]: "mac_ok demo_mac"
  by (auto simp: mac_ok_def demo_mac_def min_def)

definition demo_probe :: probe_packet where
  "demo_probe = probe_v3 Probe Direct ClientToHost 9 5 123 4 100"

lemma demo_probe_ok [simp]: "packet_ok demo_probe"
  by (simp add: packet_ok_def demo_probe_def probe_v3_def probe_lens)

theorem probe_roundtrip_witness:
  "decode_and_verify demo_mac (encode demo_mac demo_probe [1, 2]) [1, 2] = Some demo_probe"
  by (rule probe_roundtrip) simp_all

text \<open>Decoding is canonical: a datagram that passes authenticated decoding carries only a
  well-formed packet, begins with exactly the header encoding writes, and except for the padding
  of a version-3 probe it is the encoding of the packet byte for byte.\<close>

theorem probe_canonical:
  assumes "mac_ok hmac" and "decode_and_verify hmac bs token = Some p"
  shows "packet_ok p \<and> take (length (header p)) bs = header p
    \<and> (version p \<noteq> 3 \<or> packet_type p = Ack \<longrightarrow> bs = encode hmac p token)"
proof -
  have dec: "decode_unverified bs = Some p"
      and tag: "authentication_tag hmac (take (authenticated_len p bs) bs) token
        = slice (authenticated_len p bs) (authenticated_len p bs + 16) bs"
    using assms(2) by (simp_all add: decode_and_verify_iff)
  note len = length_decoded [OF dec] and head = header_decoded [OF dec]
  have "bs = encode hmac p token" if short: "version p \<noteq> 3 \<or> packet_type p = Ack"
  proof -
    let ?n = "authenticated_len p bs"
    have n: "length bs = ?n + 16" "encode_lengths p = Some (length bs, ?n)"
      using len packet_ok_version [OF len(2)] short
      by (auto simp: authenticated_len_def encode_lengths_def probe_lens)
    have "take ?n bs = header p @ replicate (?n - length (header p)) 0"
    proof (cases "version p = 3")
      case True
      have "slice 52 56 bs = replicate 4 0"
        using dec True
        by (auto simp: decode_unverified_def Let_def bind_eq_Some_conv v3_sizes_ok_def
            split: if_splits)
      with True short len head take_slice [of 52 56 bs] show ?thesis
        by (simp add: authenticated_len_def length_header)
    next
      case False
      with head packet_ok_version [OF len(2)] show ?thesis
        by (auto simp: authenticated_len_def length_header)
    qed
    with tag encode_layout [OF assms(1) n(2)] take_slice [of ?n "?n + 16" bs] n(1) show ?thesis
      by simp
  qed
  with len head show ?thesis by blast
qed

theorem probe_canonical_witness:
  "\<exists>bs. decode_and_verify demo_mac bs [1] = Some (probe_v1 Probe 3 4)
     \<and> bs = encode demo_mac (probe_v1 Probe 3 4) [1]"
proof -
  have ok: "packet_ok (probe_v1 Probe 3 4)"
    by (simp add: packet_ok_def probe_v1_def)
  have "decode_and_verify demo_mac (encode demo_mac (probe_v1 Probe 3 4) [1]) [1]
      = Some (probe_v1 Probe 3 4)"
    using decode_unverified_encode [OF demo_mac_ok ok, of "[1]"] by code_simp
  with probe_canonical [OF demo_mac_ok this] show ?thesis
    by (auto simp: probe_v1_def)
qed

text \<open>C26: an acknowledgement is sent only for an authentic probe, decodes to that probe's
  sequence, session, path and times, reports the size that arrived, and is never longer than the
  datagram it answers.\<close>

theorem acknowledge_probe_correct:
  assumes "mac_ok hmac" and "acknowledge_probe hmac bs token = Some ack"
  shows "\<exists>p. decode_and_verify hmac bs token = Some p \<and> packet_type p = Probe
    \<and> decode_and_verify hmac ack token = Some (p\<lparr>packet_type := Ack,
        observed_payload_size := (if version p = 3 then of_nat (length bs) else 0)\<rparr>)
    \<and> length ack \<le> length bs"
proof -
  obtain p where p: "decode_and_verify hmac bs token = Some p" and t: "packet_type p = Probe"
      and ack: "ack = encode hmac (p\<lparr>packet_type := Ack,
        observed_payload_size := (if version p = 3 then of_nat (length bs) else 0)\<rparr>) token"
    using assms(2) by (auto simp: acknowledge_probe_def bind_eq_Some_conv split: if_splits)
  let ?a = "p\<lparr>packet_type := Ack,
        observed_payload_size := (if version p = 3 then of_nat (length bs) else 0)\<rparr>"
  have dec: "decode_unverified bs = Some p" using p by (simp add: decode_and_verify_iff)
  note len = length_decoded [OF dec]
  have ok: "packet_ok ?a"
    using len t by (auto simp: packet_ok_def)
  have answer: "decode_and_verify hmac ack token = Some ?a"
    unfolding ack by (rule decode_verified) (use assms(1) ok in simp_all)
  then have "decode_unverified ack = Some ?a" by (simp add: decode_and_verify_iff)
  note len' = length_decoded(1) [OF this]
  have "length ack \<le> length bs"
    using len len' t packet_ok_version [OF len(2)] by (auto simp: packet_ok_def probe_lens)
  with p t answer show ?thesis by blast
qed

theorem acknowledge_probe_correct_witness:
  "\<exists>ack. acknowledge_probe demo_mac (encode demo_mac demo_probe [1]) [1] = Some ack
     \<and> length ack \<le> length (encode demo_mac demo_probe [1])"
proof -
  have "decode_and_verify demo_mac (encode demo_mac demo_probe [1]) [1] = Some demo_probe"
    by (rule decode_verified) simp_all
  then have "\<exists>ack. acknowledge_probe demo_mac (encode demo_mac demo_probe [1]) [1] = Some ack"
    by (auto simp: acknowledge_probe_def demo_probe_def probe_v3_def dest: length_verified)
  then show ?thesis
    using acknowledge_probe_correct [OF demo_mac_ok] by blast
qed

end
