(* ===== verification/Turn_Manager.thy ===== *)
theory Turn_Manager
  imports Complex_Main Probe
begin

text \<open>
  The host's connection state (\<^verbatim>\<open>network-agent/src/turn_manager.rs\<close>,
  \<^verbatim>\<open>link_profile.rs\<close>) over the contract types of \<^verbatim>\<open>network-contracts/src/state.rs\<close> and
  \<^verbatim>\<open>control.rs\<close>: connection profiles are prepared, committed or aborted as a transaction
  with a lease, journaled in a state file, over the MTU of the WireGuard interface. Every
  input/output call may succeed, fail before or after its effect, or be the point at which
  the process dies; the clock and the TURN client are parameters. Error texts are kept
  without the values the code formats into them.
\<close>

section \<open>Contract types\<close>

datatype transport_kind = TransportDirect | TransportCloudflareTurn

record network_endpoint =
  host :: string
  port :: u16

definition endpoint_validate :: "network_endpoint \<Rightarrow> (string, unit) result" where
  "endpoint_validate e =
     (if is_blank (host e) then Inl ''endpoint host must not be empty''
      else if prefix ''['' (host e) \<or> suffix '']'' (host e)
      then Inl ''endpoint host must not persist IPv6 brackets''
      else if port e = 0 then Inl ''endpoint port must not be zero''
      else Inr ())"

datatype measurement_method =
  Unverified | ConfiguredFallback | AuthenticatedProbe | PacketizationLayerProbe

text \<open>An \<^verbatim>\<open>f64\<close> up to its finite value; the sources only compare these.\<close>

datatype f64 = F64 rat | F64_Inf bool | F64_NaN

record packet_limits =
  forward_payload_ceiling :: "u16 option"
  reverse_payload_ceiling :: "u16 option"
  verified_inner_mtu :: "u16 option"
  observed_client_mtu :: "u16 option"
  observed_host_mtu :: "u16 option"
  confidence :: f64
  measurement_method :: measurement_method

definition CONNECTION_PROFILE_SCHEMA_VERSION :: u16 where "CONNECTION_PROFILE_SCHEMA_VERSION = 1"
definition NETWORK_STATE_SCHEMA_VERSION :: u16 where "NETWORK_STATE_SCHEMA_VERSION = 1"

record connection_profile =
  schema_version :: u16
  instance_id :: string
  profile_revision :: u64
  transition_id :: uuid
  desired_transport :: transport_kind
  endpoint :: network_endpoint
  profile_allocation :: "u64 option"
  inner_mtu :: u16
  packet_limits :: packet_limits
  requested_media_packet_size :: "u16 option"
  media_session_generation :: "u64 option"
  created_at :: string

definition mtu_in_range :: "u16 \<Rightarrow> bool" where
  "mtu_in_range m \<longleftrightarrow> 576 \<le> m \<and> m \<le> 1500"

definition confidence_ok :: "f64 \<Rightarrow> bool" where
  "confidence_ok c = (case c of F64 q \<Rightarrow> 0 \<le> q \<and> q \<le> 1 | _ \<Rightarrow> False)"

definition profile_validate :: "connection_profile \<Rightarrow> (string, unit) result" where
  "profile_validate p =
     (if schema_version p \<noteq> CONNECTION_PROFILE_SCHEMA_VERSION
      then Inl ''unsupported connection profile schema version''
      else if is_blank (instance_id p) then Inl ''profile instance ID must not be empty''
      else if profile_revision p = 0 then Inl ''profile revision must not be zero''
      else res_bind (endpoint_validate (endpoint p)) (\<lambda>_.
        if \<not> mtu_in_range (inner_mtu p)
        then Inl ''profile inner MTU must be between 576 and 1500 bytes''
        else if desired_transport p = TransportCloudflareTurn \<and> profile_allocation p = None
        then Inl ''TURN profile requires an allocation generation''
        else if \<not> confidence_ok (confidence (packet_limits p))
        then Inl ''packet-limit confidence must be between zero and one''
        else Inr ()))"

record pending_profile =
  pending_operation :: uuid
  pending_target :: connection_profile
  previous_mtu :: u16
  prepared_at :: string
  lease_expires_at :: string

record host_link_state =
  interface_name :: string
  observed_mtu :: "u16 option"
  applied_profile_revision :: u64
  pending_transition_id :: "uuid option"
  link_transport :: "transport_kind option"

datatype turn_runtime_status =
  Disabled | AwaitingCredentials | Preparing | Ready | TurnDegraded | TurnFailed

record host_network_state =
  state_schema :: u16
  host_revision :: u64
  updated_at :: string
  host_instance :: string
  host_session :: uuid
  agent_version :: string
  turn_status :: turn_runtime_status
  allocation_generation :: u64
  relay_endpoint :: "network_endpoint option"
  allocation_expires_at :: "string option"
  credential_expires_at :: "string option"
  observed_transport :: "transport_kind option"
  link_state :: host_link_state
  committed_profile :: "connection_profile option"
  committed_operation :: "uuid option"
  pending :: "pending_profile option"

record prepare_profile_request =
  prep_operation :: uuid
  expected_profile_revision :: u64
  requested_lease :: string
  requested_profile :: connection_profile

record finish_profile_request =
  fin_operation :: uuid
  fin_transition :: uuid
  fin_revision :: u64

record prepare_turn_request =
  turn_operation :: uuid
  requested_generation :: u64
  turn_urls :: "string list"
  turn_credential_expiry :: string
  expected_peer_ips :: "string list"
  effective_mtu :: u16

record prepare_turn_response =
  response_generation :: u64
  response_endpoint :: network_endpoint
  response_allocation_expiry :: "string option"
  response_credential_expiry :: string
  permission_ips :: "string list"

section \<open>The manager and its world\<close>

text \<open>
  How the \<open>n\<close>-th input/output call ends (\<open>link_fault\<close> for setting the MTU, \<open>read_fault\<close> for
  reading the state file, \<open>fault\<close> for the others): normally, with an error before or after its effect, or
  with the death of the process before or after it.
\<close>

datatype io_fault = NoFault | FailBefore | FailAfter | CrashBefore | CrashAfter

record turn_bridge_stats =
  last_packet_at_unix_ms :: "nat option"
  active_peer_tuple :: "string option"

record net_env =
  wall_clock :: "nat \<Rightarrow> int"
  fault :: "nat \<Rightarrow> io_fault"
  link_fault :: "nat \<Rightarrow> io_fault"
  read_fault :: "nat \<Rightarrow> io_fault"
  parse_rfc3339 :: "string \<Rightarrow> int option"
  to_rfc3339 :: "int \<Rightarrow> string"
  parse_ip :: "string \<Rightarrow> string option"
  bridge_start :: "nat \<Rightarrow> string \<Rightarrow> string list \<Rightarrow> prepare_turn_request \<Rightarrow> (string, network_endpoint) result"
  bridge_stop_ok :: "nat \<Rightarrow> bool"
  bridge_stats :: "nat \<Rightarrow> turn_bridge_stats"
  bridge_finished :: "nat \<Rightarrow> bool"
  new_uuid :: "nat \<Rightarrow> uuid"

text \<open>
  \<open>hs\<close>, \<open>bridge\<close> and \<open>last_prepare\<close> are the manager's memory, \<open>disk\<close> is the state file and
  \<open>link_mtu\<close> the interface's MTU; \<open>calls\<close> counts input/output calls and clock readings.
\<close>

record manager =
  hs :: host_network_state
  bridge :: "u64 option"
  last_prepare :: "(uuid \<times> prepare_turn_response) option"
  disk :: "host_network_state option"
  link_mtu :: u16
  calls :: nat

datatype 'a outcome = Done 'a | Err string | Crashed

type_synonym 'a op = "manager \<Rightarrow> 'a outcome \<times> manager"

definition return :: "'a \<Rightarrow> 'a op" where
  "return x m = (Done x, m)"

definition bail :: "string \<Rightarrow> 'a op" where
  "bail e m = (Err e, m)"

definition andThen :: "'a op \<Rightarrow> ('a \<Rightarrow> 'b op) \<Rightarrow> 'b op" where
  "andThen f g m = (case f m of (Done x, m') \<Rightarrow> g x m' | (Err e, m') \<Rightarrow> (Err e, m')
     | (Crashed, m') \<Rightarrow> (Crashed, m'))"

text \<open>\<^verbatim>\<open>match f \<dots>\<close> on a result, and \<^verbatim>\<open>let _ = f\<close>; the death of the process ends both.\<close>

definition caught :: "'a op \<Rightarrow> ((string, 'a) result \<Rightarrow> 'b op) \<Rightarrow> 'b op" where
  "caught f g m = (case f m of (Done x, m') \<Rightarrow> g (Inr x) m' | (Err e, m') \<Rightarrow> g (Inl e) m'
     | (Crashed, m') \<Rightarrow> (Crashed, m'))"

definition get_state :: "host_network_state op" where
  "get_state m = (Done (hs m), m)"

definition update_state :: "(host_network_state \<Rightarrow> host_network_state) \<Rightarrow> unit op" where
  "update_state f m = (Done (), m\<lparr>hs := f (hs m)\<rparr>)"

definition utc_now :: "net_env \<Rightarrow> int op" where
  "utc_now env m = (Done (wall_clock env (calls m)), m\<lparr>calls := Suc (calls m)\<rparr>)"

definition effect :: "(nat \<Rightarrow> io_fault) \<Rightarrow> string \<Rightarrow> (manager \<Rightarrow> manager) \<Rightarrow> unit op" where
  "effect flt e f m =
     (let m' = m\<lparr>calls := Suc (calls m)\<rparr> in
      case flt (calls m) of
        NoFault \<Rightarrow> (Done (), f m') | FailBefore \<Rightarrow> (Err e, m') | FailAfter \<Rightarrow> (Err e, f m')
      | CrashBefore \<Rightarrow> (Crashed, m') | CrashAfter \<Rightarrow> (Crashed, f m'))"

definition persist_state :: "net_env \<Rightarrow> host_network_state \<Rightarrow> unit op" where
  "persist_state env st = effect (fault env) ''state file'' (disk_update (\<lambda>_. Some st))"

text \<open>
  The interface: \<^verbatim>\<open>set_mtu\<close> checks its arguments, runs \<^verbatim>\<open>ip link set\<close> and reads the value
  back, so it can fail with or without having changed the MTU.
\<close>

definition is_ascii_alphanumeric :: "char \<Rightarrow> bool" where
  "is_ascii_alphanumeric c =
     (let n = of_char c :: nat in
      48 \<le> n \<and> n \<le> 57 \<or> 65 \<le> n \<and> n \<le> 90 \<or> 97 \<le> n \<and> n \<le> 122)"

definition validate_interface_name :: "string \<Rightarrow> bool" where
  "validate_interface_name i \<longleftrightarrow>
     \<not> (i = [] \<or> length i > 15
        \<or> \<not> list_all (\<lambda>c. is_ascii_alphanumeric c \<or> c \<in> {CHR ''_'', CHR ''-'', CHR ''.''}) i)"

definition validate_mtu :: "u16 \<Rightarrow> bool" where
  "validate_mtu m = mtu_in_range m"

definition get_mtu :: "net_env \<Rightarrow> string \<Rightarrow> u16 op" where
  "get_mtu env i =
     (if \<not> validate_interface_name i then bail ''invalid network interface name''
      else andThen (effect (fault env) ''failed reading MTU'' (\<lambda>m. m)) (\<lambda>_ m. (Done (link_mtu m), m)))"

definition set_mtu :: "net_env \<Rightarrow> string \<Rightarrow> u16 \<Rightarrow> unit op" where
  "set_mtu env i mtu =
     (if \<not> validate_interface_name i then bail ''invalid network interface name''
      else if \<not> validate_mtu mtu then bail ''WireGuard MTU must be between 576 and 1500 bytes''
      else effect (link_fault env) ''failed setting MTU'' (link_mtu_update (\<lambda>_. mtu)))"

definition with_context :: "string \<Rightarrow> 'a op \<Rightarrow> 'a op" where
  "with_context c f = caught f (\<lambda>r. case r of Inl e \<Rightarrow> bail (c @ '': '' @ e) | Inr x \<Rightarrow> return x)"

definition saturating_inc :: "u64 \<Rightarrow> u64" where
  "saturating_inc w = (if w = - 1 then w else w + 1)"

text \<open>\<^verbatim>\<open>host_revision = host_revision.saturating_add(1); updated_at = Utc::now()\<close>.\<close>

definition bump :: "string \<Rightarrow> host_network_state \<Rightarrow> host_network_state" where
  "bump t st = st\<lparr>host_revision := saturating_inc (host_revision st), updated_at := t\<rparr>"

definition touch :: "net_env \<Rightarrow> unit op" where
  "touch env = andThen (utc_now env) (\<lambda>t. update_state (bump (to_rfc3339 env t)))"

definition persist_current :: "net_env \<Rightarrow> unit op" where
  "persist_current env = andThen get_state (persist_state env)"

section \<open>Connection profiles\<close>

definition clear_pending :: "host_network_state \<Rightarrow> host_network_state" where
  "clear_pending st = st\<lparr>pending := None, link_state := (link_state st)\<lparr>pending_transition_id := None\<rparr>\<rparr>"

definition set_observed_mtu :: "u16 \<Rightarrow> host_network_state \<Rightarrow> host_network_state" where
  "set_observed_mtu m st = st\<lparr>link_state := (link_state st)\<lparr>observed_mtu := Some m\<rparr>\<rparr>"

definition lease_expired :: "net_env \<Rightarrow> int \<Rightarrow> pending_profile \<Rightarrow> bool" where
  "lease_expired env t p =
     (case parse_rfc3339 env (lease_expires_at p) of Some x \<Rightarrow> x \<le> t | None \<Rightarrow> True)"

definition roll_back :: "net_env \<Rightarrow> string \<Rightarrow> pending_profile \<Rightarrow> string \<Rightarrow> unit op" where
  "roll_back env i p msg =
     andThen (with_context msg (set_mtu env i (previous_mtu p))) (\<lambda>_.
     andThen (update_state (set_observed_mtu (previous_mtu p) \<circ> clear_pending)) (\<lambda>_.
     andThen (touch env) (\<lambda>_. persist_current env)))"

definition reconcile_expired_profile :: "net_env \<Rightarrow> string \<Rightarrow> unit op" where
  "reconcile_expired_profile env i =
     andThen get_state (\<lambda>st.
     case pending st of
       None \<Rightarrow> return ()
     | Some p \<Rightarrow> andThen (utc_now env) (\<lambda>t.
         if \<not> lease_expired env t p then return ()
         else roll_back env i p ''failed restoring host MTU after profile lease expiry''))"

definition committed_revision :: "host_network_state \<Rightarrow> u64" where
  "committed_revision st = (case committed_profile st of Some c \<Rightarrow> profile_revision c | None \<Rightarrow> 0)"

definition turn_matches :: "host_network_state \<Rightarrow> connection_profile \<Rightarrow> bool" where
  "turn_matches st p \<longleftrightarrow>
     (desired_transport p = TransportCloudflareTurn \<longrightarrow>
        (case profile_allocation p of Some g \<Rightarrow> g | None \<Rightarrow> 0) = allocation_generation st
        \<and> relay_endpoint st = Some (endpoint p))"

definition apply_prepared :: "net_env \<Rightarrow> string \<Rightarrow> prepare_profile_request \<Rightarrow> (connection_profile \<times> host_link_state) op" where
  "apply_prepared env i req =
     caught (set_mtu env i (inner_mtu (requested_profile req))) (\<lambda>r.
     case r of
       Inl e \<Rightarrow>
         andThen (update_state clear_pending) (\<lambda>_.
         andThen (touch env) (\<lambda>_.
         caught (persist_current env) (\<lambda>_.
         bail (''failed applying prepared host MTU: '' @ e))))
     | Inr _ \<Rightarrow>
         andThen (get_mtu env i) (\<lambda>observed.
         andThen (update_state (set_observed_mtu observed)) (\<lambda>_.
         andThen (touch env) (\<lambda>_.
         andThen (persist_current env) (\<lambda>_.
         andThen get_state (\<lambda>st. return (requested_profile req, link_state st)))))))"

definition open_pending ::
  "net_env \<Rightarrow> int \<Rightarrow> int \<Rightarrow> prepare_profile_request \<Rightarrow> u16 \<Rightarrow> host_network_state \<Rightarrow> host_network_state" where
  "open_pending env t lease req prev st =
     bump (to_rfc3339 env t) (st\<lparr>
       pending := Some \<lparr>pending_operation = prep_operation req,
         pending_target = requested_profile req, previous_mtu = prev,
         prepared_at = to_rfc3339 env t, lease_expires_at = to_rfc3339 env lease\<rparr>,
       link_state := (link_state st)\<lparr>pending_transition_id :=
         Some (transition_id (requested_profile req))\<rparr>\<rparr>)"

definition journal_prepared :: "net_env \<Rightarrow> string \<Rightarrow> int \<Rightarrow> int \<Rightarrow> prepare_profile_request \<Rightarrow> unit op" where
  "journal_prepared env i t lease req =
     andThen (get_mtu env i) (\<lambda>prev.
     andThen (update_state (open_pending env t lease req prev)) (\<lambda>_.
     persist_current env))"

definition minutes :: "int \<Rightarrow> int" where "minutes n = n * 60000000000"

definition prepare_connection_profile ::
  "net_env \<Rightarrow> string \<Rightarrow> prepare_profile_request \<Rightarrow> (connection_profile \<times> host_link_state) op" where
  "prepare_connection_profile env i req =
     (case profile_validate (requested_profile req) of
        Inl e \<Rightarrow> bail e
      | Inr _ \<Rightarrow>
     (case parse_rfc3339 env (requested_lease req) of
        None \<Rightarrow> bail ''lease_expires_at must be RFC 3339''
      | Some lease \<Rightarrow>
     andThen (utc_now env) (\<lambda>t.
     if lease \<le> t \<or> lease > t + minutes 10
     then bail ''profile transaction lease must expire within the next 10 minutes''
     else
     andThen (reconcile_expired_profile env i) (\<lambda>_.
     andThen get_state (\<lambda>st.
     if instance_id (requested_profile req) \<noteq> host_instance st
     then bail ''connection profile instance identity mismatch''
     else case pending st of
       Some p \<Rightarrow>
         if pending_operation p = prep_operation req \<and> pending_target p = requested_profile req
         then return (pending_target p, link_state st)
         else bail ''another connection profile transaction is pending''
     | None \<Rightarrow>
         if expected_profile_revision req \<noteq> committed_revision st
         then bail ''stale profile revision''
         else if profile_revision (requested_profile req) \<noteq> saturating_inc (committed_revision st)
         then bail ''new profile revision must increment the committed revision by one''
         else if \<not> turn_matches st (requested_profile req)
         then bail ''TURN profile does not match the active allocation generation and endpoint''
         else
           andThen (journal_prepared env i t lease req) (\<lambda>_. apply_prepared env i req))))))"

definition request_matches :: "finish_profile_request \<Rightarrow> pending_profile \<Rightarrow> bool" where
  "request_matches req p \<longleftrightarrow>
     pending_operation p = fin_operation req \<and> transition_id (pending_target p) = fin_transition req
     \<and> profile_revision (pending_target p) = fin_revision req"

definition already_committed :: "finish_profile_request \<Rightarrow> host_network_state \<Rightarrow> bool" where
  "already_committed req st =
     (case committed_profile st of
        Some c \<Rightarrow> committed_operation st = Some (fin_operation req)
          \<and> transition_id c = fin_transition req \<and> profile_revision c = fin_revision req
      | None \<Rightarrow> False)"

definition committed_state ::
  "string \<Rightarrow> u16 \<Rightarrow> finish_profile_request \<Rightarrow> pending_profile \<Rightarrow> host_network_state \<Rightarrow> host_network_state" where
  "committed_state t observed req p st =
     bump t (st\<lparr>
       link_state := (link_state st)\<lparr>observed_mtu := Some observed,
         applied_profile_revision := profile_revision (pending_target p),
         pending_transition_id := None,
         link_transport := Some (desired_transport (pending_target p))\<rparr>,
       observed_transport := Some (desired_transport (pending_target p)),
       committed_profile := Some (pending_target p),
       committed_operation := Some (fin_operation req), pending := None\<rparr>)"

definition commit_connection_profile ::
  "net_env \<Rightarrow> string \<Rightarrow> finish_profile_request \<Rightarrow> host_link_state op" where
  "commit_connection_profile env i req =
     andThen (reconcile_expired_profile env i) (\<lambda>_.
     andThen get_state (\<lambda>st.
     if already_committed req st then return (link_state st)
     else case pending st of
       None \<Rightarrow> bail ''no prepared connection profile exists''
     | Some p \<Rightarrow>
         if \<not> request_matches req p
         then bail ''connection profile commit does not match the prepared transaction''
         else
           andThen (get_mtu env i) (\<lambda>observed.
           if observed \<noteq> inner_mtu (pending_target p) then bail ''host MTU changed before commit''
           else
             andThen (utc_now env) (\<lambda>t.
             let new = committed_state (to_rfc3339 env t) observed req p st in
             andThen (persist_state env new) (\<lambda>_.
             andThen (update_state (\<lambda>_. new)) (\<lambda>_. return (link_state new)))))))"

definition abort_connection_profile ::
  "net_env \<Rightarrow> string \<Rightarrow> finish_profile_request \<Rightarrow> host_link_state op" where
  "abort_connection_profile env i req =
     andThen get_state (\<lambda>st.
     case pending st of
       None \<Rightarrow> return (link_state st)
     | Some p \<Rightarrow>
         if \<not> request_matches req p
         then bail ''connection profile abort does not match the prepared transaction''
         else
           andThen (roll_back env i p ''failed restoring host MTU during profile abort'') (\<lambda>_.
           andThen get_state (\<lambda>st'. return (link_state st'))))"

definition get_link_state :: "net_env \<Rightarrow> string \<Rightarrow> host_link_state op" where
  "get_link_state env i =
     andThen (reconcile_expired_profile env i) (\<lambda>_.
     andThen (get_mtu env i) (\<lambda>observed.
     andThen (update_state (\<lambda>st. set_observed_mtu observed (st\<lparr>link_state :=
       (link_state st)\<lparr>link_transport := observed_transport st\<rparr>\<rparr>))) (\<lambda>_.
     andThen get_state (\<lambda>st. return (link_state st)))))"

section \<open>TURN allocations\<close>

definition failed_status :: "manager \<Rightarrow> turn_runtime_status" where
  "failed_status m = (if bridge m \<noteq> None then TurnDegraded else TurnFailed)"

definition turn_start_failed :: "net_env \<Rightarrow> string \<Rightarrow> 'a op" where
  "turn_start_failed env e m =
     andThen (update_state (turn_status_update (\<lambda>_. failed_status m))) (\<lambda>_.
     andThen (touch env) (\<lambda>_.
     caught (persist_current env) (\<lambda>_. bail e))) m"

definition ready_state ::
  "string \<Rightarrow> prepare_turn_request \<Rightarrow> network_endpoint \<Rightarrow> host_network_state \<Rightarrow> host_network_state" where
  "ready_state t req e st =
     (bump t st)\<lparr>turn_status := Ready, allocation_generation := requested_generation req,
       relay_endpoint := Some e, allocation_expires_at := None,
       credential_expires_at := Some (turn_credential_expiry req)\<rparr>"

definition udp_turn_url :: "string \<Rightarrow> bool" where
  "udp_turn_url u \<longleftrightarrow> prefix ''turn:'' u \<and> sublist ''transport=udp'' u"

fun parse_ips :: "net_env \<Rightarrow> string list \<Rightarrow> string list option" where
  "parse_ips env [] = Some []"
| "parse_ips env (x # xs) =
     Option.bind (parse_ip env x) (\<lambda>i. map_option (Cons i) (parse_ips env xs))"

definition publish_bridge ::
  "net_env \<Rightarrow> string list \<Rightarrow> prepare_turn_request \<Rightarrow> network_endpoint \<Rightarrow> prepare_turn_response op" where
  "publish_bridge env ips req e =
     andThen (utc_now env) (\<lambda>t.
     andThen get_state (\<lambda>st.
     let response = \<lparr>response_generation = requested_generation req, response_endpoint = e,
           response_allocation_expiry = None,
           response_credential_expiry = turn_credential_expiry req, permission_ips = ips\<rparr>;
         new = ready_state (to_rfc3339 env t) req e st
     in caught (persist_state env new) (\<lambda>r.
        case r of
          Inl err \<Rightarrow> turn_start_failed env (''failed committing replacement TURN allocation: '' @ err)
        | Inr _ \<Rightarrow> (\<lambda>m. (Done response, m\<lparr>hs := new, bridge := Some (requested_generation req),
            last_prepare := Some (turn_operation req, response)\<rparr>)))))"

definition start_bridge :: "net_env \<Rightarrow> string \<Rightarrow> string list \<Rightarrow> prepare_turn_request \<Rightarrow> network_endpoint op" where
  "start_bridge env url ips req m =
     (let m' = m\<lparr>calls := Suc (calls m)\<rparr> in
      case bridge_start env (calls m) url ips req of Inl e \<Rightarrow> (Err e, m') | Inr e \<Rightarrow> (Done e, m'))"

definition hours :: "int \<Rightarrow> int" where "hours n = minutes (60 * n)"

definition allocate_turn :: "net_env \<Rightarrow> prepare_turn_request \<Rightarrow> prepare_turn_response op" where
  "allocate_turn env req =
     andThen get_state (\<lambda>st.
     if requested_generation req \<le> allocation_generation st
     then bail ''requested allocation generation must exceed active generation''
     else if \<not> mtu_in_range (effective_mtu req)
     then bail ''effective TURN MTU must be between 576 and 1500 bytes''
     else case parse_rfc3339 env (turn_credential_expiry req) of
       None \<Rightarrow> bail ''credential_expires_at must be RFC 3339''
     | Some expiry \<Rightarrow>
     andThen (utc_now env) (\<lambda>t.
     if expiry \<le> t then bail ''TURN credential is already expired''
     else if expiry > t + hours 48 + minutes 5
     then bail ''TURN credential expiry exceeds the 48-hour provider limit''
     else case find udp_turn_url (turn_urls req) of
       None \<Rightarrow> bail ''prepare_turn requires a UDP TURN URL''
     | Some url \<Rightarrow>
     (case parse_ips env (expected_peer_ips req) of
       None \<Rightarrow> bail ''invalid expected peer IP''
     | Some ips \<Rightarrow>
     if ips = [] then bail ''prepare_turn requires at least one expected peer IP''
     else
       andThen (update_state (turn_status_update (\<lambda>_. Preparing))) (\<lambda>_.
       andThen (touch env) (\<lambda>_.
       andThen (persist_current env) (\<lambda>_.
       caught (start_bridge env url ips req) (\<lambda>r.
       case r of
         Inl e \<Rightarrow> turn_start_failed env e
       | Inr e \<Rightarrow> publish_bridge env ips req e)))))))"

definition prepare_turn :: "net_env \<Rightarrow> prepare_turn_request \<Rightarrow> prepare_turn_response op" where
  "prepare_turn env req m =
     (case last_prepare m of
        Some (oid, response) \<Rightarrow>
          if oid = turn_operation req then (Done response, m) else allocate_turn env req m
      | None \<Rightarrow> allocate_turn env req m)"

definition stop_bridge :: "net_env \<Rightarrow> bool op" where
  "stop_bridge env m =
     (let ok = (bridge m = None \<or> bridge_stop_ok env (calls m)) in
      (Done ok, m\<lparr>bridge := None, calls := Suc (calls m)\<rparr>))"

definition stop_turn :: "net_env \<Rightarrow> host_network_state op" where
  "stop_turn env =
     andThen (stop_bridge env) (\<lambda>stopped.
     andThen (touch env) (\<lambda>_.
     andThen (update_state (\<lambda>st. st\<lparr>turn_status := AwaitingCredentials, relay_endpoint := None,
       allocation_expires_at := None, credential_expires_at := None, observed_transport := None\<rparr>)) (\<lambda>_.
     andThen (\<lambda>m. (Done (), m\<lparr>last_prepare := None\<rparr>)) (\<lambda>_.
     andThen (persist_current env) (\<lambda>_.
     if \<not> stopped then bail ''TURN bridge failed to stop'' else get_state)))))"

definition unix_time_ms :: "int \<Rightarrow> nat" where
  "unix_time_ms t = min (nat (t div 1000000)) (2 ^ 64 - 1)"

definition turn_evidence_is_fresh :: "nat \<Rightarrow> turn_bridge_stats option \<Rightarrow> bool" where
  "turn_evidence_is_fresh now_ms stats =
     (case stats of
        None \<Rightarrow> False
      | Some s \<Rightarrow> active_peer_tuple s \<noteq> None
          \<and> (case last_packet_at_unix_ms s of Some x \<Rightarrow> now_ms - x \<le> 5000 | None \<Rightarrow> False))"

definition note_transport :: "bool \<Rightarrow> host_network_state \<Rightarrow> host_network_state" where
  "note_transport fresh st =
     (if fresh then st\<lparr>observed_transport := Some TransportCloudflareTurn\<rparr>
      else case committed_profile st of
        Some c \<Rightarrow> if desired_transport c = TransportDirect
          then st\<lparr>observed_transport := Some TransportDirect\<rparr> else st
      | None \<Rightarrow> st)"

definition check_bridge :: "net_env \<Rightarrow> turn_bridge_stats option op" where
  "check_bridge env m =
     (let stats = (if bridge m = None then None else Some (bridge_stats env (calls m)));
          fin = (bridge m \<noteq> None \<and> bridge_finished env (calls m));
          m' = m\<lparr>calls := Suc (calls m)\<rparr>
      in if fin \<and> turn_status (hs m') = Ready
         then andThen (update_state (turn_status_update (\<lambda>_. TurnDegraded))) (\<lambda>_.
              andThen (touch env) (\<lambda>_.
              andThen (persist_current env) (\<lambda>_. return stats))) m'
         else (Done stats, m'))"

definition manager_status ::
  "net_env \<Rightarrow> string \<Rightarrow> (host_network_state \<times> turn_bridge_stats option) op" where
  "manager_status env i =
     andThen (reconcile_expired_profile env i) (\<lambda>_.
     caught (get_mtu env i) (\<lambda>r.
     andThen (update_state (\<lambda>st. case r of Inr x \<Rightarrow> set_observed_mtu x st | Inl _ \<Rightarrow> st)) (\<lambda>_.
     andThen (update_state (\<lambda>st. st\<lparr>link_state :=
       (link_state st)\<lparr>link_transport := observed_transport st\<rparr>\<rparr>)) (\<lambda>_.
     andThen (check_bridge env) (\<lambda>stats.
     andThen (utc_now env) (\<lambda>t.
     andThen (update_state (note_transport (turn_evidence_is_fresh (unix_time_ms t) stats))) (\<lambda>_.
     andThen get_state (\<lambda>st. return (st, stats)))))))))"

section \<open>Start\<close>

definition load_previous_state :: "net_env \<Rightarrow> host_network_state option op" where
  "load_previous_state env =
     caught (effect (read_fault env) ''read'' (\<lambda>m. m)) (\<lambda>r m.
       (Done (case r of Inl _ \<Rightarrow> None | Inr _ \<Rightarrow> disk m), m))"

definition restore_mtu :: "net_env \<Rightarrow> string \<Rightarrow> host_network_state option \<Rightarrow> unit op" where
  "restore_mtu env i prev =
     (case prev of
        None \<Rightarrow> return ()
      | Some st \<Rightarrow>
         (case pending st of
            Some p \<Rightarrow> with_context ''failed rolling back an interrupted connection profile''
              (set_mtu env i (previous_mtu p))
          | None \<Rightarrow>
             (case committed_profile st of
                Some c \<Rightarrow> with_context ''failed reapplying the committed connection profile''
                  (set_mtu env i (inner_mtu c))
              | None \<Rightarrow> return ())))"

definition initial_state ::
  "net_env \<Rightarrow> string \<Rightarrow> string \<Rightarrow> string \<Rightarrow> nat \<Rightarrow> string \<Rightarrow> u16 option \<Rightarrow> host_network_state option
    \<Rightarrow> host_network_state" where
  "initial_state env i inst ver k t observed prev =
     (let committed = Option.bind prev committed_profile in
      \<lparr>state_schema = NETWORK_STATE_SCHEMA_VERSION,
       host_revision = (case prev of Some st \<Rightarrow> saturating_inc (host_revision st) | None \<Rightarrow> 0),
       updated_at = t, host_instance = inst, host_session = new_uuid env k,
       agent_version = ver, turn_status = AwaitingCredentials,
       allocation_generation = (case prev of Some st \<Rightarrow> allocation_generation st | None \<Rightarrow> 0),
       relay_endpoint = None, allocation_expires_at = None, credential_expires_at = None,
       observed_transport = None,
       link_state = \<lparr>interface_name = i, observed_mtu = observed,
         applied_profile_revision = (case committed of Some c \<Rightarrow> profile_revision c | None \<Rightarrow> 0),
         pending_transition_id = None, link_transport = None\<rparr>,
       committed_profile = committed,
       committed_operation = Option.bind prev committed_operation, pending = None\<rparr>)"

definition manager_new :: "net_env \<Rightarrow> string \<Rightarrow> string \<Rightarrow> string \<Rightarrow> unit op" where
  "manager_new env i inst ver =
     andThen (load_previous_state env) (\<lambda>prev.
     andThen (restore_mtu env i prev) (\<lambda>_.
     caught (get_mtu env i) (\<lambda>r.
     andThen (utc_now env) (\<lambda>t m.
       let st = initial_state env i inst ver (calls m) (to_rfc3339 env t)
                  (case r of Inr x \<Rightarrow> Some x | Inl _ \<Rightarrow> None) prev in
       andThen (persist_state env st) (\<lambda>_.
         (\<lambda>m'. (Done (), m'\<lparr>hs := st, bridge := None, last_prepare := None\<rparr>))) m))))"

end
