(* ===== verification/Telemetry.thy ===== *)
theory Telemetry
  imports Prelude
begin

text \<open>
  Connection telemetry of the network agent (\<^verbatim>\<open>network-agent/src/telemetry\<close> and
  \<^verbatim>\<open>classifier\<close>): samples, the sliding window, its metrics, the quality classes and the machine
  that decides when a status is published and an alert may be raised. Instants are nanoseconds;
  the operations of \<^verbatim>\<open>f64\<close> are a parameter (\<open>fops\<close>), so nothing here depends on rounding.
\<close>

definition secs :: "nat \<Rightarrow> nat" where "secs n = n * 1000000000"

section \<open>Floating point\<close>

record 'f fops =
  fadd :: "'f \<Rightarrow> 'f \<Rightarrow> 'f"
  fsub :: "'f \<Rightarrow> 'f \<Rightarrow> 'f"
  fmul :: "'f \<Rightarrow> 'f \<Rightarrow> 'f"
  fdiv :: "'f \<Rightarrow> 'f \<Rightarrow> 'f"
  fmax :: "'f \<Rightarrow> 'f \<Rightarrow> 'f"
  fabs :: "'f \<Rightarrow> 'f"
  fle :: "'f \<Rightarrow> 'f \<Rightarrow> bool"
  flt :: "'f \<Rightarrow> 'f \<Rightarrow> bool"
  ffinite :: "'f \<Rightarrow> bool"
  fof_nat :: "nat \<Rightarrow> 'f"
  fceil_nat :: "'f \<Rightarrow> nat"
  fdecimal :: "nat \<Rightarrow> nat \<Rightarrow> 'f" \<comment> \<open>the literal m / n\<close>
  fsort :: "'f list \<Rightarrow> 'f list" \<comment> \<open>\<^verbatim>\<open>sort_by(f64::total_cmp)\<close>\<close>

section \<open>Samples and the window\<close>

record 'f measurement_sample =
  sample_sequence :: u64
  sample_rtt :: "'f option"
  sample_lost :: bool

record 'f stored_sample =
  stored_sequence :: u64
  stored_rtt :: "'f option"
  stored_lost :: bool
  inserted_at :: nat

definition sample_is_valid :: "'f fops \<Rightarrow> 'f measurement_sample \<Rightarrow> bool" where
  "sample_is_valid fp x =
     (case (sample_lost x, sample_rtt x) of
        (True, None) \<Rightarrow> True | (True, Some _) \<Rightarrow> False
      | (False, Some rtt) \<Rightarrow> ffinite fp rtt \<and> fle fp (fof_nat fp 0) rtt
      | (False, None) \<Rightarrow> False)"

definition stored_new :: "'f measurement_sample \<Rightarrow> nat \<Rightarrow> 'f stored_sample" where
  "stored_new x t = \<lparr>stored_sequence = sample_sequence x, stored_rtt = sample_rtt x,
     stored_lost = sample_lost x, inserted_at = t\<rparr>"

definition MAX_WINDOW_AGE :: nat where "MAX_WINDOW_AGE = secs (5 * 60)"
definition MAX_WINDOW_SAMPLES :: nat where "MAX_WINDOW_SAMPLES = 1500"

record 'f telemetry_window =
  samples :: "'f stored_sample list"
  continuous_since :: "nat option"
  last_inserted :: "nat option"
  batch_id :: "128 word option"
  recent_batches :: "128 word list"

definition empty_window :: "'f telemetry_window" where
  "empty_window = \<lparr>samples = [], continuous_since = None, last_inserted = None, batch_id = None,
     recent_batches = []\<rparr>"

definition too_old :: "nat \<Rightarrow> 'f stored_sample \<Rightarrow> bool" where
  "too_old t x \<longleftrightarrow> t - inserted_at x > MAX_WINDOW_AGE"

definition window_prune :: "nat \<Rightarrow> 'f telemetry_window \<Rightarrow> 'f telemetry_window" where
  "window_prune t w = w\<lparr>samples := dropWhile (too_old t) (samples w)\<rparr>"

definition window_push :: "'f measurement_sample \<Rightarrow> nat \<Rightarrow> 'f telemetry_window \<Rightarrow> 'f telemetry_window" where
  "window_push x t w =
     (let w1 = window_prune t w;
          gap = (case last_inserted w1 of None \<Rightarrow> True | Some l \<Rightarrow> t - l > secs 3);
          w2 = (if gap then w1\<lparr>continuous_since := Some t\<rparr> else w1);
          xs = samples w2 @ [stored_new x t]
      in w2\<lparr>last_inserted := Some t, samples := drop (length xs - MAX_WINDOW_SAMPLES) xs\<rparr>)"

definition window_extend :: "'f measurement_sample list \<Rightarrow> nat \<Rightarrow> 'f telemetry_window \<Rightarrow> 'f telemetry_window" where
  "window_extend xs t w = fold (\<lambda>x. window_push x t) xs w"

definition record_batch :: "128 word option \<Rightarrow> 'f telemetry_window \<Rightarrow> bool \<times> 'f telemetry_window" where
  "record_batch b w =
     (case b of
        None \<Rightarrow> (True, w\<lparr>batch_id := None\<rparr>)
      | Some i \<Rightarrow>
          if i \<in> set (recent_batches w) then (False, w)
          else
            let kept = (if length (recent_batches w) \<ge> 128 then tl (recent_batches w) else recent_batches w)
            in (True, w\<lparr>recent_batches := kept @ [i], batch_id := Some i\<rparr>))"

definition iter_since :: "nat \<Rightarrow> nat \<Rightarrow> 'f telemetry_window \<Rightarrow> 'f stored_sample list" where
  "iter_since t d w = filter (\<lambda>x. t - inserted_at x \<le> d) (samples w)"

definition first_sample_at :: "'f telemetry_window \<Rightarrow> nat option" where
  "first_sample_at w = (case samples w of [] \<Rightarrow> None | x # _ \<Rightarrow> Some (inserted_at x))"

record measurement_evidence =
  evidence_batch :: "128 word"
  received_sequence :: "u64 option"
  received_rtt_count :: nat
  continuous_window_ms :: nat
  latest_received_age_ms :: "nat option"

definition millis :: "nat \<Rightarrow> nat" where "millis d = d div 1000000"

definition max_of :: "u64 list \<Rightarrow> u64 option" where
  "max_of xs = (case xs of [] \<Rightarrow> None | y # ys \<Rightarrow> Some (fold max ys y))"

definition feedback_evidence :: "'f fops \<Rightarrow> nat \<Rightarrow> 'f telemetry_window \<Rightarrow> measurement_evidence option" where
  "feedback_evidence fp t w =
     (let received = filter (\<lambda>x. \<not> stored_lost x
            \<and> (case stored_rtt x of Some r \<Rightarrow> ffinite fp r \<and> fle fp (fof_nat fp 0) r | None \<Rightarrow> False))
            (iter_since t (secs 60) w)
      in map_option (\<lambda>b. \<lparr>evidence_batch = b, received_sequence = max_of (map stored_sequence received),
           received_rtt_count = length received,
           continuous_window_ms = (case continuous_since w of Some s \<Rightarrow> millis (t - s) | None \<Rightarrow> 0),
           latest_received_age_ms =
             (if received = [] then None else Some (millis (t - inserted_at (List.last received))))\<rparr>)
         (batch_id w))"

section \<open>Metrics\<close>

record 'f window_metrics =
  sent :: nat
  received :: nat
  lost :: nat
  loss_percent :: 'f
  min_rtt :: "'f option"
  avg_rtt :: "'f option"
  median_rtt :: "'f option"
  max_rtt :: "'f option"
  p95_rtt :: "'f option"
  p99_rtt :: "'f option"
  jitter :: 'f
  spikes :: nat
  spike_percent :: 'f
  loss_burst :: nat

definition percentage :: "'f fops \<Rightarrow> nat \<Rightarrow> nat \<Rightarrow> 'f" where
  "percentage fp p n =
     (if n = 0 then fof_nat fp 0
      else fdiv fp (fmul fp (fof_nat fp p) (fof_nat fp 100)) (fof_nat fp n))"

definition median :: "'f fops \<Rightarrow> 'f list \<Rightarrow> 'f option" where
  "median fp xs =
     (if xs = [] then None
      else let mid = length xs div 2 in
        if even (length xs) then Some (fdiv fp (fadd fp (xs ! (mid - 1)) (xs ! mid)) (fof_nat fp 2))
        else Some (xs ! mid))"

definition percentile :: "'f fops \<Rightarrow> 'f list \<Rightarrow> 'f \<Rightarrow> 'f option" where
  "percentile fp xs p =
     (if xs = [] then None
      else Some (xs ! (min (fceil_nat fp (fmul fp p (fof_nat fp (length xs))) - 1) (length xs - 1))))"

fun ewma_jitter :: "'f fops \<Rightarrow> 'f option \<Rightarrow> 'f \<Rightarrow> 'f list \<Rightarrow> 'f" where
  "ewma_jitter fp prev j [] = j"
| "ewma_jitter fp prev j (x # xs) =
     ewma_jitter fp (Some x)
       (case prev of None \<Rightarrow> j
        | Some p \<Rightarrow> fadd fp j (fdiv fp (fsub fp (fabs fp (fsub fp x p)) j) (fof_nat fp 16))) xs"

fun loss_burst_from :: "nat \<Rightarrow> nat \<Rightarrow> 'f stored_sample list \<Rightarrow> nat" where
  "loss_burst_from longest cur [] = longest"
| "loss_burst_from longest cur (x # xs) =
     (if stored_lost x then loss_burst_from (max longest (cur + 1)) (cur + 1) xs
      else loss_burst_from longest 0 xs)"

definition longest_loss_burst :: "'f stored_sample list \<Rightarrow> nat" where
  "longest_loss_burst xs = loss_burst_from 0 0 xs"

definition from_samples :: "'f fops \<Rightarrow> 'f stored_sample list \<Rightarrow> 'f window_metrics" where
  "from_samples fp xs =
     (let n = length xs; l = length (filter stored_lost xs); rec = n - l;
          raw = List.map_filter stored_rtt xs; rtts = fsort fp raw;
          j = ewma_jitter fp None (fof_nat fp 0) raw; med = median fp rtts;
          threshold = map_option (\<lambda>m. fadd fp m (fmax fp (fof_nat fp 15) (fmul fp j (fof_nat fp 3)))) med;
          sp = (case threshold of Some th \<Rightarrow> length (filter (flt fp th) rtts) | None \<Rightarrow> 0)
      in \<lparr>sent = n, received = rec, lost = l, loss_percent = percentage fp l n,
          min_rtt = (if rtts = [] then None else Some (hd rtts)),
          avg_rtt = (if rtts = [] then None
            else Some (fdiv fp (fold (\<lambda>x acc. fadd fp acc x) rtts (fof_nat fp 0)) (fof_nat fp (length rtts)))),
          median_rtt = med, max_rtt = (if rtts = [] then None else Some (List.last rtts)),
          p95_rtt = percentile fp rtts (fdecimal fp 95 100), p99_rtt = percentile fp rtts (fdecimal fp 99 100),
          jitter = j, spikes = sp, spike_percent = percentage fp sp rec,
          loss_burst = longest_loss_burst xs\<rparr>)"

record 'f connection_metrics =
  current_rtt :: "'f option"
  current_jitter :: 'f
  current_lost :: "bool option"
  last_60_seconds :: "'f window_metrics"

definition telemetry_snapshot :: "'f fops \<Rightarrow> 'f telemetry_window \<Rightarrow> nat \<Rightarrow> 'f connection_metrics" where
  "telemetry_snapshot fp w t =
     (let xs = iter_since t (secs 60) w; m = from_samples fp xs
      in \<lparr>current_rtt = (case List.map_filter stored_rtt (rev xs) of [] \<Rightarrow> None | r # _ \<Rightarrow> Some r),
          current_jitter = jitter m,
          current_lost = (if xs = [] then None else Some (stored_lost (List.last xs))),
          last_60_seconds = m\<rparr>)"

definition metrics_for_duration :: "'f fops \<Rightarrow> 'f telemetry_window \<Rightarrow> nat \<Rightarrow> nat \<Rightarrow> 'f window_metrics" where
  "metrics_for_duration fp w t d = from_samples fp (iter_since t d w)"

section \<open>Classification\<close>

datatype quality = WarmingUp | Great | Good | Poor | Bad
datatype reason_code = HighLatency | HighJitter | PacketLoss | LossBurst | LatencySpikes

record classification =
  class_status :: quality
  class_stability :: quality
  class_latency :: quality
  class_reasons :: "reason_code list"

record 'f thresholds =
  th_loss :: "'f \<times> 'f \<times> 'f"
  th_jitter :: "'f \<times> 'f \<times> 'f"
  th_spread :: "'f \<times> 'f \<times> 'f"
  th_spike :: "'f \<times> 'f \<times> 'f"
  th_latency :: "'f \<times> 'f \<times> 'f"
  loss_burst_reason :: nat
  warmup_duration :: nat
  warmup_samples :: nat

definition default_thresholds :: "'f fops \<Rightarrow> 'f thresholds" where
  "default_thresholds fp =
     (let d = fdecimal fp in
      \<lparr>th_loss = (d 1 10, d 5 10, d 2 1), th_jitter = (d 3 1, d 7 1, d 15 1),
       th_spread = (d 10 1, d 20 1, d 40 1), th_spike = (d 1 1, d 3 1, d 10 1),
       th_latency = (d 30 1, d 60 1, d 100 1), loss_burst_reason = 3,
       warmup_duration = secs 5, warmup_samples = 25\<rparr>)"

fun quality_rank :: "quality \<Rightarrow> nat" where
  "quality_rank WarmingUp = 0"
| "quality_rank Great = 1"
| "quality_rank Good = 2"
| "quality_rank Poor = 3"
| "quality_rank Bad = 4"

fun bounded_quality :: "'f fops \<Rightarrow> 'f \<Rightarrow> 'f \<times> 'f \<times> 'f \<Rightarrow> quality" where
  "bounded_quality fp v (a, b, c) =
     (if fle fp v a then Great else if fle fp v b then Good else if fle fp v c then Poor else Bad)"

fun strict_quality :: "'f fops \<Rightarrow> 'f \<Rightarrow> 'f \<times> 'f \<times> 'f \<Rightarrow> quality" where
  "strict_quality fp v (a, b, c) =
     (if flt fp v a then Great else if flt fp v b then Good else if flt fp v c then Poor else Bad)"

text \<open>\<^verbatim>\<open>max_by_key\<close> keeps the last of several maxima.\<close>

definition worse :: "quality \<Rightarrow> quality \<Rightarrow> quality" where
  "worse best q = (if quality_rank best \<le> quality_rank q then q else best)"

definition classify_metrics :: "'f fops \<Rightarrow> 'f window_metrics \<Rightarrow> 'f thresholds \<Rightarrow> classification" where
  "classify_metrics fp m th =
     (let med = (case median_rtt m of Some x \<Rightarrow> x | None \<Rightarrow> fof_nat fp 0);
          spread = fsub fp (case p95_rtt m of Some x \<Rightarrow> x | None \<Rightarrow> med) med;
          stability = fold (\<lambda>q best. worse best q)
            [bounded_quality fp (jitter m) (th_jitter th), bounded_quality fp spread (th_spread th),
             bounded_quality fp (spike_percent m) (th_spike th)]
            (bounded_quality fp (loss_percent m) (th_loss th));
          latency = strict_quality fp med (th_latency th);
          status = (if quality_rank latency \<le> quality_rank stability then stability else latency)
      in \<lparr>class_status = status, class_stability = stability, class_latency = latency,
          class_reasons =
            (if latency \<noteq> Great then [HighLatency] else [])
            @ (if flt fp (fst (th_jitter th)) (jitter m) then [HighJitter] else [])
            @ (if flt fp (fst (th_loss th)) (loss_percent m) then [PacketLoss] else [])
            @ (if loss_burst_reason th \<le> loss_burst m then [LossBurst] else [])
            @ (if flt fp (fst (th_spike th)) (spike_percent m) then [LatencySpikes] else [])\<rparr>)"

definition classify :: "'f fops \<Rightarrow> 'f telemetry_window \<Rightarrow> nat \<Rightarrow> 'f thresholds \<Rightarrow> classification" where
  "classify fp w t th =
     (let old_enough = (case first_sample_at w of Some f \<Rightarrow> warmup_duration th \<le> t - f | None \<Rightarrow> False)
      in if \<not> old_enough \<or> length (samples w) < warmup_samples th
         then \<lparr>class_status = WarmingUp, class_stability = WarmingUp, class_latency = WarmingUp,
               class_reasons = []\<rparr>
         else classify_metrics fp (metrics_for_duration fp w t (secs 30)) th)"

section \<open>Publishing a status\<close>

definition BAD_PERSISTENCE :: nat where "BAD_PERSISTENCE = secs 5"
definition RECOVERY_PERSISTENCE :: nat where "RECOVERY_PERSISTENCE = secs 10"

record status_transition =
  tr_previous :: quality
  tr_current :: quality
  tr_reasons :: "reason_code list"
  tr_alert :: bool

record status_machine =
  published :: quality
  bad_since :: "nat option"
  recovery_since :: "nat option"
  alert_eligible :: bool

definition initial_machine :: status_machine where
  "initial_machine = \<lparr>published = WarmingUp, bad_since = None, recovery_since = None, alert_eligible = True\<rparr>"

definition get_or_insert :: "nat option \<Rightarrow> nat \<Rightarrow> nat" where
  "get_or_insert x t = (case x of Some s \<Rightarrow> s | None \<Rightarrow> t)"

definition evaluate_status ::
  "classification \<Rightarrow> nat \<Rightarrow> status_machine \<Rightarrow> status_transition option \<times> status_machine" where
  "evaluate_status c t m =
     (let cand = class_status c in
      if published m = Bad then
        if cand = Bad then (None, m\<lparr>recovery_since := None\<rparr>)
        else
          let r = get_or_insert (recovery_since m) t; m1 = m\<lparr>recovery_since := Some r\<rparr> in
          if t - r < RECOVERY_PERSISTENCE then (None, m1)
          else (Some \<lparr>tr_previous = published m, tr_current = cand, tr_reasons = class_reasons c, tr_alert = True\<rparr>,
                m1\<lparr>published := cand, bad_since := None, recovery_since := None, alert_eligible := True\<rparr>)
      else if cand = Bad then
        let b = get_or_insert (bad_since m) t; m1 = m\<lparr>bad_since := Some b\<rparr> in
        if t - b < BAD_PERSISTENCE then (None, m1)
        else (Some \<lparr>tr_previous = published m, tr_current = Bad, tr_reasons = class_reasons c,
                tr_alert = alert_eligible m\<rparr>,
              m1\<lparr>published := Bad, alert_eligible := False\<rparr>)
      else
        let m1 = m\<lparr>bad_since := None, recovery_since := None\<rparr> in
        if cand = published m then (None, m1)
        else (Some \<lparr>tr_previous = published m, tr_current = cand, tr_reasons = class_reasons c,
                tr_alert = alert_eligible m\<rparr>, m1\<lparr>published := cand\<rparr>))"

section \<open>Loss bursts\<close>

text \<open>The reference: the length of the longest run of consecutive lost samples.\<close>

definition lost_runs :: "'f stored_sample list \<Rightarrow> nat set" where
  "lost_runs xs = {length ys | ys. sublist ys xs \<and> list_all stored_lost ys}"

lemma lost_runs_finite: "finite (lost_runs xs)" "lost_runs xs \<noteq> {}" "k \<in> lost_runs xs \<Longrightarrow> k \<le> length xs"
proof -
  have "lost_runs xs = length ` {ys. sublist ys xs \<and> list_all stored_lost ys}" by (auto simp: lost_runs_def)
  moreover have "finite {ys. sublist ys xs \<and> list_all stored_lost ys}"
    by (rule finite_subset [OF _ finite_set [of "sublists xs"]]) (auto simp: in_set_sublists)
  ultimately show "finite (lost_runs xs)" by simp
  show "lost_runs xs \<noteq> {}" by (auto simp: lost_runs_def intro!: exI [of _ "[]"])
  show "k \<in> lost_runs xs \<Longrightarrow> k \<le> length xs" by (auto simp: lost_runs_def dest: sublist_length_le)
qed

definition lost_prefix :: "'f stored_sample list \<Rightarrow> nat" where
  "lost_prefix xs = length (takeWhile stored_lost xs)"

lemma prefix_takeWhile_length: "prefix ys xs \<Longrightarrow> list_all P ys \<Longrightarrow> length ys \<le> length (takeWhile P xs)"
  by (auto simp: prefix_def list_all_iff takeWhile_append)

lemma lost_runs_Cons:
  fixes x :: "'f stored_sample"
  shows "Max (lost_runs (x # xs)) = max (lost_prefix (x # xs)) (Max (lost_runs xs))"
proof (rule antisym)
  have "k \<le> max (lost_prefix (x # xs)) (Max (lost_runs xs))" if k: "k \<in> lost_runs (x # xs)" for k
  proof -
    obtain ys :: "'f stored_sample list" where ys: "k = length ys" "sublist ys (x # xs)" "list_all stored_lost ys"
      using k by (auto simp: lost_runs_def)
    then consider "prefix ys (x # xs)" | "sublist ys xs" by (auto simp: sublist_Cons_right)
    then show ?thesis
    proof cases
      case 1
      then show ?thesis using prefix_takeWhile_length [OF 1 ys(3)] by (simp add: ys lost_prefix_def)
    next
      case 2
      then have "k \<in> lost_runs xs" using ys by (auto simp: lost_runs_def)
      then show ?thesis using lost_runs_finite(1) [of xs] Max_ge by (auto simp: le_max_iff_disj)
    qed
  qed
  then show "Max (lost_runs (x # xs)) \<le> max (lost_prefix (x # xs)) (Max (lost_runs xs))"
    using lost_runs_finite(1,2) [of "x # xs"] by simp
  have "prefix (takeWhile stored_lost (x # xs)) (x # xs)" by (rule takeWhile_is_prefix)
  then have "lost_prefix (x # xs) \<in> lost_runs (x # xs)"
    unfolding lost_runs_def lost_prefix_def
    by (intro CollectI exI [of _ "takeWhile stored_lost (x # xs)"])
       (auto simp: list_all_iff dest: set_takeWhileD simp del: takeWhile.simps)
  moreover have "lost_runs xs \<subseteq> lost_runs (x # xs)"
    by (auto simp: lost_runs_def sublist_Cons_right)
  ultimately show "max (lost_prefix (x # xs)) (Max (lost_runs xs)) \<le> Max (lost_runs (x # xs))"
    using lost_runs_finite(1,2) [of xs] lost_runs_finite(1) [of "x # xs"] by (auto intro: Max_ge)
qed

lemma loss_burst_from_correct:
  fixes xs :: "'a stored_sample list"
  shows "cur \<le> longest \<Longrightarrow>
   loss_burst_from longest cur xs = max longest (max (cur + lost_prefix xs) (Max (lost_runs xs)))"
proof (induction xs arbitrary: longest cur)
  case Nil
  have "lost_runs ([] :: 'a stored_sample list) = {0}" by (auto simp: lost_runs_def)
  with Nil show ?case by (simp add: lost_prefix_def)
next
  case (Cons x xs)
  show ?case
  proof (cases "stored_lost x")
    case True
    then show ?thesis
      using Cons.IH [of "cur + 1" "max longest (cur + 1)"]
      by (simp add: lost_runs_Cons lost_prefix_def max_def)
  next
    case False
    have "lost_prefix xs \<le> Max (lost_runs xs)"
      using lost_runs_Cons [of _ "tl xs"] lost_runs_finite by (cases xs) (auto simp: lost_prefix_def)
    with False show ?thesis
      using Cons.IH [of 0 longest] Cons.prems by (simp add: lost_runs_Cons lost_prefix_def)
  qed
qed

section \<open>The window\<close>

interpretation window_log: aged_log inserted_at "Suc MAX_WINDOW_AGE"
  by unfold_locales simp

lemma window_prune_log: "dropWhile (too_old t) xs = window_log.prune t xs"
  by (simp add: window_log.prune_def too_old_def [abs_def] Suc_le_eq)

lemma newest_suffix_filter:
  assumes "xs = old @ new" and "filter P old = []" and "filter P new = new"
  shows "filter P (newest n xs) = newest n (filter P xs)"
proof -
  have all: "filter P xs = new" using assms by simp
  have none: "filter P (drop k old) = []" for k
    using assms(2) by (auto simp: filter_empty_conv dest: in_set_dropD)
  have part: "filter P (drop k new) = drop k new" for k
    using assms(3) by (auto simp: filter_id_conv dest: in_set_dropD)
  show ?thesis
    unfolding all by (auto simp: newest_def assms(1) none part) (metis Nat.diff_diff_right add.commute diff_diff_cancel diff_is_0_eq' nat_le_linear)?
qed

lemma window_push_samples:
  "samples (window_push x t w) = newest MAX_WINDOW_SAMPLES (window_log.prune t (samples w) @ [stored_new x t])"
  by (simp add: window_push_def Let_def window_prune_def window_prune_log newest_def)

definition push_history :: "('f measurement_sample \<times> nat) list \<Rightarrow> 'f telemetry_window" where
  "push_history h = fold (\<lambda>(x, t). window_push x t) h empty_window"

definition stored_history :: "('f measurement_sample \<times> nat) list \<Rightarrow> 'f stored_sample list" where
  "stored_history h = map (\<lambda>(x, t). stored_new x t) h"

lemma stored_history_stamps: "map inserted_at (stored_history h) = map snd h"
  by (simp add: stored_history_def stored_new_def case_prod_beta comp_def)

lemma prune_newest:
  assumes "sorted (map inserted_at xs)"
  shows "window_log.prune t (newest n xs) = newest n (window_log.prune t xs)"
proof -
  let ?P = "\<lambda>x. t - inserted_at x < Suc MAX_WINDOW_AGE"
  obtain old where old: "xs = old @ window_log.prune t xs"
      "\<forall>x \<in> set old. Suc MAX_WINDOW_AGE \<le> t - inserted_at x"
    using window_log.prune_suffix by blast
  have "sorted (map inserted_at (newest n xs))" using assms by (simp add: newest_def drop_map [symmetric] sorted_wrt_drop)
  then have "window_log.prune t (newest n xs) = filter ?P (newest n xs)" by (rule window_log.prune_filter)
  also have "\<dots> = newest n (filter ?P xs)"
  proof (rule newest_suffix_filter [OF old(1)])
    show "filter ?P old = []" using old(2) by (auto simp: filter_empty_conv not_less)
    show "filter ?P (window_log.prune t xs) = window_log.prune t xs"
      using window_log.prune_filter [OF assms] by simp
  qed
  finally show ?thesis using window_log.prune_filter [OF assms] by simp
qed

lemma push_history_samples:
  assumes "sorted (map snd (h @ [(x, t)]))"
  shows "samples (push_history (h @ [(x, t)]))
    = newest MAX_WINDOW_SAMPLES (window_log.prune t (stored_history (h @ [(x, t)])))"
  using assms
proof (induction h arbitrary: x t rule: rev_induct)
  case Nil
  then show ?case
    by (simp add: push_history_def window_push_samples empty_window_def stored_history_def
        window_log.prune_def stored_new_def)
next
  case (snoc y h)
  obtain z u where y: "y = (z, u)" by fastforce
  let ?H = "stored_history (h @ [(z, u)])"
  have sorted: "sorted (map inserted_at ?H)" "u \<le> t" "sorted (map snd (h @ [(z, u)]))"
    using snoc.prems by (simp_all add: stored_history_stamps y sorted_append)
  have "samples (push_history (h @ [(z, u)])) = newest MAX_WINDOW_SAMPLES (window_log.prune u ?H)"
    by (rule snoc.IH [OF sorted(3)])
  then have "samples (push_history ((h @ [y]) @ [(x, t)]))
      = newest MAX_WINDOW_SAMPLES (window_log.prune t (newest MAX_WINDOW_SAMPLES (window_log.prune u ?H)) @ [stored_new x t])"
    by (simp add: push_history_def y window_push_samples)
  also have "\<dots> = newest MAX_WINDOW_SAMPLES (window_log.prune t ?H @ [stored_new x t])"
    by (simp add: prune_newest window_log.prune_sorted sorted newest_newest_append window_log.prune_prune)
  also have "window_log.prune t ?H @ [stored_new x t] = window_log.prune t (stored_history ((h @ [y]) @ [(x, t)]))"
    by (simp add: window_log.prune_snoc_now [symmetric] stored_new_def stored_history_def y)
  finally show ?case .
qed

section \<open>Alerts\<close>

fun alerts :: "status_machine \<Rightarrow> (classification \<times> nat) list \<Rightarrow> nat list" where
  "alerts m [] = []"
| "alerts m ((c, t) # es) =
     (case evaluate_status c t m of
        (Some tr, m') \<Rightarrow> if tr_current tr = Bad \<and> tr_alert tr then t # alerts m' es else alerts m' es
      | (None, m') \<Rightarrow> alerts m' es)"

text \<open>With the last alert at \<open>l\<close> and all later evaluations from \<open>t\<close> on.\<close>

definition damped :: "int \<Rightarrow> nat \<Rightarrow> status_machine \<Rightarrow> bool" where
  "damped l t m \<longleftrightarrow>
     (if published m = Bad then l \<le> int t \<and> (case recovery_since m of Some r \<Rightarrow> l \<le> int r | None \<Rightarrow> True)
      else recovery_since m = None \<and> l + int RECOVERY_PERSISTENCE \<le> int t
        \<and> (case bad_since m of Some b \<Rightarrow> l + int RECOVERY_PERSISTENCE \<le> int b | None \<Rightarrow> True))"

lemma damped_step:
  assumes "damped l s m" and "s \<le> t" and "evaluate_status c t m = (r, m')"
  shows "(if r \<noteq> None \<and> tr_current (the r) = Bad
      then l + int (RECOVERY_PERSISTENCE + BAD_PERSISTENCE) \<le> int t \<and> damped (int t) t m'
      else damped l t m')"
  using assms
  by (auto simp: evaluate_status_def damped_def Let_def get_or_insert_def BAD_PERSISTENCE_def
      RECOVERY_PERSISTENCE_def secs_def split: if_splits option.splits)

lemma eligible_step:
  assumes "alert_eligible m = (published m \<noteq> Bad)" and "evaluate_status c t m = (r, m')"
  shows "alert_eligible m' = (published m' \<noteq> Bad)"
    and "r \<noteq> None \<Longrightarrow> tr_current (the r) = Bad \<Longrightarrow> tr_alert (the r)"
  using assms by (auto simp: evaluate_status_def Let_def split: if_splits)

definition spaced :: "nat \<Rightarrow> nat \<Rightarrow> bool" where
  "spaced a b \<longleftrightarrow> a + (RECOVERY_PERSISTENCE + BAD_PERSISTENCE) \<le> b"

lemma alerts_spaced:
  assumes "damped l s m" and "sorted (map snd es)" and "\<forall>e \<in> set es. s \<le> snd e"
    and "alert_eligible m = (published m \<noteq> Bad)"
  shows "sorted_wrt spaced (alerts m es)
    \<and> (\<forall>a \<in> set (alerts m es). l + int (RECOVERY_PERSISTENCE + BAD_PERSISTENCE) \<le> int a)"
  using assms
proof (induction m es arbitrary: l s rule: alerts.induct)
  case (2 m c t es)
  obtain r m' where ev: "evaluate_status c t m = (r, m')" by fastforce
  note step = damped_step [OF 2(4) _ ev] and elig = eligible_step [OF 2(7) ev]
  have later: "sorted (map snd es)" "\<forall>e \<in> set es. t \<le> snd e" "s \<le> t" using 2(5,6) by auto
  show ?case
  proof (cases "r \<noteq> None \<and> tr_current (the r) = Bad")
    case True
    then obtain tr where r: "r = Some tr" "tr_current tr = Bad" "tr_alert tr" using elig(2) by auto
    have d: "l + int (RECOVERY_PERSISTENCE + BAD_PERSISTENCE) \<le> int t" "damped (int t) t m'"
      using step [OF later(3)] True by simp_all
    have IH: "sorted_wrt spaced (alerts m' es)
        \<and> (\<forall>a \<in> set (alerts m' es). int t + int (RECOVERY_PERSISTENCE + BAD_PERSISTENCE) \<le> int a)"
      using 2(2) [OF ev [symmetric] r(1)] r d(2) later elig(1) by blast
    then have "\<forall>a \<in> set (alerts m' es). spaced t a" by (auto simp: spaced_def)
    with IH show ?thesis using d(1) r by (auto simp: ev)
  next
    case False
    then have "damped l t m'" using step [OF later(3)] by auto
    then show ?thesis
      using 2(1) [OF ev [symmetric]] 2(3) [OF ev [symmetric]] False later elig(1)
      by (cases r) (simp_all add: ev)
  qed
qed simp

section \<open>Properties\<close>

text \<open>The reported loss burst is the length of the longest run of consecutive lost samples in
  the window.\<close>

theorem longest_loss_burst_correct: "longest_loss_burst xs = Max (lost_runs xs)"
proof -
  have "lost_prefix xs \<le> Max (lost_runs xs)"
    using lost_runs_Cons [of _ "tl xs"] lost_runs_finite(1,2) [of xs]
    by (cases xs) (auto simp: lost_prefix_def)
  then show ?thesis by (simp add: longest_loss_burst_def loss_burst_from_correct)
qed

text \<open>For samples inserted in time order, the window holds exactly the newest 1,500 of those not
  older than five minutes at the last insertion, in order.\<close>

theorem window_holds_recent:
  assumes "sorted (map snd (h @ [(x, t)]))"
  shows "samples (push_history (h @ [(x, t)]))
    = newest MAX_WINDOW_SAMPLES (filter (\<lambda>y. t - inserted_at y \<le> MAX_WINDOW_AGE) (stored_history (h @ [(x, t)])))"
proof -
  have "sorted (map inserted_at (stored_history (h @ [(x, t)])))" using assms by (simp only: stored_history_stamps)
  then show ?thesis
    unfolding push_history_samples [OF assms] by (simp add: window_log.prune_filter less_Suc_eq_le)
qed

theorem window_holds_recent_witness:
  "map inserted_at (samples (push_history [(\<lparr>sample_sequence = 1, sample_rtt = Some (), sample_lost = False\<rparr>, 0),
     (\<lparr>sample_sequence = 2, sample_rtt = None, sample_lost = True\<rparr>, secs 301)])) = [secs 301]"
  using window_holds_recent [of "[(\<lparr>sample_sequence = 1, sample_rtt = Some (), sample_lost = False\<rparr>, 0)]"
      "\<lparr>sample_sequence = 2, sample_rtt = None, sample_lost = True\<rparr>" "secs 301"]
  by (simp add: stored_history_def stored_new_def newest_def secs_def MAX_WINDOW_AGE_def MAX_WINDOW_SAMPLES_def)

text \<open>C37: a connection is published as bad, and an alert allowed, at most once per episode: two
  alerts are at least fifteen seconds apart (ten seconds of recovery, then five of bad quality),
  however often the status is evaluated in between.\<close>

theorem alerts_damped:
  assumes "sorted (map snd es)"
  shows "sorted_wrt (\<lambda>a b. a + secs 15 \<le> b) (alerts initial_machine es)"
proof -
  have "damped (- int (secs 10)) 0 initial_machine"
    by (simp add: damped_def initial_machine_def RECOVERY_PERSISTENCE_def)
  then have "sorted_wrt spaced (alerts initial_machine es)"
    using alerts_spaced [OF _ assms] by (auto simp: initial_machine_def)
  moreover have "spaced = (\<lambda>a b. a + secs 15 \<le> b)"
    by (auto simp: fun_eq_iff spaced_def RECOVERY_PERSISTENCE_def BAD_PERSISTENCE_def secs_def)
  ultimately show ?thesis by simp
qed

theorem alerts_damped_witness:
  "let c = (\<lambda>q. \<lparr>class_status = q, class_stability = q, class_latency = q, class_reasons = []\<rparr>);
       es = [(c Bad, 0), (c Bad, secs 5), (c Good, secs 6), (c Good, secs 16), (c Bad, secs 17), (c Bad, secs 22)]
   in alerts initial_machine es = [secs 5, secs 22] \<and> sorted_wrt (\<lambda>a b. a + secs 15 \<le> b) (alerts initial_machine es)"
proof -
  define c where "c = (\<lambda>q. \<lparr>class_status = q, class_stability = q, class_latency = q, class_reasons = []\<rparr>)"
  let ?es = "[(c Bad, 0), (c Bad, secs 5), (c Good, secs 6), (c Good, secs 16), (c Bad, secs 17), (c Bad, secs 22)]"
  have "alerts initial_machine ?es = [secs 5, secs 22]"
    by (simp add: evaluate_status_def initial_machine_def c_def get_or_insert_def BAD_PERSISTENCE_def
        RECOVERY_PERSISTENCE_def secs_def)
  moreover have "sorted (map snd ?es)" by (simp add: secs_def)
  then have "sorted_wrt (\<lambda>a b. a + secs 15 \<le> b) (alerts initial_machine ?es)" by (rule alerts_damped)
  ultimately show ?thesis unfolding Let_def c_def by blast
qed

end
