(* ===== verification/Probe_Session.thy ===== *)
theory Probe_Session
  imports Turn_Manager Telemetry
begin

text \<open>
  Probe sessions of the network agent: the rate limiter and the bounded registry of
  \<^verbatim>\<open>network-agent/src/session.rs\<close>, the acknowledgement of registered probes
  (\<^verbatim>\<open>probe/mod.rs\<close>) and the installation of a session by the control plane
  (\<^verbatim>\<open>turn_manager.rs\<close>). The order in which a hash map is iterated and the hexadecimal decoder
  are parameters.
\<close>

section \<open>Rate limiter\<close>

record rate_limiter =
  rate_limit :: nat
  recent :: "nat list"

definition rate_new :: "nat \<Rightarrow> rate_limiter" where
  "rate_new n = \<lparr>rate_limit = n, recent = []\<rparr>"

definition rate_allow :: "nat \<Rightarrow> rate_limiter \<Rightarrow> bool \<times> rate_limiter" where
  "rate_allow t r =
     (let kept = dropWhile (\<lambda>seen. t - seen \<ge> secs 1) (recent r) in
      if length kept \<ge> rate_limit r then (False, r\<lparr>recent := kept\<rparr>)
      else (True, r\<lparr>recent := kept @ [t]\<rparr>))"

section \<open>Sessions and their registry\<close>

record 'f session =
  token :: bytes
  session_window :: "'f telemetry_window"
  session_state :: status_machine
  udp_rate :: rate_limiter
  allowed_probe_paths :: "transport_kind list"
  expires_at :: "int option"
  registered_at :: nat

record 'f session_registry =
  sessions :: "(uuid \<times> 'f session) list"
  max_sessions :: nat
  udp_rate_limit :: nat

definition registry_new :: "nat \<Rightarrow> nat \<Rightarrow> 'f session_registry" where
  "registry_new n rate = \<lparr>sessions = [], max_sessions = max n 1, udp_rate_limit = rate\<rparr>"

definition put_session :: "uuid \<Rightarrow> 'f session \<Rightarrow> (uuid \<times> 'f session) list \<Rightarrow> (uuid \<times> 'f session) list" where
  "put_session i s xs = filter (\<lambda>x. fst x \<noteq> i) xs @ [(i, s)]"

text \<open>\<^verbatim>\<open>min_by_key\<close>: the first of several minima in iteration order.\<close>

fun oldest_from :: "uuid \<times> 'f session \<Rightarrow> (uuid \<times> 'f session) list \<Rightarrow> uuid \<times> 'f session" where
  "oldest_from b [] = b"
| "oldest_from b (x # xs) =
     oldest_from (if registered_at (snd x) < registered_at (snd b) then x else b) xs"

definition evict_oldest ::
  "((uuid \<times> 'f session) list \<Rightarrow> (uuid \<times> 'f session) list) \<Rightarrow> (uuid \<times> 'f session) list
    \<Rightarrow> (uuid \<times> 'f session) list" where
  "evict_oldest iter xs =
     (case iter xs of
        [] \<Rightarrow> xs
      | y # ys \<Rightarrow> filter (\<lambda>x. fst x \<noteq> fst (oldest_from y ys)) xs)"

definition make_room ::
  "((uuid \<times> 'f session) list \<Rightarrow> (uuid \<times> 'f session) list) \<Rightarrow> uuid \<Rightarrow> 'f session_registry
    \<Rightarrow> 'f session_registry" where
  "make_room iter i reg =
     (if i \<notin> fst ` set (sessions reg) \<and> max_sessions reg \<le> length (sessions reg)
      then reg\<lparr>sessions := evict_oldest iter (sessions reg)\<rparr> else reg)"

definition fresh_session :: "bytes \<Rightarrow> nat \<Rightarrow> transport_kind list \<Rightarrow> int option \<Rightarrow> nat \<Rightarrow> 'f session" where
  "fresh_session tok rate paths ex t = \<lparr>token = tok, session_window = empty_window,
     session_state = initial_machine, udp_rate = rate_new rate, allowed_probe_paths = paths,
     expires_at = ex, registered_at = t\<rparr>"

definition register ::
  "((uuid \<times> 'f session) list \<Rightarrow> (uuid \<times> 'f session) list) \<Rightarrow> uuid \<Rightarrow> bytes \<Rightarrow> nat
    \<Rightarrow> 'f session_registry \<Rightarrow> 'f session_registry" where
  "register iter i tok t reg =
     (if map_option token (map_of (sessions reg) i) = Some tok then reg
      else
        let reg1 = make_room iter i reg in
        reg1\<lparr>sessions := put_session i
          (fresh_session tok (udp_rate_limit reg) [TransportDirect] None t) (sessions reg1)\<rparr>)"

definition registry_install ::
  "((uuid \<times> 'f session) list \<Rightarrow> (uuid \<times> 'f session) list) \<Rightarrow> uuid \<Rightarrow> bytes \<Rightarrow> int \<Rightarrow> nat
    \<Rightarrow> transport_kind list \<Rightarrow> nat \<Rightarrow> 'f session_registry \<Rightarrow> 'f session_registry" where
  "registry_install iter i tok ex rate paths t reg =
     (let reg1 = make_room iter i reg in
      reg1\<lparr>sessions := put_session i (fresh_session tok rate paths (Some ex) t) (sessions reg1)\<rparr>)"

definition allows_probe :: "transport_kind \<Rightarrow> int \<Rightarrow> 'f session \<Rightarrow> bool" where
  "allows_probe p u s \<longleftrightarrow>
     (case expires_at s of None \<Rightarrow> True | Some e \<Rightarrow> e > u) \<and> p \<in> set (allowed_probe_paths s)"

record install_probe_request =
  probe_session_id :: uuid
  probe_token :: string
  probe_expires :: string
  max_packets_per_second :: u16
  allowed_paths :: "transport_kind list"

definition install_probe_session ::
  "net_env \<Rightarrow> (string \<Rightarrow> bytes option) \<Rightarrow> ((uuid \<times> 'f session) list \<Rightarrow> (uuid \<times> 'f session) list)
    \<Rightarrow> int \<Rightarrow> nat \<Rightarrow> install_probe_request \<Rightarrow> 'f session_registry \<Rightarrow> (string, 'f session_registry) result" where
  "install_probe_session env hex_decode iter u t req reg =
     (case hex_decode (trim (probe_token req)) of
        None \<Rightarrow> Inl ''probe token must be hexadecimal''
      | Some tok \<Rightarrow>
        if length tok \<noteq> 32 then Inl ''probe token must encode exactly 32 bytes''
        else case parse_rfc3339 env (probe_expires req) of
          None \<Rightarrow> Inl ''probe expires_at must be RFC 3339''
        | Some ex \<Rightarrow>
          if ex \<le> u then Inl ''probe session is already expired''
          else if max_packets_per_second req = 0 \<or> max_packets_per_second req > 1000
          then Inl ''probe rate must be between 1 and 1000 packets per second''
          else if allowed_paths req = [] then Inl ''probe session requires at least one allowed path''
          else Inr (registry_install iter (probe_session_id req) tok ex
            (unat (max_packets_per_second req)) (allowed_paths req) t reg))"

section \<open>Acknowledging probes\<close>

definition declared_path :: "probe_packet \<Rightarrow> transport_kind option" where
  "declared_path h =
     (if version h = 1 \<and> path h = PathUnspecified then Some TransportDirect
      else if version h \<in> {2, 3} \<and> path h = Direct then Some TransportDirect
      else if version h \<in> {2, 3} \<and> path h = CloudflareTurn then Some TransportCloudflareTurn
      else None)"

definition set_session :: "uuid \<Rightarrow> 'f session \<Rightarrow> 'f session_registry \<Rightarrow> 'f session_registry" where
  "set_session i s reg = reg\<lparr>sessions := map (\<lambda>x. if fst x = i then (i, s) else x) (sessions reg)\<rparr>"

definition acknowledge_registered_probe ::
  "(bytes \<Rightarrow> bytes \<Rightarrow> bytes) \<Rightarrow> bytes \<Rightarrow> transport_kind \<Rightarrow> int \<Rightarrow> nat \<Rightarrow> 'f session_registry
    \<Rightarrow> bytes option \<times> 'f session_registry" where
  "acknowledge_registered_probe hmac bs received_path u t reg =
     (case decode_unverified bs of
        None \<Rightarrow> (None, reg)
      | Some h \<Rightarrow>
        if packet_type h \<noteq> Probe then (None, reg)
        else case declared_path h of
          None \<Rightarrow> (None, reg)
        | Some p \<Rightarrow>
          if p \<noteq> received_path then (None, reg)
          else case map_of (sessions reg) (session_id h) of
            None \<Rightarrow> (None, reg)
          | Some s \<Rightarrow>
            if \<not> allows_probe received_path u s then (None, reg)
            else case acknowledge_probe hmac bs (token s) of
              None \<Rightarrow> (None, reg)
            | Some ack \<Rightarrow>
              let (ok, r) = rate_allow t (udp_rate s) in
              (if ok then Some ack else None, set_session (session_id h) (s\<lparr>udp_rate := r\<rparr>) reg))"

section \<open>The registry stays bounded\<close>

definition registry_ok :: "nat \<Rightarrow> 'f session_registry \<Rightarrow> bool" where
  "registry_ok n reg \<longleftrightarrow> distinct (map fst (sessions reg)) \<and> max_sessions reg = max n 1
     \<and> length (sessions reg) \<le> max n 1"

lemma put_session_ids:
  "fst ` set (put_session i s xs) = insert i (fst ` set xs)"
  "distinct (map fst xs) \<Longrightarrow> distinct (map fst (put_session i s xs))"
  by (auto simp: put_session_def distinct_map inj_on_def)

lemma filter_absent: "i \<notin> fst ` set xs \<Longrightarrow> filter (\<lambda>x. fst x \<noteq> i) xs = xs"
  by (auto simp: filter_id_conv image_iff)

lemma put_session_length:
  "i \<in> fst ` set xs \<Longrightarrow> length (put_session i s xs) \<le> length xs"
  "i \<notin> fst ` set xs \<Longrightarrow> length (put_session i s xs) = Suc (length xs)"
proof -
  assume "i \<in> fst ` set xs"
  then have "length (filter (\<lambda>x. fst x \<noteq> i) xs) < length xs" by (auto intro: length_filter_less)
  then show "length (put_session i s xs) \<le> length xs" by (simp add: put_session_def)
qed (simp add: put_session_def filter_absent)

lemma oldest_from_min:
  "oldest_from b xs \<in> set (b # xs) \<and> (\<forall>y \<in> set (b # xs). registered_at (snd (oldest_from b xs)) \<le> registered_at (snd y))"
proof (induction xs arbitrary: b)
  case (Cons a xs)
  from Cons [of "if registered_at (snd a) < registered_at (snd b) then a else b"] show ?case
    by (auto split: if_splits)
qed simp

text \<open>What the code relies on of hash-map iteration: it visits the entries, each of them.\<close>

definition iterates :: "((uuid \<times> 'f session) list \<Rightarrow> (uuid \<times> 'f session) list) \<Rightarrow> bool" where
  "iterates iter \<longleftrightarrow> (\<forall>xs. set (iter xs) = set xs)"

lemma evict_oldest_removes:
  assumes "iterates iter" and "xs \<noteq> []"
  shows "\<exists>v \<in> set xs. evict_oldest iter xs = filter (\<lambda>x. fst x \<noteq> fst v) xs
    \<and> (\<forall>y \<in> set xs. registered_at (snd v) \<le> registered_at (snd y))"
proof -
  have all: "set (iter xs) = set xs" using assms(1) by (simp add: iterates_def)
  then obtain y ys where it: "iter xs = y # ys" using assms(2) by (cases "iter xs") auto
  show ?thesis
    using oldest_from_min [of y ys] all
    by (intro bexI [of _ "oldest_from y ys"]) (auto simp: evict_oldest_def it)
qed

lemma make_room_ok:
  assumes "registry_ok n reg" and "iterates iter"
  shows "registry_ok n (make_room iter i reg)"
    and "i \<notin> fst ` set (sessions (make_room iter i reg)) \<Longrightarrow> length (sessions (make_room iter i reg)) < max n 1"
proof -
  have shrink: "length (evict_oldest iter xs) < length xs \<and> distinct (map fst (evict_oldest iter xs))"
    if "xs \<noteq> []" "distinct (map fst xs)" for xs
  proof -
    obtain v where "v \<in> set xs" "evict_oldest iter xs = filter (\<lambda>x. fst x \<noteq> fst v) xs"
      using evict_oldest_removes [OF assms(2) \<open>xs \<noteq> []\<close>] by blast
    then show ?thesis using that(2) by (auto simp: distinct_map_filter intro: length_filter_less)
  qed
  define k where "k = max n 1"
  have reg: "distinct (map fst (sessions reg))" "max_sessions reg = k" "length (sessions reg) \<le> k" "0 < k"
    using assms(1) by (simp_all add: registry_ok_def k_def)
  consider (full) "i \<notin> fst ` set (sessions reg)" "k \<le> length (sessions reg)"
    | (roomy) "make_room iter i reg = reg" "i \<in> fst ` set (sessions reg) \<or> length (sessions reg) < k"
    using reg(2) unfolding make_room_def
    by (cases "i \<notin> fst ` set (sessions reg) \<and> k \<le> length (sessions reg)") (simp_all add: not_le)
  then have "registry_ok n (make_room iter i reg) \<and>
    (i \<notin> fst ` set (sessions (make_room iter i reg)) \<longrightarrow> length (sessions (make_room iter i reg)) < k)"
  proof cases
    case full
    then have "make_room iter i reg = reg\<lparr>sessions := evict_oldest iter (sessions reg)\<rparr>" "sessions reg \<noteq> []"
      using reg by (auto simp: make_room_def)
    with shrink [of "sessions reg"] reg show ?thesis by (simp add: registry_ok_def k_def)
  next
    case roomy
    then show ?thesis using assms(1) by auto
  qed
  then show "registry_ok n (make_room iter i reg)"
    and "i \<notin> fst ` set (sessions (make_room iter i reg)) \<Longrightarrow> length (sessions (make_room iter i reg)) < max n 1"
    by (simp_all add: k_def)
qed

lemma registry_put_ok:
  assumes "registry_ok n reg" and "iterates iter"
  shows "registry_ok n ((make_room iter i reg)\<lparr>sessions := put_session i s (sessions (make_room iter i reg))\<rparr>)"
proof -
  let ?reg = "make_room iter i reg"
  note room = make_room_ok [OF assms, of i]
  have "length (put_session i s (sessions ?reg)) \<le> max n 1"
    using room put_session_length [of i "sessions ?reg" s] unfolding registry_ok_def
    by (cases "i \<in> fst ` set (sessions ?reg)") (simp_all add: Suc_le_eq)
  then show ?thesis using room(1) by (simp add: registry_ok_def put_session_ids)
qed

lemma set_session_ids: "map fst (sessions (set_session i s reg)) = map fst (sessions reg)"
  by (simp add: set_session_def comp_def)

lemma set_session_ok: "registry_ok n reg \<Longrightarrow> registry_ok n (set_session i s reg)"
proof -
  have "length (sessions (set_session i s reg)) = length (sessions reg)"
    "max_sessions (set_session i s reg) = max_sessions reg"
    by (simp_all add: set_session_def)
  then show "registry_ok n reg \<Longrightarrow> registry_ok n (set_session i s reg)"
    by (simp add: registry_ok_def set_session_ids)
qed

inductive registry_reachable ::
  "((uuid \<times> 'f session) list \<Rightarrow> (uuid \<times> 'f session) list) \<Rightarrow> nat \<Rightarrow> nat \<Rightarrow> 'f session_registry \<Rightarrow> bool"
  for iter n rate where
  start: "registry_reachable iter n rate (registry_new n rate)"
| client: "registry_reachable iter n rate reg \<Longrightarrow> registry_reachable iter n rate (register iter i tok t reg)"
| control: "registry_reachable iter n rate reg \<Longrightarrow>
    install_probe_session env hex_decode iter u t req reg = Inr reg' \<Longrightarrow> registry_reachable iter n rate reg'"
| datagram: "registry_reachable iter n rate reg \<Longrightarrow>
    acknowledge_registered_probe hmac bs p u t reg = (ack, reg') \<Longrightarrow> registry_reachable iter n rate reg'"
| report: "registry_reachable iter n rate reg \<Longrightarrow> map_of (sessions reg) i = Some s \<Longrightarrow>
    registry_reachable iter n rate (set_session i (s\<lparr>session_window := w, session_state := m\<rparr>) reg)"

lemma acknowledge_cases:
  assumes "acknowledge_registered_probe hmac bs p u t reg = (ack, reg')"
  obtains (ignored) "ack = None" "reg' = reg"
  | (handled) h s ok r reply where "decode_unverified bs = Some h" "packet_type h = Probe"
      "declared_path h = Some p" "map_of (sessions reg) (session_id h) = Some s" "allows_probe p u s"
      "acknowledge_probe hmac bs (token s) = Some reply" "rate_allow t (udp_rate s) = (ok, r)"
      "reg' = set_session (session_id h) (s\<lparr>udp_rate := r\<rparr>) reg" "ack = (if ok then Some reply else None)"
proof -
  note defs = acknowledge_registered_probe_def
  show ?thesis
  proof (cases "decode_unverified bs")
    case None
    then show ?thesis using assms ignored by (simp add: defs)
  next
    case (Some h)
    show ?thesis
    proof (cases "packet_type h = Probe \<and> declared_path h = Some p")
      case False
      then show ?thesis
        using assms ignored Some by (auto simp: defs simp del: map_of_eq_None_iff split: option.splits if_splits)
    next
      case True
      show ?thesis
      proof (cases "map_of (sessions reg) (session_id h)")
        case None
        then show ?thesis using assms ignored Some True by (simp add: defs del: map_of_eq_None_iff)
      next
        case found: (Some s)
        show ?thesis
        proof (cases "allows_probe p u s \<and> acknowledge_probe hmac bs (token s) \<noteq> None")
          case False
          then show ?thesis using assms ignored Some True found by (auto simp: defs split: if_splits)
        next
          case ok: True
          obtain b r where rate: "rate_allow t (udp_rate s) = (b, r)" by fastforce
          obtain reply where reply: "acknowledge_probe hmac bs (token s) = Some reply" using ok by blast
          show ?thesis
            using assms Some True found ok rate reply by (intro handled [of h s reply b r]) (simp_all add: defs)
        qed
      qed
    qed
  qed
qed

lemma registry_reachable_ok:
  "registry_reachable iter n rate reg \<Longrightarrow> iterates iter \<Longrightarrow> registry_ok n reg"
proof (induction rule: registry_reachable.induct)
  case (control reg env hex_decode u t req reg')
  then show ?case
    by (auto simp: install_probe_session_def registry_install_def Let_def registry_put_ok
        split: option.splits if_splits)
next
  case (datagram reg hmac bs p u t ack reg')
  from datagram.hyps(2) show ?case
    by (rule acknowledge_cases) (use datagram in \<open>simp_all add: set_session_ok\<close>)
next
  case start
  show ?case by (simp add: registry_ok_def registry_new_def)
next
  case (client reg i tok t)
  then show ?case by (auto simp: register_def Let_def registry_put_ok)
qed (simp add: set_session_ok)

section \<open>The rate limit holds over any second\<close>

interpretation rate_log: aged_log "\<lambda>seen. seen" "secs 1"
  by unfold_locales (simp add: secs_def)

definition within_second :: "nat \<Rightarrow> nat \<Rightarrow> bool" where
  "within_second x t \<longleftrightarrow> x \<le> t \<and> t < x + secs 1"

text \<open>\<open>acc\<close>: the times granted so far; \<open>t\<close>: the clock.\<close>

definition rate_ok :: "nat \<Rightarrow> nat list \<Rightarrow> nat \<Rightarrow> rate_limiter \<Rightarrow> bool" where
  "rate_ok n acc t r \<longleftrightarrow> rate_limit r = n \<and> sorted acc \<and> (\<forall>a \<in> set acc. a \<le> t)
     \<and> (\<exists>u \<le> t. recent r = rate_log.prune u acc) \<and> (\<forall>x. length (filter (within_second x) acc) \<le> n)"

lemma rate_ok_new: "rate_ok n [] t (rate_new n)"
  by (auto simp: rate_ok_def rate_new_def rate_log.prune_def simp del: One_nat_def)

lemma rate_ok_later: "rate_ok n acc s r \<Longrightarrow> s \<le> t \<Longrightarrow> rate_ok n acc t r"
  unfolding rate_ok_def by (meson le_trans)

lemma rate_step:
  assumes "rate_ok n acc s r" and "s \<le> t" and "rate_allow t r = (ok, r')"
  shows "rate_ok n (if ok then acc @ [t] else acc) t r'"
proof -
  let ?kept = "rate_log.prune t acc"
  obtain u where r: "rate_limit r = n" "sorted acc" "\<forall>a \<in> set acc. a \<le> s" "u \<le> s"
      "recent r = rate_log.prune u acc" and few: "\<And>x. length (filter (within_second x) acc) \<le> n"
    using assms(1) by (auto simp: rate_ok_def)
  have kept: "dropWhile (\<lambda>seen. t - seen \<ge> secs 1) (recent r) = ?kept"
    using rate_log.prune_prune [of acc u t] r assms(2) by (simp add: rate_log.prune_def del: One_nat_def)
  have allow: "rate_allow t r = (if n \<le> length ?kept then (False, r\<lparr>recent := ?kept\<rparr>)
      else (True, r\<lparr>recent := ?kept @ [t]\<rparr>))"
    unfolding rate_allow_def kept r(1) Let_def ..
  have old: "\<forall>a \<in> set acc. a \<le> t" using r(3) assms(2) by auto
  show ?thesis
  proof (cases "length ?kept \<ge> n")
    case True
    then have "ok = False" "r' = r\<lparr>recent := ?kept\<rparr>"
      using assms(3) by (simp_all add: allow)
    then show ?thesis using r old few by (auto simp: rate_ok_def)
  next
    case False
    then have res: "ok = True" "r' = r\<lparr>recent := ?kept @ [t]\<rparr>"
      using assms(3) by (simp_all add: allow)
    have "length (filter (within_second x) (acc @ [t])) \<le> n" for x
    proof (cases "within_second x t")
      case True
      have "length (filter (within_second x) acc) \<le> length (filter (\<lambda>a. t - a < secs 1) acc)"
        using True by (intro length_filter_mono) (auto simp: within_second_def secs_def)
      also have "\<dots> = length ?kept" using r(2) by (simp add: rate_log.prune_filter del: One_nat_def)
      finally show ?thesis using False True by simp
    qed (use few in simp)
    moreover have "rate_log.prune t (acc @ [t]) = ?kept @ [t]" by (rule rate_log.prune_snoc_now) simp
    ultimately show ?thesis
      using res r old by (auto simp: rate_ok_def sorted_append intro!: exI [of _ t])
  qed
qed

text \<open>Datagrams as they arrive (bytes, path, wall clock, monotonic clock) and the times at which
  probes of session \<open>i\<close> are answered.\<close>

type_synonym datagram = "bytes \<times> transport_kind \<times> int \<times> nat"

fun ack_times :: "(bytes \<Rightarrow> bytes \<Rightarrow> bytes) \<Rightarrow> uuid \<Rightarrow> 'f session_registry \<Rightarrow> datagram list \<Rightarrow> nat list" where
  "ack_times hmac i reg [] = []"
| "ack_times hmac i reg ((bs, p, u, t) # ds) =
     (case acknowledge_registered_probe hmac bs p u t reg of
        (Some _, reg') \<Rightarrow>
          (if map_option session_id (decode_unverified bs) = Some i then [t] else []) @ ack_times hmac i reg' ds
      | (None, reg') \<Rightarrow> ack_times hmac i reg' ds)"

lemma map_of_set_session:
  "map_of (sessions (set_session i s reg)) j = (if i = j \<and> map_of (sessions reg) i \<noteq> None then Some s
     else map_of (sessions reg) j)"
proof -
  have "map_of (map (\<lambda>x. if fst x = i then (i, s) else x) xs) j
      = (if i = j \<and> map_of xs i \<noteq> None then Some s else map_of xs j)" for xs
    by (induction xs) auto
  then show ?thesis by (simp add: set_session_def)
qed

text \<open>The registry after a sequence of datagrams.\<close>

fun after_datagrams :: "(bytes \<Rightarrow> bytes \<Rightarrow> bytes) \<Rightarrow> 'f session_registry \<Rightarrow> datagram list \<Rightarrow> 'f session_registry" where
  "after_datagrams hmac reg [] = reg"
| "after_datagrams hmac reg ((bs, p, u, t) # ds) =
     after_datagrams hmac (snd (acknowledge_registered_probe hmac bs p u t reg)) ds"

definition arrival :: "datagram \<Rightarrow> nat" where
  "arrival d = snd (snd (snd d))"

lemma arrival_simps [simp]: "arrival (bs, p, u, t) = t"
  by (simp add: arrival_def)

lemma arrival_eq: "arrival = (\<lambda>(_, _, _, t). t)"
  by (auto simp: arrival_def fun_eq_iff)

text \<open>Datagrams change of a session only its limiter, which has seen exactly the answers given.\<close>

lemma session_history:
  assumes "map_of (sessions reg) i = Some s" and "rate_ok n acc t0 (udp_rate s)"
    and "sorted (map arrival ds)" and "\<forall>d \<in> set ds. t0 \<le> arrival d \<and> arrival d \<le> t1" and "t0 \<le> t1"
  shows "\<exists>r. map_of (sessions (after_datagrams hmac reg ds)) i = Some (s\<lparr>udp_rate := r\<rparr>)
    \<and> rate_ok n (acc @ ack_times hmac i reg ds) t1 r"
  using assms
proof (induction ds arbitrary: reg s acc t0)
  case Nil
  then show ?case using rate_ok_later by (intro exI [of _ "udp_rate s"]) auto
next
  case (Cons d ds)
  obtain bs p u t where d: "d = (bs, p, u, t)" by (cases d) auto
  have le: "t0 \<le> t" "t \<le> t1" and rest: "sorted (map arrival ds)" "\<forall>d \<in> set ds. t \<le> arrival d \<and> arrival d \<le> t1"
    using Cons.prems(3,4) by (auto simp: d)
  note now = rate_ok_later [OF Cons.prems(2) le(1)]
  obtain ack reg' where step: "acknowledge_registered_probe hmac bs p u t reg = (ack, reg')" by fastforce
  then show ?case
  proof (cases rule: acknowledge_cases)
    case ignored
    then show ?thesis
      using Cons.IH [OF Cons.prems(1) now rest le(2)] by (simp add: d step)
  next
    case (handled h s' ok r reply)
    show ?thesis
    proof (cases "session_id h = i")
      case True
      then have "s' = s" using handled Cons.prems(1) by simp
      then have "rate_ok n (if ok then acc @ [t] else acc) t r"
        using rate_step [OF Cons.prems(2) le(1)] handled by simp
      moreover have "map_of (sessions reg') i = Some (s\<lparr>udp_rate := r\<rparr>)"
        using handled True \<open>s' = s\<close> by (simp add: map_of_set_session)
      ultimately show ?thesis
        using Cons.IH [of reg' "s\<lparr>udp_rate := r\<rparr>" "if ok then acc @ [t] else acc" t] rest le(2) handled True
        by (cases ok) (simp_all add: d step)
    next
      case False
      then have "map_of (sessions reg') i = Some s"
        using handled Cons.prems(1) by (simp add: map_of_set_session)
      from Cons.IH [OF this now rest le(2)] show ?thesis
        using handled False by (cases ok) (simp_all add: d step)
    qed
  qed
qed

lemma fresh_history:
  assumes "map_of (sessions reg) i = Some s" and "recent (udp_rate s) = []"
    and "sorted (map arrival ds)" and "\<forall>d \<in> set ds. arrival d \<le> t"
  shows "\<exists>r. map_of (sessions (after_datagrams hmac reg ds)) i = Some (s\<lparr>udp_rate := r\<rparr>)
    \<and> rate_ok (rate_limit (udp_rate s)) (ack_times hmac i reg ds) t r"
proof -
  have "udp_rate s = rate_new (rate_limit (udp_rate s))"
    using assms(2) by (cases "udp_rate s") (simp add: rate_new_def)
  then have "rate_ok (rate_limit (udp_rate s)) [] 0 (udp_rate s)" using rate_ok_new by metis
  from session_history [OF assms(1) this assms(3)] assms(4) show ?thesis by simp
qed

lemma rate_granted:
  assumes "rate_ok n acc t r"
  shows "fst (rate_allow t r) \<longleftrightarrow> length (filter (\<lambda>a. t < a + secs 1) acc) < n"
proof -
  obtain u where r: "rate_limit r = n" "sorted acc" "\<forall>a \<in> set acc. a \<le> t" "u \<le> t" "recent r = rate_log.prune u acc"
    using assms by (auto simp: rate_ok_def)
  have "dropWhile (\<lambda>seen. t - seen \<ge> secs 1) (recent r) = filter (\<lambda>a. t - a < secs 1) acc"
    using rate_log.prune_prune [of acc u t] rate_log.prune_filter [of acc t] r
    by (simp add: rate_log.prune_def del: One_nat_def)
  also have "\<dots> = filter (\<lambda>a. t < a + secs 1) acc"
    by (intro filter_cong) (auto simp: secs_def)
  finally show ?thesis by (simp add: rate_allow_def Let_def r(1) not_le del: One_nat_def)
qed

lemma declared_path_decoded:
  assumes "packet_ok q"
  shows "declared_path q = Some p \<longleftrightarrow> version q = 1 \<and> p = TransportDirect
    \<or> version q \<noteq> 1 \<and> (path q = Direct \<and> p = TransportDirect
        \<or> path q = CloudflareTurn \<and> p = TransportCloudflareTurn)"
  using packet_ok_version [OF assms] assms by (auto simp: declared_path_def packet_ok_def split: if_splits)

lemma verified_decodes: "decode_and_verify hmac bs tok = Some q \<Longrightarrow> decode_unverified bs = Some q"
  by (simp add: decode_and_verify_iff)

lemma declared_path_verified:
  "decode_and_verify hmac bs tok = Some q \<Longrightarrow> declared_path q = Some p \<longleftrightarrow> version q = 1 \<and> p = TransportDirect
    \<or> version q \<noteq> 1 \<and> (path q = Direct \<and> p = TransportDirect
        \<or> path q = CloudflareTurn \<and> p = TransportCloudflareTurn)"
  by (intro declared_path_decoded length_decoded(2) [of bs]) (rule verified_decodes)

lemma allows_probe_iff:
  "allows_probe p u s \<longleftrightarrow> (expires_at s = None \<or> (\<exists>e. expires_at s = Some e \<and> u < e)) \<and> p \<in> set (allowed_probe_paths s)"
  by (auto simp: allows_probe_def split: option.splits)

lemma acknowledge_probe_iff:
  "acknowledge_probe hmac bs tok = Some ack \<longleftrightarrow>
    (\<exists>q. decode_and_verify hmac bs tok = Some q \<and> packet_type q = Probe
      \<and> ack = encode hmac (q\<lparr>packet_type := Ack,
          observed_payload_size := (if version q = 3 then of_nat (length bs) else 0)\<rparr>) tok)"
  using length_verified [of hmac bs tok]
  by (cases "decode_and_verify hmac bs tok") (auto simp: acknowledge_probe_def)

section \<open>Properties\<close>

text \<open>C34: whatever clients register, the control plane installs and probes arrive, the registry
  never holds more sessions than its capacity and never two for one identifier; making room
  removes a session that was registered no later than any other.\<close>

theorem registry_bounded:
  assumes "registry_reachable iter n rate reg" and "iterates iter"
  shows "length (sessions reg) \<le> max n 1 \<and> distinct (map fst (sessions reg))
    \<and> (make_room iter i reg = reg \<or> (\<exists>v \<in> set (sessions reg).
        sessions (make_room iter i reg) = filter (\<lambda>x. fst x \<noteq> fst v) (sessions reg)
        \<and> (\<forall>y \<in> set (sessions reg). registered_at (snd v) \<le> registered_at (snd y))))"
proof -
  have ok: "registry_ok n reg" by (rule registry_reachable_ok [OF assms])
  have "make_room iter i reg = reg \<or> (\<exists>v \<in> set (sessions reg).
        sessions (make_room iter i reg) = filter (\<lambda>x. fst x \<noteq> fst v) (sessions reg)
        \<and> (\<forall>y \<in> set (sessions reg). registered_at (snd v) \<le> registered_at (snd y)))"
  proof (cases "make_room iter i reg = reg")
    case False
    then have "max_sessions reg \<le> length (sessions reg)"
        "sessions (make_room iter i reg) = evict_oldest iter (sessions reg)"
      by (auto simp: make_room_def split: if_splits)
    moreover have "0 < max_sessions reg" using ok by (simp add: registry_ok_def)
    ultimately show ?thesis using evict_oldest_removes [OF assms(2), of "sessions reg"] by fastforce
  qed simp
  then show ?thesis using ok by (simp add: registry_ok_def)
qed

theorem registry_bounded_witness:
  "length (sessions (register (\<lambda>xs. xs) 2 [9] 7 (register (\<lambda>xs. xs) 1 [8] 5
      (registry_new 1 20 :: unit session_registry)))) \<le> 1"
proof -
  let ?r = "register (\<lambda>xs. xs) 2 [9] 7 (register (\<lambda>xs. xs) 1 [8] 5 (registry_new 1 20 :: unit session_registry))"
  have "registry_reachable (\<lambda>xs. xs) 1 20 ?r" by (intro registry_reachable.client registry_reachable.start)
  from registry_bounded [OF this] show ?thesis by (simp add: iterates_def)
qed

text \<open>C35: after any sequence of datagrams in clock order, a datagram for a session whose limiter was
  fresh before them is answered exactly when it is an authentic probe under the session's token,
  came by the path it declares (direct for version 1, the one its path byte names for versions 2 and
  3), the session has not expired and allows that path, and fewer probes than its limit were answered
  in the last second; the answer is the acknowledgement of that probe with the size that arrived.\<close>

theorem probe_ack_authorised:
  assumes "map_of (sessions reg) i = Some s" and "recent (udp_rate s) = []"
    and "sorted (map (\<lambda>(_, _, _, t). t) ds)" and "\<forall>(_, _, _, t') \<in> set ds. t' \<le> t"
  shows "(map_option session_id (decode_unverified bs) = Some i
      \<and> (\<exists>reg'. acknowledge_registered_probe hmac bs p u t (after_datagrams hmac reg ds) = (Some ack, reg'))) \<longleftrightarrow>
    (\<exists>q. decode_and_verify hmac bs (token s) = Some q \<and> packet_type q = Probe \<and> session_id q = i
      \<and> (version q = 1 \<and> p = TransportDirect
          \<or> version q \<noteq> 1 \<and> (path q = Direct \<and> p = TransportDirect
              \<or> path q = CloudflareTurn \<and> p = TransportCloudflareTurn))
      \<and> (expires_at s = None \<or> (\<exists>e. expires_at s = Some e \<and> u < e)) \<and> p \<in> set (allowed_probe_paths s)
      \<and> length (filter (\<lambda>a. t < a + secs 1) (ack_times hmac i reg ds)) < rate_limit (udp_rate s)
      \<and> ack = encode hmac (q\<lparr>packet_type := Ack,
          observed_payload_size := (if version q = 3 then of_nat (length bs) else 0)\<rparr>) (token s))"
proof -
  obtain r where now: "map_of (sessions (after_datagrams hmac reg ds)) i = Some (s\<lparr>udp_rate := r\<rparr>)"
      and rate: "rate_ok (rate_limit (udp_rate s)) (ack_times hmac i reg ds) t r"
    using fresh_history [OF assms(1,2), of ds t hmac] assms(3,4) by (auto simp: arrival_eq case_prod_beta)
  have "map_option session_id (decode_unverified bs) = Some i
      \<and> (\<exists>reg'. acknowledge_registered_probe hmac bs p u t (after_datagrams hmac reg ds) = (Some ack, reg')) \<longleftrightarrow>
    (\<exists>h. decode_unverified bs = Some h \<and> session_id h = i \<and> packet_type h = Probe \<and> declared_path h = Some p
      \<and> allows_probe p u s \<and> acknowledge_probe hmac bs (token s) = Some ack \<and> fst (rate_allow t r))"
    (is "?L \<longleftrightarrow> ?M")
  proof
    assume L: ?L
    then obtain reg' where "acknowledge_registered_probe hmac bs p u t (after_datagrams hmac reg ds) = (Some ack, reg')"
      by blast
    then show ?M
      by (cases rule: acknowledge_cases) (use L now in \<open>auto simp: allows_probe_def split: if_splits\<close>)
  next
    assume ?M
    then show ?L using now
      by (auto simp: acknowledge_registered_probe_def allows_probe_def Let_def case_prod_beta)
  qed
  also have "?M \<longleftrightarrow> (\<exists>q. decode_and_verify hmac bs (token s) = Some q \<and> packet_type q = Probe \<and> session_id q = i
      \<and> declared_path q = Some p \<and> allows_probe p u s \<and> fst (rate_allow t r)
      \<and> ack = encode hmac (q\<lparr>packet_type := Ack,
          observed_payload_size := (if version q = 3 then of_nat (length bs) else 0)\<rparr>) (token s))"
    unfolding acknowledge_probe_iff using verified_decodes [of hmac bs "token s"]
    by (cases "decode_and_verify hmac bs (token s)") (simp, simp add: ac_simps)
  also have "\<dots> \<longleftrightarrow> (\<exists>q. decode_and_verify hmac bs (token s) = Some q \<and> packet_type q = Probe \<and> session_id q = i
      \<and> (version q = 1 \<and> p = TransportDirect
          \<or> version q \<noteq> 1 \<and> (path q = Direct \<and> p = TransportDirect
              \<or> path q = CloudflareTurn \<and> p = TransportCloudflareTurn))
      \<and> allows_probe p u s \<and> fst (rate_allow t r)
      \<and> ack = encode hmac (q\<lparr>packet_type := Ack,
          observed_payload_size := (if version q = 3 then of_nat (length bs) else 0)\<rparr>) (token s))"
    by (simp only: declared_path_verified cong: conj_cong)
  finally show ?thesis unfolding rate_granted [OF rate] allows_probe_iff by (simp only: conj_assoc)
qed

text \<open>C36: over any one second a session answers at most as many probes as its limit, for every
  sequence of datagrams for all sessions in clock order.\<close>

theorem probe_rate_bounded:
  assumes "map_of (sessions reg) i = Some s" and "recent (udp_rate s) = []"
    and "sorted (map (\<lambda>(_, _, _, t). t) ds)"
  shows "length (filter (\<lambda>t. x \<le> t \<and> t < x + secs 1) (ack_times hmac i reg ds)) \<le> rate_limit (udp_rate s)"
proof -
  define t where "t = Max (insert 0 (arrival ` set ds))"
  have "\<forall>d \<in> set ds. arrival d \<le> t" unfolding t_def by (simp del: Max_insert)
  with fresh_history [OF assms(1,2), of ds t hmac] assms(3) show ?thesis
    by (auto simp: arrival_eq rate_ok_def within_second_def [abs_def])
qed

definition sample_registry :: "unit session_registry" where
  "sample_registry = \<lparr>sessions = [(5, fresh_session [1] 1 [TransportDirect] None 0)], max_sessions = 4,
     udp_rate_limit = 20\<rparr>"

lemma sample_probe_acks:
  defines "probe \<equiv> encode demo_mac (probe_v2 Probe Direct 3 5 0) [1]"
  shows "ack_times demo_mac 5 sample_registry [(probe, TransportDirect, 0, 0), (probe, TransportDirect, 0, 5)] = [0]"
    and "ack_times demo_mac 5 sample_registry
      [(probe, TransportDirect, 0, 0), (probe, TransportDirect, 0, 5), (probe, TransportDirect, 0, secs 1)] = [0, secs 1]"
proof -
  have dec: "decode_unverified probe = Some (probe_v2 Probe Direct 3 5 0)" unfolding probe_def by code_simp
  have "acknowledge_probe demo_mac probe [1] \<noteq> None" unfolding probe_def by code_simp
  then obtain ack where ack: "acknowledge_probe demo_mac probe [1] = Some ack" by blast
  note defs = acknowledge_registered_probe_def dec ack probe_v2_def declared_path_def sample_registry_def
    fresh_session_def allows_probe_def rate_new_def rate_allow_def set_session_def secs_def
  show "ack_times demo_mac 5 sample_registry [(probe, TransportDirect, 0, 0), (probe, TransportDirect, 0, 5)] = [0]"
    and "ack_times demo_mac 5 sample_registry
      [(probe, TransportDirect, 0, 0), (probe, TransportDirect, 0, 5), (probe, TransportDirect, 0, secs 1)] = [0, secs 1]"
    by (simp_all add: defs)
qed

lemma sample_session:
  "map_of (sessions sample_registry) 5 = Some (fresh_session [1] 1 [TransportDirect] None 0)"
  "recent (udp_rate (fresh_session [1] 1 [TransportDirect] None 0 :: unit session)) = []"
  "rate_limit (udp_rate (fresh_session [1] 1 [TransportDirect] None 0 :: unit session)) = 1"
  by (simp_all add: sample_registry_def fresh_session_def rate_new_def)

text \<open>A probe is answered at 0, not at 5 nanoseconds, and again after one second.\<close>

theorem probe_ack_authorised_witness:
  "let probe = encode demo_mac (probe_v2 Probe Direct 3 5 0) [1];
       ds = [(probe, TransportDirect, 0, 0), (probe, TransportDirect, 0, 5)]
   in \<exists>reg'. acknowledge_registered_probe demo_mac probe TransportDirect 0 (secs 1)
        (after_datagrams demo_mac sample_registry ds)
      = (Some (encode demo_mac (probe_v2 Ack Direct 3 5 0) [1]), reg')"
proof -
  define probe where "probe = encode demo_mac (probe_v2 Probe Direct 3 5 0) [1]"
  let ?ds = "[(probe, TransportDirect, 0, 0), (probe, TransportDirect, 0, 5)] :: datagram list"
  let ?ack = "encode demo_mac (probe_v2 Ack Direct 3 5 0) [1]"
  have dec: "decode_and_verify demo_mac probe [1] = Some (probe_v2 Probe Direct 3 5 0)" unfolding probe_def by code_simp
  note times = sample_probe_acks(1) [folded probe_def]
  have fields: "token (fresh_session [1] 1 [TransportDirect] None 0 :: unit session) = [1]"
      "expires_at (fresh_session [1] 1 [TransportDirect] None 0 :: unit session) = None"
      "allowed_probe_paths (fresh_session [1] 1 [TransportDirect] None 0 :: unit session) = [TransportDirect]"
    by (simp_all add: fresh_session_def)
  have "sorted (map (\<lambda>(_, _, _, t). t) ?ds)" "\<forall>(_, _, _, t') \<in> set ?ds. t' \<le> secs 1"
    by (simp_all add: secs_def)
  from probe_ack_authorised [OF sample_session(1,2) this, of probe demo_mac TransportDirect 0 ?ack]
  have "\<exists>reg'. acknowledge_registered_probe demo_mac probe TransportDirect 0 (secs 1)
        (after_datagrams demo_mac sample_registry ?ds) = (Some ?ack, reg')"
    unfolding times sample_session(3) fields dec
    by (simp add: probe_v2_def secs_def del: after_datagrams.simps ack_times.simps)
  then show ?thesis unfolding Let_def probe_def .
qed

theorem probe_rate_bounded_witness:
  "let probe = encode demo_mac (probe_v2 Probe Direct 3 5 0) [1];
       ds = [(probe, TransportDirect, 0, 0), (probe, TransportDirect, 0, 5), (probe, TransportDirect, 0, secs 1)]
   in ack_times demo_mac 5 sample_registry ds = [0, secs 1]
     \<and> length (filter (\<lambda>t. 0 \<le> t \<and> t < 0 + secs 1) (ack_times demo_mac 5 sample_registry ds)) \<le> 1"
proof -
  define probe where "probe = encode demo_mac (probe_v2 Probe Direct 3 5 0) [1]"
  let ?ds = "[(probe, TransportDirect, 0, 0), (probe, TransportDirect, 0, 5), (probe, TransportDirect, 0, secs 1)]"
  note times = sample_probe_acks(2) [folded probe_def]
  let ?s = "fresh_session [1] 1 [TransportDirect] None 0 :: unit session"
  note sample_session(1,2)
  moreover have "sorted (map (\<lambda>(_, _, _, t). t) ?ds)" by (simp add: secs_def)
  ultimately have "length (filter (\<lambda>t. 0 \<le> t \<and> t < 0 + secs 1) (ack_times demo_mac 5 sample_registry ?ds))
      \<le> rate_limit (udp_rate ?s)"
    by (rule probe_rate_bounded)
  then have "length (filter (\<lambda>t. 0 \<le> t \<and> t < 0 + secs 1) (ack_times demo_mac 5 sample_registry ?ds)) \<le> 1"
    by (simp add: fresh_session_def rate_new_def del: ack_times.simps)
  with times show ?thesis unfolding Let_def probe_def by blast
qed

end
