(* ===== verification/Profile_Transactions.thy ===== *)
theory Profile_Transactions
  imports Turn_Manager
begin

text \<open>
  What the profile transactions of \<^verbatim>\<open>Turn_Manager\<close> guarantee across failures and crashes: a
  small program logic for the manager's operations (\<open>op_logic\<close>), the invariant of memory, state
  file and interface, and the properties built on it.
\<close>

section \<open>A logic for operations that may fail or crash\<close>

locale op_logic =
  fixes running :: "manager \<Rightarrow> bool" and durable :: "manager \<Rightarrow> bool"
  assumes running_durable: "running m \<Longrightarrow> durable m"
begin

text \<open>From \<open>P\<close>, a result satisfies \<open>Q\<close>, an error \<open>E\<close>, and a crash leaves a durable state.\<close>

definition triple :: "(manager \<Rightarrow> bool) \<Rightarrow> 'a op \<Rightarrow> ('a \<Rightarrow> manager \<Rightarrow> bool) \<Rightarrow> (manager \<Rightarrow> bool) \<Rightarrow> bool" where
  "triple P f Q E \<longleftrightarrow> (\<forall>m. P m \<longrightarrow> (case f m of (Done x, m') \<Rightarrow> Q x m' | (Err _, m') \<Rightarrow> E m'
     | (Crashed, m') \<Rightarrow> durable m'))"

lemma triple_andThen:
  "triple P f Q E \<Longrightarrow> (\<And>x. triple (Q x) (g x) S E) \<Longrightarrow> triple P (andThen f g) S E"
  unfolding triple_def andThen_def by (fastforce split: prod.splits outcome.splits)

lemma triple_caught:
  "triple P f Q E \<Longrightarrow> (\<And>x. triple (Q x) (g (Inr x)) S E') \<Longrightarrow> (\<And>e. triple E (g (Inl e)) S E') \<Longrightarrow>
   triple P (caught f g) S E'"
  unfolding triple_def caught_def by (fastforce split: prod.splits outcome.splits)

lemma triple_return: "(\<And>m. P m \<Longrightarrow> Q x m) \<Longrightarrow> triple P (return x) Q E"
  by (simp add: triple_def return_def)

lemma triple_bail: "(\<And>m. P m \<Longrightarrow> E m) \<Longrightarrow> triple P (bail e) Q E"
  by (simp add: triple_def bail_def)

lemma triple_pre: "triple P f Q E \<Longrightarrow> (\<And>m. P' m \<Longrightarrow> P m) \<Longrightarrow> triple P' f Q E"
  by (simp add: triple_def)

lemma triple_post:
  "triple P f Q E \<Longrightarrow> (\<And>x m. Q x m \<Longrightarrow> Q' x m) \<Longrightarrow> (\<And>m. E m \<Longrightarrow> E' m) \<Longrightarrow> triple P f Q' E'"
  unfolding triple_def by (fastforce split: prod.splits outcome.splits)

text \<open>The operations that keep the invariant whatever happens.\<close>

definition keeps :: "'a op \<Rightarrow> bool" where
  "keeps f \<longleftrightarrow> triple running f (\<lambda>_. running) running"

lemma keeps_seq: "keeps f \<Longrightarrow> (\<And>x. keeps (g x)) \<Longrightarrow> keeps (andThen f g)"
  unfolding keeps_def by (rule triple_andThen)

lemma keeps_caught: "keeps f \<Longrightarrow> (\<And>r. keeps (g r)) \<Longrightarrow> keeps (caught f g)"
  unfolding keeps_def by (rule triple_caught)

lemma keeps_return [intro, simp]: "keeps (return x)"
  unfolding keeps_def by (rule triple_return)

lemma keeps_bail [intro, simp]: "keeps (bail e)"
  unfolding keeps_def by (rule triple_bail)

lemma keeps_get_state [intro, simp]: "keeps get_state"
  by (simp add: keeps_def triple_def get_state_def)

lemma keeps_get_state_then:
  assumes "\<And>st. triple (\<lambda>m. running m \<and> hs m = st) (g st) (\<lambda>_. running) running"
  shows "keeps (andThen get_state g)"
  using assms by (simp add: keeps_def triple_def andThen_def get_state_def)

lemma keeps_result:
  "keeps f \<Longrightarrow> running m \<Longrightarrow> f m = (r, m') \<Longrightarrow> (if r = Crashed then durable m' else running m')"
  by (cases r) (auto simp: keeps_def triple_def dest!: spec [of _ m])

lemma keeps_triple: "keeps f \<Longrightarrow> triple (\<lambda>m. running m \<and> P m) f (\<lambda>_. running) running"
  unfolding keeps_def by (rule triple_pre [where P = running]) simp_all

end

section \<open>The invariant\<close>

text \<open>The MTU of the committed profile, or the interface's own MTU \<open>m0\<close> before any commit.\<close>

definition base_mtu :: "u16 \<Rightarrow> host_network_state \<Rightarrow> u16" where
  "base_mtu m0 st = (case committed_profile st of Some c \<Rightarrow> inner_mtu c | None \<Rightarrow> m0)"

text \<open>
  The state file can always bring the interface back: an open transaction has journaled the
  committed MTU, and before the first journal entry the MTU was not touched.
\<close>

definition file_ok :: "u16 \<Rightarrow> u16 \<Rightarrow> host_network_state \<Rightarrow> bool" where
  "file_ok m0 mtu st =
     (case pending st of
        Some p \<Rightarrow> previous_mtu p = base_mtu m0 st
      | None \<Rightarrow> committed_profile st \<noteq> None \<or> mtu = m0)"

definition durable :: "u16 \<Rightarrow> manager \<Rightarrow> bool" where
  "durable m0 m =
     (case disk m of
        Some st \<Rightarrow> file_ok m0 (link_mtu m) st \<and> mtu_in_range (base_mtu m0 st)
      | None \<Rightarrow> link_mtu m = m0 \<and> mtu_in_range m0)"

definition memory_ok :: "u16 \<Rightarrow> u16 \<Rightarrow> host_network_state \<Rightarrow> bool" where
  "memory_ok m0 mtu st =
     (case pending st of
        None \<Rightarrow> mtu = base_mtu m0 st
      | Some p \<Rightarrow> previous_mtu p = base_mtu m0 st \<and> mtu_in_range (inner_mtu (pending_target p))
          \<and> profile_revision (pending_target p) = saturating_inc (committed_revision st)
          \<and> (mtu = base_mtu m0 st \<or> mtu = inner_mtu (pending_target p)))"

definition running :: "u16 \<Rightarrow> manager \<Rightarrow> bool" where
  "running m0 m \<longleftrightarrow> durable m0 m \<and> disk m \<noteq> None \<and> memory_ok m0 (link_mtu m) (hs m)
     \<and> mtu_in_range (base_mtu m0 (hs m))
     \<and> (committed_profile (the (disk m)) = None \<longrightarrow> committed_profile (hs m) = None)"

interpretation profile: op_logic "running m0" "durable m0" for m0
  by unfold_locales (simp add: running_def)

definition same_core :: "host_network_state \<Rightarrow> host_network_state \<Rightarrow> bool" where
  "same_core a b \<longleftrightarrow> pending a = pending b \<and> committed_profile a = committed_profile b"

lemma core_base: "same_core a b \<Longrightarrow> base_mtu m0 a = base_mtu m0 b"
  by (simp add: same_core_def base_mtu_def)

lemma core_revision: "same_core a b \<Longrightarrow> committed_revision a = committed_revision b"
  by (simp add: same_core_def committed_revision_def)

lemma core_memory: "same_core a b \<Longrightarrow> memory_ok m0 mtu a = memory_ok m0 mtu b"
  using core_base [of a b m0] core_revision [of a b]
  by (simp add: same_core_def memory_ok_def split: option.split)

lemma running_core:
  assumes "running m0 m" and "same_core st (hs m)"
  shows "running m0 (m\<lparr>hs := st\<rparr>)" and "durable m0 (m\<lparr>disk := Some st\<rparr>)"
    and "running m0 (m\<lparr>disk := Some st\<rparr>)"
proof -
  have base: "base_mtu m0 st = base_mtu m0 (hs m)" and mem: "memory_ok m0 x st = memory_ok m0 x (hs m)"
    and eqs: "pending st = pending (hs m)" "committed_profile st = committed_profile (hs m)" for x
    using assms(2) core_base [OF assms(2)] core_memory [OF assms(2)] by (simp_all add: same_core_def)
  have "file_ok m0 (link_mtu m) st"
    using assms(1) by (auto simp: running_def memory_ok_def file_ok_def eqs base base_mtu_def
        split: option.splits)
  then show "durable m0 (m\<lparr>disk := Some st\<rparr>)" "running m0 (m\<lparr>disk := Some st\<rparr>)"
    using assms(1) by (simp_all add: running_def durable_def base eqs)
  show "running m0 (m\<lparr>hs := st\<rparr>)"
    using assms(1) by (simp add: running_def durable_def base mem eqs split: option.splits)
qed

lemma running_other [simp]:
  "running m0 (m\<lparr>calls := n\<rparr>) = running m0 m" "running m0 (m\<lparr>bridge := b\<rparr>) = running m0 m"
  "running m0 (m\<lparr>last_prepare := x\<rparr>) = running m0 m" "durable m0 (m\<lparr>calls := n\<rparr>) = durable m0 m"
  by (simp_all add: running_def durable_def split: option.split)

lemma same_core_simps [simp]:
  "same_core st st" "same_core (bump t st) st = True" "same_core (set_observed_mtu x st) st"
  "same_core (turn_status_update f st) st" "same_core (ready_state t req e st) st"
  "same_core (note_transport b st) st"
  by (simp_all add: same_core_def bump_def set_observed_mtu_def ready_state_def note_transport_def
      split: option.split)

lemma keeps_update: "(\<And>st. same_core (f st) st) \<Longrightarrow> profile.keeps m0 (update_state f)"
  by (simp add: profile.keeps_def profile.triple_def update_state_def running_core)

lemma keeps_utc_now [intro, simp]: "profile.keeps m0 (utc_now env)"
  by (simp add: profile.keeps_def profile.triple_def utc_now_def)

lemma keeps_touch [intro, simp]: "profile.keeps m0 (touch env)"
  unfolding touch_def by (intro profile.keeps_seq keeps_update) simp_all

lemma keeps_effect_id [intro, simp]: "profile.keeps m0 (effect flt e (\<lambda>m. m))"
  by (auto simp: profile.keeps_def profile.triple_def effect_def Let_def profile.running_durable
      split: io_fault.split)

lemma keeps_persist: "same_core st st' \<Longrightarrow>
  profile.triple m0 (\<lambda>m. running m0 m \<and> hs m = st') (persist_state env st)
    (\<lambda>_ m. running m0 m \<and> hs m = st') (running m0)"
  by (auto simp: profile.triple_def persist_state_def effect_def Let_def profile.running_durable
      running_core split: io_fault.split)

lemma keeps_persist_current [intro, simp]: "profile.keeps m0 (persist_current env)"
  unfolding persist_current_def
  by (rule profile.keeps_get_state_then, rule profile.triple_post [OF keeps_persist]) simp_all

lemma keeps_get_mtu [intro, simp]: "profile.keeps m0 (get_mtu env i)"
proof -
  have "profile.keeps m0 (\<lambda>m. (Done (link_mtu m), m))"
    by (simp add: profile.keeps_def profile.triple_def)
  then show ?thesis unfolding get_mtu_def by (simp add: profile.keeps_seq)
qed

section \<open>Operations keep it\<close>

text \<open>
  Setting the MTU is assumed to leave it alone when it reports an error (it may still crash
  half way).
\<close>

definition link_clean :: "net_env \<Rightarrow> bool" where
  "link_clean env \<longleftrightarrow> (\<forall>n. link_fault env n \<noteq> FailAfter)"

lemma running_pending:
  assumes "running m0 m" and "pending (hs m) = Some p"
  shows "previous_mtu p = base_mtu m0 (hs m)" and "mtu_in_range (previous_mtu p)"
    and "running m0 (m\<lparr>calls := n, link_mtu := previous_mtu p\<rparr>)"
    and "running m0 (m\<lparr>calls := n, link_mtu := previous_mtu p,
      hs := set_observed_mtu x (clear_pending (hs m))\<rparr>)"
  using assms
  by (auto simp: running_def memory_ok_def durable_def file_ok_def base_mtu_def clear_pending_def
      set_observed_mtu_def split: option.splits)

lemma set_previous:
  assumes "link_clean env"
  shows "profile.triple m0 (\<lambda>m. running m0 m \<and> pending (hs m) = Some p)
    (set_mtu env i (previous_mtu p))
    (\<lambda>_ m. running m0 (m\<lparr>hs := set_observed_mtu (previous_mtu p) (clear_pending (hs m))\<rparr>)) (running m0)"
  using assms
  by (auto simp: profile.triple_def set_mtu_def bail_def effect_def Let_def link_clean_def
      intro: profile.running_durable running_pending(3,4) split: io_fault.split)

lemma keeps_with_context:
  "profile.triple m0 P f Q (running m0) \<Longrightarrow> profile.triple m0 P (with_context c f) Q (running m0)"
  unfolding with_context_def
  by (rule profile.triple_caught) (auto intro: profile.triple_return profile.triple_bail)

lemma roll_back_triple:
  assumes "link_clean env"
  shows "profile.triple m0 (\<lambda>m. running m0 m \<and> pending (hs m) = Some p)
    (roll_back env i p msg) (\<lambda>_. running m0) (running m0)"
  unfolding roll_back_def
proof (rule profile.triple_andThen)
  show "profile.triple m0 (\<lambda>m. running m0 m \<and> pending (hs m) = Some p)
      (with_context msg (set_mtu env i (previous_mtu p)))
      (\<lambda>_ m. running m0 (m\<lparr>hs := set_observed_mtu (previous_mtu p) (clear_pending (hs m))\<rparr>)) (running m0)"
    by (intro keeps_with_context set_previous assms)
next
  fix u
  have "profile.keeps m0 (andThen (touch env) (\<lambda>_. persist_current env))"
    by (intro profile.keeps_seq) auto
  then show "profile.triple m0
      (\<lambda>m. running m0 (m\<lparr>hs := set_observed_mtu (previous_mtu p) (clear_pending (hs m))\<rparr>))
      (andThen (update_state (set_observed_mtu (previous_mtu p) \<circ> clear_pending))
        (\<lambda>_. andThen (touch env) (\<lambda>_. persist_current env))) (\<lambda>_. running m0) (running m0)"
    by (auto simp: profile.keeps_def profile.triple_def andThen_def update_state_def)
qed

lemma keeps_reconcile:
  assumes "link_clean env"
  shows "profile.keeps m0 (reconcile_expired_profile env i)"
  unfolding reconcile_expired_profile_def
proof (rule profile.keeps_get_state_then)
  fix st
  show "profile.triple m0 (\<lambda>m. running m0 m \<and> hs m = st)
      (case pending st of None \<Rightarrow> return () | Some p \<Rightarrow> andThen (utc_now env) (\<lambda>t.
        if \<not> lease_expired env t p then return ()
        else roll_back env i p ''failed restoring host MTU after profile lease expiry''))
      (\<lambda>_. running m0) (running m0)"
  proof (cases "pending st")
    case None
    then show ?thesis by (auto intro!: profile.triple_return)
  next
    case (Some p)
    have "profile.triple m0 (\<lambda>m. running m0 m \<and> hs m = st) (utc_now env)
        (\<lambda>_ m. running m0 m \<and> pending (hs m) = Some p) (running m0)"
      using Some by (auto simp: profile.triple_def utc_now_def)
    then show ?thesis
      unfolding Some option.case
      by (rule profile.triple_andThen)
         (auto intro: roll_back_triple [OF assms] profile.triple_return)
  qed
qed

lemma keeps_abort:
  assumes "link_clean env"
  shows "profile.keeps m0 (abort_connection_profile env i req)"
  unfolding abort_connection_profile_def
proof (rule profile.keeps_get_state_then)
  fix st
  have last: "profile.triple m0 (running m0) (andThen get_state (\<lambda>st'. return (link_state st')))
      (\<lambda>_. running m0) (running m0)"
    using profile.keeps_seq [OF profile.keeps_get_state profile.keeps_return]
    by (simp add: profile.keeps_def)
  show "profile.triple m0 (\<lambda>m. running m0 m \<and> hs m = st)
      (case pending st of None \<Rightarrow> return (link_state st)
       | Some p \<Rightarrow> if \<not> request_matches req p
           then bail ''connection profile abort does not match the prepared transaction''
           else andThen (roll_back env i p ''failed restoring host MTU during profile abort'')
                  (\<lambda>_. andThen get_state (\<lambda>st'. return (link_state st'))))
      (\<lambda>_. running m0) (running m0)"
  proof (cases "pending st")
    case None
    then show ?thesis by (auto intro!: profile.triple_return)
  next
    case (Some p)
    have "profile.triple m0 (\<lambda>m. running m0 m \<and> hs m = st)
        (andThen (roll_back env i p ''failed restoring host MTU during profile abort'')
          (\<lambda>_. andThen get_state (\<lambda>st'. return (link_state st')))) (\<lambda>_. running m0) (running m0)"
      using Some
      by (intro profile.triple_andThen [OF profile.triple_pre [OF roll_back_triple [OF assms]] last]) auto
    then show ?thesis using Some by (auto intro!: profile.triple_bail)
  qed
qed

lemma profile_validate_mtu: "profile_validate p = Inr x \<Longrightarrow> mtu_in_range (inner_mtu p)"
  by (auto simp: profile_validate_def res_bind_def split: if_splits sum.splits)

text \<open>Between the journal entry and the new MTU: memory and file agree.\<close>

definition journaled :: "u16 \<Rightarrow> connection_profile \<Rightarrow> manager \<Rightarrow> bool" where
  "journaled m0 new m \<longleftrightarrow> running m0 m \<and> disk m = Some (hs m) \<and> link_mtu m = base_mtu m0 (hs m)
     \<and> (\<exists>p. pending (hs m) = Some p \<and> pending_target p = new)"

lemma persist_current_triple:
  "profile.triple m0 (\<lambda>m. running m0 m \<and> P (hs m) (link_mtu m)) (persist_current env)
    (\<lambda>_ m. running m0 m \<and> P (hs m) (link_mtu m) \<and> disk m = Some (hs m)) (running m0)"
  by (auto simp: profile.triple_def persist_current_def andThen_def get_state_def persist_state_def
      effect_def Let_def intro: profile.running_durable running_core split: io_fault.split)

lemma get_mtu_triple:
  "profile.triple m0 (\<lambda>m. running m0 m \<and> P (hs m) (link_mtu m)) (get_mtu env i)
    (\<lambda>x m. running m0 m \<and> P (hs m) (link_mtu m) \<and> x = link_mtu m) (running m0)"
  by (auto simp: profile.triple_def get_mtu_def bail_def andThen_def effect_def Let_def
      intro: profile.running_durable split: io_fault.split)

lemma open_pending_running:
  assumes "running m0 m" and "pending (hs m) = None" and "mtu_in_range (inner_mtu (requested_profile req))"
    and "profile_revision (requested_profile req) = saturating_inc (committed_revision (hs m))"
  shows "running m0 (m\<lparr>hs := open_pending env t lease req (link_mtu m) (hs m)\<rparr>)"
  using assms
  by (auto simp: running_def memory_ok_def base_mtu_def bump_def durable_def open_pending_def
      committed_revision_def split: option.splits)

lemma journal_triple:
  assumes "mtu_in_range (inner_mtu (requested_profile req))"
  shows "profile.triple m0 (\<lambda>m. running m0 m \<and> pending (hs m) = None
      \<and> profile_revision (requested_profile req) = saturating_inc (committed_revision (hs m)))
    (journal_prepared env i t lease req) (\<lambda>_. journaled m0 (requested_profile req)) (running m0)"
proof -
  let ?P = "\<lambda>st mtu. mtu = base_mtu m0 st \<and> (\<exists>p. pending st = Some p \<and> pending_target p = requested_profile req)"
  let ?R = "\<lambda>st. pending st = None
      \<and> profile_revision (requested_profile req) = saturating_inc (committed_revision st)"
  have get: "profile.triple m0 (\<lambda>m. running m0 m \<and> ?R (hs m)) (get_mtu env i)
      (\<lambda>x m. running m0 m \<and> ?R (hs m) \<and> x = link_mtu m) (running m0)"
    by (rule get_mtu_triple)
  have upd: "profile.triple m0 (\<lambda>m. running m0 m \<and> ?R (hs m) \<and> x = link_mtu m)
      (update_state (open_pending env t lease req x)) (\<lambda>_ m. running m0 m \<and> ?P (hs m) (link_mtu m))
      (running m0)" for x
    using assms
    by (auto simp: profile.triple_def update_state_def open_pending_running)
       (auto simp: running_def memory_ok_def open_pending_def bump_def base_mtu_def)
  have per: "profile.triple m0 (\<lambda>m. running m0 m \<and> ?P (hs m) (link_mtu m)) (persist_current env)
      (\<lambda>_. journaled m0 (requested_profile req)) (running m0)"
    by (rule profile.triple_post [OF persist_current_triple]) (auto simp: journaled_def)
  show ?thesis
    unfolding journal_prepared_def
    by (rule profile.triple_andThen [OF get profile.triple_andThen [OF upd per]])
qed

lemma set_new_triple:
  assumes "link_clean env"
  shows "profile.triple m0 (journaled m0 (requested_profile req))
    (set_mtu env i (inner_mtu (requested_profile req))) (\<lambda>_. running m0)
    (\<lambda>m. running m0 (m\<lparr>hs := clear_pending (hs m)\<rparr>))"
proof -
  have fine: "running m0 (m\<lparr>calls := n, link_mtu := inner_mtu (requested_profile req)\<rparr>)"
    if "journaled m0 (requested_profile req) m" for m n
    using that by (auto simp: journaled_def running_def durable_def memory_ok_def file_ok_def base_mtu_def)
  have undo: "running m0 (m\<lparr>calls := n, hs := clear_pending (hs m)\<rparr>)"
      "running m0 (m\<lparr>hs := clear_pending (hs m)\<rparr>)"
    if "journaled m0 (requested_profile req) m" for m n
    using that by (auto simp: journaled_def running_def durable_def memory_ok_def file_ok_def base_mtu_def
        clear_pending_def)
  have run: "running m0 m" if "journaled m0 (requested_profile req) m" for m
    using that by (simp add: journaled_def)
  show ?thesis
    using assms
    by (auto simp: profile.triple_def set_mtu_def bail_def effect_def Let_def link_clean_def
        intro: profile.running_durable run fine undo split: io_fault.split)
qed

lemma apply_triple:
  assumes "link_clean env"
  shows "profile.triple m0 (journaled m0 (requested_profile req)) (apply_prepared env i req)
    (\<lambda>_. running m0) (running m0)"
  unfolding apply_prepared_def
proof (rule profile.triple_caught [OF set_new_triple [OF assms]])
  fix u
  have "profile.keeps m0 (andThen (get_mtu env i) (\<lambda>observed.
      andThen (update_state (set_observed_mtu observed)) (\<lambda>_.
      andThen (touch env) (\<lambda>_. andThen (persist_current env) (\<lambda>_.
      andThen get_state (\<lambda>st. return (requested_profile req, link_state st)))))))"
    by (intro profile.keeps_seq keeps_update) auto
  then show "profile.triple m0 (running m0) (case Inr u of
      Inl e \<Rightarrow> andThen (update_state clear_pending) (\<lambda>_. andThen (touch env) (\<lambda>_.
        caught (persist_current env) (\<lambda>_. bail (''failed applying prepared host MTU: '' @ e))))
    | Inr _ \<Rightarrow> andThen (get_mtu env i) (\<lambda>observed.
      andThen (update_state (set_observed_mtu observed)) (\<lambda>_.
      andThen (touch env) (\<lambda>_. andThen (persist_current env) (\<lambda>_.
      andThen get_state (\<lambda>st. return (requested_profile req, link_state st)))))))
    (\<lambda>_. running m0) (running m0)"
    by (simp add: profile.keeps_def)
next
  fix e
  have rest: "profile.keeps m0 (andThen (touch env) (\<lambda>_. caught (persist_current env)
      (\<lambda>_. bail (''failed applying prepared host MTU: '' @ e)) :: (connection_profile \<times> host_link_state) op))"
    by (intro profile.keeps_seq profile.keeps_caught) auto
  have upd: "profile.triple m0 (\<lambda>m. running m0 (m\<lparr>hs := clear_pending (hs m)\<rparr>))
      (update_state clear_pending) (\<lambda>_. running m0) (running m0)"
    by (simp add: profile.triple_def update_state_def)
  show "profile.triple m0 (\<lambda>m. running m0 (m\<lparr>hs := clear_pending (hs m)\<rparr>)) (case Inl e of
      Inl e \<Rightarrow> andThen (update_state clear_pending) (\<lambda>_. andThen (touch env) (\<lambda>_.
        caught (persist_current env) (\<lambda>_. bail (''failed applying prepared host MTU: '' @ e))))
    | Inr _ \<Rightarrow> andThen (get_mtu env i) (\<lambda>observed.
      andThen (update_state (set_observed_mtu observed)) (\<lambda>_.
      andThen (touch env) (\<lambda>_. andThen (persist_current env) (\<lambda>_.
      andThen get_state (\<lambda>st. return (requested_profile req, link_state st)))))))
    (\<lambda>_. running m0) (running m0)"
    using rest unfolding sum.case profile.keeps_def by (rule profile.triple_andThen [OF upd])
qed

lemma keeps_prepare:
  assumes "link_clean env"
  shows "profile.keeps m0 (prepare_connection_profile env i req)"
proof (cases "profile_validate (requested_profile req)")
  case (Inl e)
  then show ?thesis by (simp add: prepare_connection_profile_def)
next
  case (Inr u)
  note mtu = profile_validate_mtu [OF Inr]
  have work: "profile.triple m0 (\<lambda>m. running m0 m \<and> pending (hs m) = None
        \<and> profile_revision (requested_profile req) = saturating_inc (committed_revision (hs m)))
      (andThen (journal_prepared env i t lease req) (\<lambda>_. apply_prepared env i req))
      (\<lambda>_. running m0) (running m0)" for t lease
    by (rule profile.triple_andThen [OF journal_triple [OF mtu] apply_triple [OF assms]])
  show ?thesis
  proof (cases "parse_rfc3339 env (requested_lease req)")
    case None
    then show ?thesis by (simp add: prepare_connection_profile_def Inr)
  next
    case (Some lease)
    show ?thesis
      unfolding prepare_connection_profile_def Inr Some sum.case option.case
    proof (intro profile.keeps_seq [OF keeps_utc_now], goal_cases)
      case (1 t)
      have "profile.keeps m0 (andThen get_state (\<lambda>st.
          if instance_id (requested_profile req) \<noteq> host_instance st
          then bail ''connection profile instance identity mismatch''
          else case pending st of
            Some p \<Rightarrow>
              if pending_operation p = prep_operation req \<and> pending_target p = requested_profile req
              then return (pending_target p, link_state st)
              else bail ''another connection profile transaction is pending''
          | None \<Rightarrow>
              if expected_profile_revision req \<noteq> committed_revision st
              then bail ''stale profile revision''
              else if profile_revision (requested_profile req) \<noteq> saturating_inc (committed_revision st)
              then bail ''new profile revision must increment the committed revision by one''
              else if \<not> turn_matches st (requested_profile req)
              then bail ''TURN profile does not match the active allocation generation and endpoint''
              else andThen (journal_prepared env i t lease req) (\<lambda>_. apply_prepared env i req)))"
      proof (rule profile.keeps_get_state_then, goal_cases)
        case (1 st)
        have "profile.triple m0 (\<lambda>m. running m0 m \<and> hs m = st)
            (andThen (journal_prepared env i t lease req) (\<lambda>_. apply_prepared env i req))
            (\<lambda>_. running m0) (running m0)"
          if "pending st = None" "profile_revision (requested_profile req) = saturating_inc (committed_revision st)"
          using that by (intro profile.triple_pre [OF work]) auto
        then show ?case
          by (auto intro!: profile.triple_return profile.triple_bail split: option.split)
      qed
      then show ?case
        by (auto intro!: profile.keeps_seq [OF keeps_reconcile [OF assms]])
    qed
  qed
qed

lemma committed_running:
  assumes "running m0 m" and "pending (hs m) = Some p" and "link_mtu m = inner_mtu (pending_target p)"
  shows "running m0 (m\<lparr>disk := Some (committed_state t x req p (hs m))\<rparr>)"
    and "running m0 (m\<lparr>disk := Some (committed_state t x req p (hs m)), hs := committed_state t x req p (hs m)\<rparr>)"
  using assms
  by (auto simp: running_def durable_def memory_ok_def file_ok_def base_mtu_def committed_state_def bump_def)

lemma keeps_commit:
  assumes "link_clean env"
  shows "profile.keeps m0 (commit_connection_profile env i req)"
  unfolding commit_connection_profile_def
proof (intro profile.keeps_seq [OF keeps_reconcile [OF assms]] profile.keeps_get_state_then, goal_cases)
  case (1 u st)
  let ?new = "\<lambda>p t x. committed_state (to_rfc3339 env t) x req p st"
  let ?at = "\<lambda>p m. running m0 m \<and> hs m = st \<and> link_mtu m = inner_mtu (pending_target p)"
  have fin: "profile.triple m0 (?at p) (andThen (utc_now env) (\<lambda>t.
      let new = committed_state (to_rfc3339 env t) x req p st in
      andThen (persist_state env new) (\<lambda>_. andThen (update_state (\<lambda>_. new)) (\<lambda>_. return (link_state new)))))
      (\<lambda>_. running m0) (running m0)" if p: "pending st = Some p" for p x
  proof (rule profile.triple_andThen)
    show "profile.triple m0 (?at p) (utc_now env) (\<lambda>_. ?at p) (running m0)"
      by (simp add: profile.triple_def utc_now_def)
    fix t
    show "profile.triple m0 (?at p) (let new = ?new p t x in
        andThen (persist_state env new) (\<lambda>_. andThen (update_state (\<lambda>_. new)) (\<lambda>_. return (link_state new))))
        (\<lambda>_. running m0) (running m0)"
      using p committed_running [of m0 "m\<lparr>calls := n\<rparr>" p for m n]
      by (auto simp: profile.triple_def Let_def andThen_def persist_state_def effect_def update_state_def
          return_def intro: profile.running_durable split: io_fault.split)
  qed
  have "profile.triple m0 (\<lambda>m. running m0 m \<and> hs m = st)
      (andThen (get_mtu env i) (\<lambda>observed.
        if observed \<noteq> inner_mtu (pending_target p) then bail ''host MTU changed before commit''
        else andThen (utc_now env) (\<lambda>t.
          let new = committed_state (to_rfc3339 env t) observed req p st in
          andThen (persist_state env new) (\<lambda>_. andThen (update_state (\<lambda>_. new)) (\<lambda>_. return (link_state new))))))
      (\<lambda>_. running m0) (running m0)" if p: "pending st = Some p" for p
  proof (rule profile.triple_andThen)
    show "profile.triple m0 (\<lambda>m. running m0 m \<and> hs m = st) (get_mtu env i)
        (\<lambda>x m. running m0 m \<and> hs m = st \<and> x = link_mtu m) (running m0)"
      by (rule get_mtu_triple)
    fix x
    show "profile.triple m0 (\<lambda>m. running m0 m \<and> hs m = st \<and> x = link_mtu m)
        (if x \<noteq> inner_mtu (pending_target p) then bail ''host MTU changed before commit''
         else andThen (utc_now env) (\<lambda>t.
          let new = committed_state (to_rfc3339 env t) x req p st in
          andThen (persist_state env new) (\<lambda>_. andThen (update_state (\<lambda>_. new)) (\<lambda>_. return (link_state new)))))
        (\<lambda>_. running m0) (running m0)"
    proof (cases "x = inner_mtu (pending_target p)")
      case True
      then show ?thesis
        by (simp only: refl not_True_eq_False if_False)
           (rule profile.triple_pre [OF fin [OF p]], simp)
    next
      case False
      then show ?thesis by (auto intro!: profile.triple_bail)
    qed
  qed
  then show ?case
    by (auto intro!: profile.triple_return profile.triple_bail split: option.split)
qed

text \<open>The operations that do not touch profiles.\<close>

lemma keeps_get_link_state: "link_clean env \<Longrightarrow> profile.keeps m0 (get_link_state env i)"
  unfolding get_link_state_def
  by (intro profile.keeps_seq keeps_reconcile keeps_update)
     (auto simp: same_core_def set_observed_mtu_def)

lemma keeps_turn_failed [intro, simp]: "profile.keeps m0 (turn_start_failed env e)"
proof -
  have "profile.keeps m0 (andThen (update_state (turn_status_update (\<lambda>_. x))) (\<lambda>_.
     andThen (touch env) (\<lambda>_. caught (persist_current env) (\<lambda>_. bail e :: 'a op))))" for x
    by (intro profile.keeps_seq profile.keeps_caught keeps_update) auto
  then show ?thesis by (simp add: profile.keeps_def profile.triple_def turn_start_failed_def)
qed

lemma keeps_publish_bridge [intro, simp]: "profile.keeps m0 (publish_bridge env ips req e)"
  unfolding publish_bridge_def Let_def
proof (intro profile.keeps_seq [OF keeps_utc_now] profile.keeps_get_state_then, goal_cases)
  case (1 t st)
  let ?new = "ready_state (to_rfc3339 env t) req e st"
  show ?case
  proof (rule profile.triple_caught [OF keeps_persist], goal_cases)
    case (2 u)
    then show ?case
      using running_core(1) [of m0 _ ?new] by (auto simp: profile.triple_def)
  next
    case (3 err)
    then show ?case using keeps_turn_failed by (simp add: profile.keeps_def)
  qed simp
qed

lemma keeps_prepare_turn: "profile.keeps m0 (prepare_turn env req)"
proof -
  have start: "profile.keeps m0 (start_bridge env url ips req)" for url ips
    by (simp add: profile.keeps_def profile.triple_def start_bridge_def Let_def split: sum.split)
  have "profile.keeps m0 (allocate_turn env req)"
    unfolding allocate_turn_def
    by (auto intro!: profile.keeps_seq profile.keeps_caught keeps_update start
        split: option.split sum.split)
  then show ?thesis
    by (auto simp: profile.keeps_def profile.triple_def prepare_turn_def split: option.split)
qed

lemma keeps_stop_turn: "profile.keeps m0 (stop_turn env)"
proof -
  have "profile.keeps m0 (stop_bridge env)"
    by (simp add: profile.keeps_def profile.triple_def stop_bridge_def Let_def)
  moreover have "profile.keeps m0 (\<lambda>m. (Done (), m\<lparr>last_prepare := None\<rparr>))"
    by (simp add: profile.keeps_def profile.triple_def)
  ultimately show ?thesis
    unfolding stop_turn_def
    by (auto intro!: profile.keeps_seq keeps_update simp: same_core_def)
qed

lemma keeps_status: "link_clean env \<Longrightarrow> profile.keeps m0 (manager_status env i)"
proof -
  have go: "profile.keeps m0 (andThen (update_state (turn_status_update (\<lambda>_. TurnDegraded))) (\<lambda>_.
      andThen (touch env) (\<lambda>_. andThen (persist_current env) (\<lambda>_. return x))))" for x :: "turn_bridge_stats option"
    by (intro profile.keeps_seq keeps_update) auto
  have check: "profile.keeps m0 (check_bridge env)"
    using go by (simp add: profile.keeps_def profile.triple_def check_bridge_def Let_def)
  assume "link_clean env"
  then show ?thesis
    unfolding manager_status_def
    by (intro profile.keeps_seq profile.keeps_caught keeps_reconcile keeps_update check)
       (auto simp: same_core_def set_observed_mtu_def note_transport_def split: sum.split option.split)
qed

section \<open>Starting and restarting\<close>

definition read_clean :: "net_env \<Rightarrow> bool" where
  "read_clean env \<longleftrightarrow> (\<forall>n. read_fault env n \<noteq> FailBefore \<and> read_fault env n \<noteq> FailAfter)"

definition restored :: "u16 \<Rightarrow> host_network_state option \<Rightarrow> u16" where
  "restored m0 prev = (case prev of Some st \<Rightarrow> base_mtu m0 st | None \<Rightarrow> m0)"

lemma load_triple:
  "read_clean env \<Longrightarrow> profile.triple m0 (durable m0) (load_previous_state env)
    (\<lambda>prev m. durable m0 m \<and> prev = disk m) (durable m0)"
  by (auto simp: profile.triple_def load_previous_state_def caught_def effect_def Let_def read_clean_def
      split: io_fault.split)

lemma durable_restored:
  assumes "durable m0 m"
  shows "durable m0 (m\<lparr>calls := n, link_mtu := restored m0 (disk m)\<rparr>)"
  using assms by (auto simp: durable_def restored_def file_ok_def base_mtu_def split: option.splits)

lemma restore_triple:
  assumes "link_clean env"
  shows "profile.triple m0 (\<lambda>m. durable m0 m \<and> prev = disk m) (restore_mtu env i prev)
    (\<lambda>_ m. durable m0 m \<and> prev = disk m \<and> link_mtu m = restored m0 prev) (durable m0)"
proof -
  have set: "profile.triple m0 (\<lambda>m. durable m0 m \<and> prev = disk m)
      (with_context c (set_mtu env i (restored m0 prev)))
      (\<lambda>_ m. durable m0 m \<and> prev = disk m \<and> link_mtu m = restored m0 prev) (durable m0)" for c
    using assms durable_restored [of m0]
    by (auto simp: profile.triple_def with_context_def caught_def set_mtu_def bail_def return_def effect_def
        Let_def link_clean_def split: io_fault.split)
  show ?thesis
    unfolding profile.triple_def
  proof (intro allI impI)
    fix m
    assume m: "durable m0 m \<and> prev = disk m"
    note set_m = set [unfolded profile.triple_def, rule_format, OF m]
    show "case restore_mtu env i prev m of
        (Done x, m') \<Rightarrow> durable m0 m' \<and> prev = disk m' \<and> link_mtu m' = restored m0 prev
      | (Err xa, m') \<Rightarrow> durable m0 m' | (Crashed, m') \<Rightarrow> durable m0 m'"
    proof (cases prev)
      case None
      with m show ?thesis
        by (auto simp: restore_mtu_def return_def durable_def restored_def split: option.splits)
    next
      case (Some st)
      with m have fileok: "file_ok m0 (link_mtu m) st" by (simp add: durable_def split: option.splits)
      have target: "restored m0 prev = base_mtu m0 st" by (simp add: Some restored_def)
      show ?thesis
      proof (cases "pending st")
        case (Some p)
        with fileok have "previous_mtu p = base_mtu m0 st" by (simp add: file_ok_def)
        then show ?thesis
          using set_m Some target by (simp add: restore_mtu_def \<open>prev = Some st\<close>)
      next
        case None
        then show ?thesis
          using set_m fileok conjunct1 [OF m] m [THEN conjunct2, symmetric] target
          by (cases "committed_profile st")
             (simp_all add: restore_mtu_def \<open>prev = Some st\<close> base_mtu_def file_ok_def return_def)
      qed
    qed
  qed
qed

lemma initial_core:
  "pending (initial_state env i inst ver k t x prev) = None"
  "committed_profile (initial_state env i inst ver k t x prev) = Option.bind prev committed_profile"
  by (simp_all add: initial_state_def Let_def)

lemma initial_running:
  assumes "durable m0 m" and "link_mtu m = restored m0 (disk m)"
    and "st = initial_state env i inst ver k t x (disk m)"
  shows "durable m0 (m\<lparr>disk := Some st\<rparr>)"
    and "running m0 (m\<lparr>disk := Some st, hs := st, bridge := None, last_prepare := None\<rparr>)"
proof -
  have base: "base_mtu m0 st = restored m0 (disk m)"
    by (cases "disk m") (simp_all add: assms(3) base_mtu_def restored_def initial_core)
  have range: "mtu_in_range (restored m0 (disk m))"
    using assms(1) by (auto simp: durable_def restored_def split: option.splits)
  have pend: "pending st = None" by (simp add: assms(3) initial_core)
  show dur: "durable m0 (m\<lparr>disk := Some st\<rparr>)"
    using base range assms(2) pend by (auto simp: durable_def file_ok_def base_mtu_def split: option.splits)
  show "running m0 (m\<lparr>disk := Some st, hs := st, bridge := None, last_prepare := None\<rparr>)"
    using dur base range assms(2) pend by (simp add: running_def memory_ok_def durable_def)
qed

lemma manager_new_triple:
  assumes "link_clean env" and "read_clean env"
  shows "profile.triple m0 (durable m0) (manager_new env i inst ver) (\<lambda>_. running m0) (durable m0)"
  unfolding manager_new_def
proof (intro profile.triple_andThen [OF load_triple [OF assms(2)]]
    profile.triple_andThen [OF restore_triple [OF assms(1)]], goal_cases)
  case (1 prev u)
  let ?at = "\<lambda>m. durable m0 m \<and> prev = disk m \<and> link_mtu m = restored m0 prev"
  have get: "profile.triple m0 ?at (get_mtu env i) (\<lambda>_. ?at) ?at"
    by (auto simp: profile.triple_def get_mtu_def bail_def andThen_def effect_def Let_def durable_def
        split: io_fault.split option.split)
  have fin: "profile.triple m0 ?at (andThen (utc_now env) (\<lambda>t m.
      let st = initial_state env i inst ver (calls m) (to_rfc3339 env t) x prev in
      andThen (persist_state env st) (\<lambda>_ m'. (Done (), m'\<lparr>hs := st, bridge := None, last_prepare := None\<rparr>)) m))
      (\<lambda>_. running m0) (durable m0)" for x
  proof (rule profile.triple_andThen)
    show "profile.triple m0 ?at (utc_now env) (\<lambda>_. ?at) (durable m0)"
      by (auto simp: profile.triple_def utc_now_def)
    fix t
    show "profile.triple m0 ?at (\<lambda>m.
        let st = initial_state env i inst ver (calls m) (to_rfc3339 env t) x prev in
        andThen (persist_state env st) (\<lambda>_ m'. (Done (), m'\<lparr>hs := st, bridge := None, last_prepare := None\<rparr>)) m)
        (\<lambda>_. running m0) (durable m0)"
    proof (unfold profile.triple_def, intro allI impI)
      fix m
      assume m: "?at m"
      let ?st = "initial_state env i inst ver (calls m) (to_rfc3339 env t) x prev"
      let ?m = "m\<lparr>calls := Suc (calls m)\<rparr>"
      have "durable m0 (?m\<lparr>disk := Some ?st\<rparr>)"
          "running m0 (?m\<lparr>disk := Some ?st, hs := ?st, bridge := None, last_prepare := None\<rparr>)"
        using m initial_running [of m0 ?m ?st env i inst ver "calls m" "to_rfc3339 env t" x] by simp_all
      then show "case let st = ?st in
          andThen (persist_state env st) (\<lambda>_ m'. (Done (), m'\<lparr>hs := st, bridge := None, last_prepare := None\<rparr>)) m of
          (Done _, m') \<Rightarrow> running m0 m' | (Err _, m') \<Rightarrow> durable m0 m' | (Crashed, m') \<Rightarrow> durable m0 m'"
        using m by (auto simp: andThen_def persist_state_def effect_def Let_def split: io_fault.split)
    qed
  qed
  show ?case by (rule profile.triple_caught [OF get fin fin])
qed

section \<open>Reachable states\<close>

datatype net_op =
    Prepare prepare_profile_request | Commit finish_profile_request | Abort finish_profile_request
  | LinkState | Status | PrepareTurn prepare_turn_request | StopTurn

fun perform :: "net_env \<Rightarrow> string \<Rightarrow> net_op \<Rightarrow> unit op" where
  "perform env i (Prepare r) = andThen (prepare_connection_profile env i r) (\<lambda>_. return ())"
| "perform env i (Commit r) = andThen (commit_connection_profile env i r) (\<lambda>_. return ())"
| "perform env i (Abort r) = andThen (abort_connection_profile env i r) (\<lambda>_. return ())"
| "perform env i LinkState = andThen (get_link_state env i) (\<lambda>_. return ())"
| "perform env i Status = andThen (manager_status env i) (\<lambda>_. return ())"
| "perform env i (PrepareTurn r) = andThen (prepare_turn env r) (\<lambda>_. return ())"
| "perform env i StopTurn = andThen (stop_turn env) (\<lambda>_. return ())"

lemma keeps_perform: "link_clean env \<Longrightarrow> profile.keeps m0 (perform env i op)"
  by (cases op)
     (auto intro!: profile.keeps_seq keeps_prepare keeps_commit keeps_abort keeps_get_link_state
        keeps_status keeps_prepare_turn keeps_stop_turn)

text \<open>
  The life of an agent on a host whose interface had MTU \<open>m0\<close>: started, answering requests (the
  lock serialises them), killed at any time, started again. The flag says whether it runs.
\<close>

inductive net_reachable :: "net_env \<Rightarrow> string \<Rightarrow> u16 \<Rightarrow> bool \<Rightarrow> manager \<Rightarrow> bool"
  for env i m0 where
  fresh: "disk m = None \<Longrightarrow> link_mtu m = m0 \<Longrightarrow> mtu_in_range m0 \<Longrightarrow> net_reachable env i m0 False m"
| boot: "net_reachable env i m0 False m \<Longrightarrow> manager_new env i inst ver m = (r, m') \<Longrightarrow>
    net_reachable env i m0 (r = Done ()) m'"
| request: "net_reachable env i m0 True m \<Longrightarrow> perform env i op m = (r, m') \<Longrightarrow>
    net_reachable env i m0 (r \<noteq> Crashed) m'"
| kill: "net_reachable env i m0 True m \<Longrightarrow> net_reachable env i m0 False m"

lemma net_reachable_ok:
  assumes "net_reachable env i m0 alive m" and "link_clean env" and "read_clean env"
  shows "durable m0 m \<and> (alive \<longrightarrow> running m0 m)"
  using assms
proof (induction rule: net_reachable.induct)
  case (fresh m)
  then show ?case by (simp add: durable_def)
next
  case (boot m inst ver r m')
  then have "durable m0 m" by simp
  with manager_new_triple [OF boot.prems, of m0 i inst ver] boot.hyps(2) show ?case
    using profile.running_durable [of m0 m'] unfolding profile.triple_def
    by (cases r) (force dest!: spec [of _ m])+
next
  case (request m op r m')
  then show ?case
    using profile.keeps_result [OF keeps_perform, of env m0 m i op r m'] profile.running_durable [of m0 m']
    by (auto split: if_splits)
next
  case (kill m)
  then show ?case by simp
qed

definition faultless :: "net_env \<Rightarrow> bool" where
  "faultless env \<longleftrightarrow> (\<forall>n. fault env n = NoFault \<and> link_fault env n = NoFault \<and> read_fault env n = NoFault)"

lemma restart_faultless:
  assumes "durable m0 m" and "faultless env'" and "validate_interface_name i"
  shows "\<exists>m'. manager_new env' i inst ver m = (Done (), m') \<and> link_mtu m' = restored m0 (disk m)
    \<and> pending (hs m') = None \<and> committed_profile (hs m') = Option.bind (disk m) committed_profile
    \<and> disk m' = Some (hs m')"
proof -
  have ok: "fault env' n = NoFault" "link_fault env' n = NoFault" "read_fault env' n = NoFault" for n
    using assms(2) by (simp_all add: faultless_def)
  have restore: "\<exists>n. restore_mtu env' i (disk m) (m\<lparr>calls := Suc (calls m)\<rparr>)
      = (Done (), m\<lparr>calls := n, link_mtu := restored m0 (disk m)\<rparr>)"
  proof (cases "disk m")
    case None
    then have "link_mtu m = m0" using assms(1) by (simp add: durable_def)
    with None show ?thesis
      by (intro exI [of _ "Suc (calls m)"]) (cases m, simp add: restore_mtu_def return_def restored_def)
  next
    case (Some st)
    then have fileok: "file_ok m0 (link_mtu m) st" and range: "validate_mtu (base_mtu m0 st)"
      using assms(1) by (simp_all add: durable_def validate_mtu_def)
    have set: "with_context c (set_mtu env' i (base_mtu m0 st)) (m\<lparr>calls := Suc (calls m)\<rparr>)
        = (Done (), m\<lparr>calls := Suc (Suc (calls m)), link_mtu := base_mtu m0 st\<rparr>)" for c
      using range assms(3)
      by (simp add: with_context_def caught_def set_mtu_def effect_def Let_def ok return_def)
    show ?thesis
    proof (cases "pending st")
      case (Some p)
      then have "previous_mtu p = base_mtu m0 st" using fileok by (simp add: file_ok_def)
      then show ?thesis
        using set Some by (auto simp: restore_mtu_def \<open>disk m = Some st\<close> restored_def)
    next
      case None
      show ?thesis
      proof (cases "committed_profile st")
        case (Some c)
        then have "inner_mtu c = base_mtu m0 st" by (simp add: base_mtu_def)
        then show ?thesis
          using set Some None by (auto simp: restore_mtu_def \<open>disk m = Some st\<close> restored_def)
      next
        case None
        then have "link_mtu m = base_mtu m0 st"
          using fileok \<open>pending st = None\<close> by (simp add: file_ok_def base_mtu_def)
        then show ?thesis
          using None \<open>pending st = None\<close> \<open>disk m = Some st\<close>
          by (intro exI [of _ "Suc (calls m)"]) (cases m, simp add: restore_mtu_def return_def restored_def)
      qed
    qed
  qed
  then obtain n where "restore_mtu env' i (disk m) (m\<lparr>calls := Suc (calls m)\<rparr>)
      = (Done (), m\<lparr>calls := n, link_mtu := restored m0 (disk m)\<rparr>)" ..
  then show ?thesis
    using assms(3)
    by (simp add: manager_new_def andThen_def load_previous_state_def caught_def effect_def Let_def ok
        get_mtu_def utc_now_def persist_state_def initial_core)
qed

section \<open>Only a commit changes the committed profile\<close>

text \<open>The same logic for another invariant: the committed profile, and where a transaction comes from.\<close>

definition framed :: "connection_profile option \<Rightarrow> pending_profile option set \<Rightarrow> manager \<Rightarrow> bool" where
  "framed c ps m \<longleftrightarrow> committed_profile (hs m) = c \<and> pending (hs m) \<in> ps"

interpretation frame: op_logic "framed c ps" "\<lambda>_. True" for c ps
  by unfold_locales simp

lemma frame_state_free: "(\<And>m. hs (snd (f m)) = hs m) \<Longrightarrow> frame.keeps c ps f"
  unfolding frame.keeps_def frame.triple_def framed_def
  by (auto split: prod.split outcome.split) (metis snd_conv)+

lemma frame_effect:
  assumes "\<And>m. hs (g m) = hs m"
  shows "frame.keeps c ps (effect flt e g)"
proof (rule frame_state_free)
  fix m
  show "hs (snd (effect flt e g m)) = hs m"
    using assms by (simp add: effect_def Let_def split: io_fault.split)
qed

lemma frame_update:
  "(\<And>st. committed_profile (f st) = committed_profile st) \<Longrightarrow>
   (\<And>st. pending (f st) = pending st \<or> pending (f st) \<in> ps) \<Longrightarrow> frame.keeps c ps (update_state f)"
  unfolding frame.keeps_def frame.triple_def framed_def update_state_def by simp metis

lemma frame_basic [intro, simp]:
  "frame.keeps c ps (utc_now env)" "frame.keeps c ps (persist_state env st)"
  "frame.keeps c ps (start_bridge env url ips req)" "frame.keeps c ps (stop_bridge env)"
  "frame.keeps c ps (\<lambda>m. (Done (), m\<lparr>last_prepare := x\<rparr>))" "frame.keeps c ps (\<lambda>m. (Done (link_mtu m), m))"
  by (rule frame_state_free, simp add: utc_now_def persist_state_def effect_def start_bridge_def
      stop_bridge_def Let_def split: io_fault.split sum.split)+

lemma frame_touch [intro, simp]: "frame.keeps c ps (touch env)"
  unfolding touch_def by (intro frame.keeps_seq frame_update) (auto simp: bump_def)

lemma frame_persist_current [intro, simp]: "frame.keeps c ps (persist_current env)"
  unfolding persist_current_def by (intro frame.keeps_seq) auto

lemma frame_mtu [intro, simp]: "frame.keeps c ps (get_mtu env i)" "frame.keeps c ps (set_mtu env i x)"
  unfolding get_mtu_def set_mtu_def by (auto intro!: frame.keeps_seq frame_effect)

lemma frame_with_context [intro]: "frame.keeps c ps f \<Longrightarrow> frame.keeps c ps (with_context t f)"
  unfolding with_context_def by (intro frame.keeps_caught) (auto split: sum.split)

lemma frame_roll_back: "None \<in> ps \<Longrightarrow> frame.keeps c ps (roll_back env i p msg)"
  unfolding roll_back_def
  by (intro frame.keeps_seq frame_update frame_with_context)
     (auto simp: set_observed_mtu_def clear_pending_def)

lemma frame_reconcile: "None \<in> ps \<Longrightarrow> frame.keeps c ps (reconcile_expired_profile env i)"
  unfolding reconcile_expired_profile_def
  by (auto intro!: frame.keeps_seq frame_roll_back split: option.split)

lemma frame_prepare: "frame.keeps c UNIV (prepare_connection_profile env i req)"
proof -
  have "frame.keeps c UNIV (apply_prepared env i req)"
    unfolding apply_prepared_def
    by (auto intro!: frame.keeps_seq frame.keeps_caught frame_update
        simp: clear_pending_def set_observed_mtu_def split: sum.split)
  moreover have "frame.keeps c UNIV (journal_prepared env i t lease req)" for t lease
    unfolding journal_prepared_def
    by (auto intro!: frame.keeps_seq frame_update simp: open_pending_def bump_def)
  ultimately show ?thesis
    unfolding prepare_connection_profile_def
    by (auto intro!: frame.keeps_seq frame_reconcile split: sum.split option.split)
qed

lemma frame_abort: "frame.keeps c UNIV (abort_connection_profile env i req)"
  unfolding abort_connection_profile_def
  by (auto intro!: frame.keeps_seq frame_roll_back split: option.split)

lemma frame_link_state: "frame.keeps c UNIV (get_link_state env i)"
  unfolding get_link_state_def
  by (intro frame.keeps_seq frame_reconcile frame_update) (auto simp: set_observed_mtu_def)

lemma frame_turn_failed [intro, simp]: "frame.keeps c UNIV (turn_start_failed env e)"
proof -
  have "frame.keeps c UNIV (andThen (update_state (turn_status_update (\<lambda>_. x))) (\<lambda>_.
     andThen (touch env) (\<lambda>_. caught (persist_current env) (\<lambda>_. bail e :: 'a op))))" for x
    by (intro frame.keeps_seq frame.keeps_caught frame_update) auto
  then show ?thesis by (simp add: frame.keeps_def frame.triple_def turn_start_failed_def)
qed

lemma frame_publish [intro, simp]: "frame.keeps c UNIV (publish_bridge env ips req e)"
  unfolding publish_bridge_def Let_def
proof (intro frame.keeps_seq [OF frame_basic(1)] frame.keeps_get_state_then, goal_cases)
  case (1 t st)
  have "frame.triple (\<lambda>m. framed c UNIV m \<and> hs m = st) (persist_state env (ready_state (to_rfc3339 env t) req e st))
      (\<lambda>_ m. framed c UNIV m \<and> hs m = st) (framed c UNIV)"
    by (auto simp: frame.triple_def persist_state_def effect_def Let_def framed_def split: io_fault.split)
  then show ?case
  proof (rule frame.triple_caught, goal_cases)
    case (1 u)
    then show ?case by (auto simp: frame.triple_def framed_def ready_state_def bump_def)
  next
    case (2 err)
    then show ?case using frame_turn_failed by (simp add: frame.keeps_def)
  qed
qed

lemma frame_prepare_turn: "frame.keeps c UNIV (prepare_turn env req)"
proof -
  have "frame.keeps c UNIV (allocate_turn env req)"
    unfolding allocate_turn_def
    by (auto intro!: frame.keeps_seq frame.keeps_caught frame_update split: option.split sum.split)
  then show ?thesis
    by (auto simp: frame.keeps_def frame.triple_def prepare_turn_def split: option.split)
qed

lemma frame_stop_turn: "frame.keeps c UNIV (stop_turn env)"
  unfolding stop_turn_def by (auto intro!: frame.keeps_seq frame_update)

lemma frame_status: "frame.keeps c UNIV (manager_status env i)"
proof -
  have "frame.keeps c UNIV (andThen (update_state (turn_status_update (\<lambda>_. TurnDegraded))) (\<lambda>_.
      andThen (touch env) (\<lambda>_. andThen (persist_current env) (\<lambda>_. return x))))" for x :: "turn_bridge_stats option"
    by (intro frame.keeps_seq frame_update) auto
  then have check: "frame.keeps c UNIV (check_bridge env)"
    by (auto simp: frame.keeps_def frame.triple_def check_bridge_def Let_def framed_def)
  show ?thesis
    unfolding manager_status_def
    by (intro frame.keeps_seq frame.keeps_caught frame_reconcile frame_update check)
       (auto simp: set_observed_mtu_def note_transport_def split: sum.split option.split)
qed

end
