(* ===== verification/Profile_Properties.thy ===== *)
theory Profile_Properties
  imports Profile_Transactions
begin

text \<open>
  The properties of connection-profile transactions: atomic across crashes, tied to the MTU of the
  interface, and changed by nothing but the commit of the prepared profile. The first two hold as long as
  setting the MTU leaves it alone when it reports an error, and the state file can be read at each start; that
  both conditions are needed is shown by two runs in which the code does not do what it means to. One more
  such behaviour is in the retry path.
\<close>

section \<open>Example runs\<close>

definition calm :: net_env where
  "calm = \<lparr>wall_clock = \<lambda>_. 0, fault = \<lambda>_. NoFault, link_fault = \<lambda>_. NoFault,
     read_fault = \<lambda>_. NoFault,
     parse_rfc3339 = \<lambda>s. if s = ''lease'' then Some (minutes 5) else None,
     to_rfc3339 = \<lambda>t. if t = 0 then ''start'' else ''lease'', parse_ip = \<lambda>s. Some s,
     bridge_start = \<lambda>_ _ _ _. Inl ''no relay'', bridge_stop_ok = \<lambda>_. True,
     bridge_stats = \<lambda>_. \<lparr>last_packet_at_unix_ms = None, active_peer_tuple = None\<rparr>,
     bridge_finished = \<lambda>_. False, new_uuid = \<lambda>_. 7\<rparr>"

definition sample_profile :: "u64 \<Rightarrow> u16 \<Rightarrow> connection_profile" where
  "sample_profile n mtu = \<lparr>schema_version = 1, instance_id = ''vm'', profile_revision = n,
     transition_id = 40, desired_transport = TransportDirect,
     endpoint = \<lparr>host = ''10.0.0.2'', port = 51820\<rparr>, profile_allocation = None, inner_mtu = mtu,
     packet_limits = \<lparr>forward_payload_ceiling = None, reverse_payload_ceiling = None,
       verified_inner_mtu = None, observed_client_mtu = None, observed_host_mtu = None,
       confidence = F64 1, measurement_method = Unverified\<rparr>,
     requested_media_packet_size = None, media_session_generation = None, created_at = ''start''\<rparr>"

definition sample_prepare :: prepare_profile_request where
  "sample_prepare = \<lparr>prep_operation = 90, expected_profile_revision = 0,
     requested_lease = ''lease'', requested_profile = sample_profile 1 1280\<rparr>"

definition sample_finish :: finish_profile_request where
  "sample_finish = \<lparr>fin_operation = 90, fin_transition = 40, fin_revision = 1\<rparr>"

definition blank_host :: manager where
  "blank_host = \<lparr>hs = initial_state calm ''wg0'' [] [] 0 [] None None, bridge = None,
     last_prepare = None, disk = None, link_mtu = 1420, calls = 0\<rparr>"

definition booted :: "net_env \<Rightarrow> manager" where
  "booted env = snd (manager_new env ''wg0'' ''vm'' ''1.0'' blank_host)"

definition prepared :: "net_env \<Rightarrow> manager" where
  "prepared env = snd (perform env ''wg0'' (Prepare sample_prepare) (booted env))"

lemma calm_clean: "link_clean calm" "read_clean calm" "faultless calm"
  by (simp_all add: link_clean_def read_clean_def faultless_def calm_def)

lemma sample_name: "validate_interface_name ''wg0''"
  by code_simp

lemma sample_reachable:
  "net_reachable env ''wg0'' 1420 False blank_host"
  by (rule net_reachable.fresh) (simp_all add: blank_host_def mtu_in_range_def)

lemma booted_reachable:
  assumes "fst (manager_new env ''wg0'' ''vm'' ''1.0'' blank_host) = Done ()"
  shows "net_reachable env ''wg0'' 1420 True (booted env)"
  using net_reachable.boot [OF sample_reachable surjective_pairing, of env "''vm''" "''1.0''"] assms
  by (simp add: booted_def)

lemma calm_booted: "net_reachable calm ''wg0'' 1420 True (booted calm)"
  by (rule booted_reachable) code_simp

lemma calm_prepared_fine: "fst (perform calm ''wg0'' (Prepare sample_prepare) (booted calm)) = Done ()"
  by code_simp

lemma calm_prepared: "net_reachable calm ''wg0'' 1420 True (prepared calm)"
  using net_reachable.request [OF calm_booted surjective_pairing, of "Prepare sample_prepare"]
  by (simp add: prepared_def calm_prepared_fine del: perform.simps)

lemma calm_facts:
  "link_mtu (prepared calm) = 1280" "pending (hs (prepared calm)) \<noteq> None"
  "committed_profile (hs (prepared calm)) = None"
  "committed_profile (hs (snd (perform calm ''wg0'' (Commit sample_finish) (prepared calm))))
     = Some (sample_profile 1 1280)"
  by code_simp+

text \<open>
  Without \<open>link_clean\<close> the guarantees end: when the read-back after \<^verbatim>\<open>ip link set\<close> fails, the
  transaction is dropped while the interface keeps the new MTU.
\<close>

lemma failed_readback_keeps_new_mtu:
  "\<exists>env e m. perform env ''wg0'' (Prepare sample_prepare) (booted env) = (Err e, m)
    \<and> pending (hs m) = None \<and> committed_profile (hs m) = None \<and> disk m = Some (hs m)
    \<and> link_mtu (booted env) = 1420 \<and> link_mtu m = 1280"
proof -
  let ?env = "calm\<lparr>link_fault := \<lambda>_. FailAfter\<rparr>"
  have one: "fst (perform ?env ''wg0'' (Prepare sample_prepare) (booted ?env))
      = Err (''failed applying prepared host MTU: '' @ ''failed setting MTU'')"
    by code_simp
  have "pending (hs (prepared ?env)) = None" "committed_profile (hs (prepared ?env)) = None"
      "disk (prepared ?env) = Some (hs (prepared ?env))" "link_mtu (booted ?env) = 1420"
      "link_mtu (prepared ?env) = 1280"
    by code_simp+
  with one show ?thesis by (metis prepared_def prod.collapse)
qed

text \<open>
  Without \<open>read_clean\<close> they end too: a state file that cannot be read counts as none and is replaced, so
  the committed profile is forgotten while the interface still has its MTU.
\<close>

definition committed :: manager where
  "committed = snd (perform calm ''wg0'' (Commit sample_finish) (prepared calm))"

lemma failed_read_forgets_profile:
  "\<exists>env m. manager_new env ''wg0'' ''vm'' ''1.1'' committed = (Done (), m)
    \<and> committed_profile (hs committed) = Some (sample_profile 1 1280) \<and> disk committed = Some (hs committed)
    \<and> committed_profile (hs m) = None \<and> disk m = Some (hs m) \<and> link_mtu m = 1280"
proof -
  let ?env = "calm\<lparr>read_fault := \<lambda>_. FailBefore\<rparr>"
  let ?run = "manager_new ?env ''wg0'' ''vm'' ''1.1'' committed"
  have "fst ?run = Done ()" "committed_profile (hs (snd ?run)) = None" "disk (snd ?run) = Some (hs (snd ?run))"
    "link_mtu (snd ?run) = 1280" "committed_profile (hs committed) = Some (sample_profile 1 1280)"
    "disk committed = Some (hs committed)"
    by code_simp+
  then show ?thesis by (metis prod.collapse)
qed

section \<open>The effect of a commit\<close>

lemma commit_changes:
  assumes "commit_connection_profile env i req m = (r, m')" and "r \<noteq> Crashed"
    and "committed_profile (hs m') \<noteq> committed_profile (hs m)"
  shows "\<exists>p. pending (hs m) = Some p \<and> request_matches req p
    \<and> committed_profile (hs m') = Some (pending_target p) \<and> pending (hs m') = None
    \<and> link_mtu m' = inner_mtu (pending_target p) \<and> disk m' = Some (hs m') \<and> r = Done (link_state (hs m'))"
proof -
  let ?ps = "{None, pending (hs m)}" and ?c = "committed_profile (hs m)"
  obtain r1 m1 where rec: "reconcile_expired_profile env i m = (r1, m1)" by fastforce
  have "framed ?c ?ps m" by (simp add: framed_def)
  then have "r1 \<noteq> Crashed \<Longrightarrow> framed ?c ?ps m1"
    using frame.keeps_result [OF frame_reconcile _ rec, of ?ps ?c] by simp
  then have m1: "r1 \<noteq> Crashed \<Longrightarrow> committed_profile (hs m1) = ?c \<and> pending (hs m1) \<in> ?ps"
    by (simp add: framed_def)
  show ?thesis
  proof (cases r1)
    case (Done u)
    have core: "committed_profile (hs m1) = ?c" "pending (hs m1) \<in> ?ps" using m1 Done by simp_all
    have body: "(r, m') = (if already_committed req (hs m1) then return (link_state (hs m1))
      else case pending (hs m1) of None \<Rightarrow> bail ''no prepared connection profile exists''
       | Some p \<Rightarrow> if \<not> request_matches req p
           then bail ''connection profile commit does not match the prepared transaction''
           else andThen (get_mtu env i) (\<lambda>observed.
             if observed \<noteq> inner_mtu (pending_target p) then bail ''host MTU changed before commit''
             else andThen (utc_now env) (\<lambda>t.
               let new = committed_state (to_rfc3339 env t) observed req p (hs m1) in
               andThen (persist_state env new) (\<lambda>_.
               andThen (update_state (\<lambda>_. new)) (\<lambda>_. return (link_state new)))))) m1"
      using assms(1) by (simp add: commit_connection_profile_def andThen_def rec Done get_state_def)
    show ?thesis
      using body assms(2,3) core
      by (auto simp: return_def bail_def andThen_def get_mtu_def effect_def utc_now_def persist_state_def
          update_state_def Let_def committed_state_def bump_def
          split: if_splits option.splits io_fault.splits) metis
  qed (use assms m1 rec in \<open>auto simp: commit_connection_profile_def andThen_def\<close>)
qed

lemma others_keep_committed:
  assumes "perform env i op m = (r, m')" and "r \<noteq> Crashed" and "\<And>req. op \<noteq> Commit req"
  shows "committed_profile (hs m') = committed_profile (hs m)"
proof -
  have "frame.keeps (committed_profile (hs m)) UNIV (perform env i op)"
    using assms(3)
    by (cases op) (auto intro!: frame.keeps_seq frame_prepare frame_abort frame_link_state
        frame_status frame_prepare_turn frame_stop_turn)
  from frame.keeps_result [OF this _ assms(1)] assms(2) show ?thesis by (simp add: framed_def)
qed

section \<open>Properties\<close>

text \<open>C31: connection-profile changes are atomic across crashes. Whatever requests were answered, failed or
  were cut short, and wherever the agent died and was started again, a restart without faults succeeds, leaves no
  transaction open, keeps the profile the state file says is committed, and sets the interface to exactly its
  MTU (or to the original MTU if nothing was ever committed). This is on two conditions on the calls before
  that restart: setting the MTU never failed after it took effect (link_clean: in particular its
  read-back did not fail; it may have failed before or crashed half way), and no start failed to read the state
  file (read_clean). All other calls may have failed or crashed at any point.\<close>

theorem profile_crash_atomic:
  assumes "net_reachable env i m0 alive m" and "link_clean env" and "read_clean env"
    and "faultless env'" and "validate_interface_name i"
  shows "\<exists>m'. manager_new env' i inst ver m = (Done (), m')
    \<and> link_mtu m' = (case Option.bind (disk m) committed_profile of Some c \<Rightarrow> inner_mtu c | None \<Rightarrow> m0)
    \<and> pending (hs m') = None \<and> committed_profile (hs m') = Option.bind (disk m) committed_profile
    \<and> disk m' = Some (hs m')"
proof -
  have "restored m0 (disk m)
      = (case Option.bind (disk m) committed_profile of Some c \<Rightarrow> inner_mtu c | None \<Rightarrow> m0)"
    by (simp add: restored_def base_mtu_def split: option.split)
  then show ?thesis
    using restart_faultless [OF _ assms(4,5), of m0 m inst ver] net_reachable_ok [OF assms(1-3)] by simp
qed

theorem profile_crash_atomic_witness:
  "link_mtu (prepared calm) = 1280 \<and> (\<exists>m'. manager_new calm ''wg0'' ''vm'' ''1.1'' (prepared calm) = (Done (), m')
    \<and> link_mtu m' = 1420 \<and> pending (hs m') = None)"
proof -
  have "Option.bind (disk (prepared calm)) committed_profile = None" by code_simp
  then show ?thesis
    using profile_crash_atomic [OF calm_prepared calm_clean sample_name, of "''vm''" "''1.1''"]
    by (auto simp: calm_facts)
qed

text \<open>C32: while the agent answers requests, the interface's MTU is the committed profile's whenever
  no transaction is open; while one is open, the MTU is the committed one or the proposed one, the
  journal holds the committed one to go back to, and the proposal is the next revision. This is on the
  conditions that setting the MTU never failed after it took effect (link_clean) and no start failed to read
  the state file (read_clean), whatever else failed or crashed.\<close>

theorem link_mtu_tracks_profile:
  assumes "net_reachable env i m0 True m" and "link_clean env" and "read_clean env"
  shows "case pending (hs m) of
      None \<Rightarrow> link_mtu m = base_mtu m0 (hs m)
    | Some p \<Rightarrow> previous_mtu p = base_mtu m0 (hs m) \<and> mtu_in_range (inner_mtu (pending_target p))
        \<and> profile_revision (pending_target p) = saturating_inc (committed_revision (hs m))
        \<and> link_mtu m \<in> {base_mtu m0 (hs m), inner_mtu (pending_target p)}"
  using net_reachable_ok [OF assms] by (auto simp: running_def memory_ok_def split: option.splits)

theorem link_mtu_tracks_profile_witness:
  "\<exists>p. pending (hs (prepared calm)) = Some p \<and> previous_mtu p = 1420
    \<and> link_mtu (prepared calm) = inner_mtu (pending_target p)"
proof -
  obtain p where p: "pending (hs (prepared calm)) = Some p" using calm_facts(2) by auto
  have "base_mtu 1420 (hs (prepared calm)) = 1420" by (simp add: base_mtu_def calm_facts)
  then show ?thesis
    using link_mtu_tracks_profile [OF calm_prepared calm_clean(1,2)] p by (simp add: calm_facts)
qed

text \<open>C33: only a commit request that names the prepared transaction (operation, transition and
  revision) changes the committed profile; it makes it the prepared one, one revision on, at the
  moment the interface carries its MTU, and has written the state it reports. (The revision is stated
  under the conditions of the two properties before.)\<close>

theorem commit_advances:
  assumes "net_reachable env i m0 True m" and "link_clean env" and "read_clean env"
    and "perform env i op m = (r, m')" and "r \<noteq> Crashed"
    and "committed_profile (hs m') \<noteq> committed_profile (hs m)"
  shows "\<exists>req p. op = Commit req \<and> r = Done () \<and> pending (hs m) = Some p \<and> request_matches req p
    \<and> committed_profile (hs m') = Some (pending_target p) \<and> pending (hs m') = None
    \<and> profile_revision (pending_target p) = saturating_inc (committed_revision (hs m))
    \<and> link_mtu m' = inner_mtu (pending_target p) \<and> disk m' = Some (hs m')"
proof -
  obtain req where op: "op = Commit req" using others_keep_committed [OF assms(4,5)] assms(6) by metis
  obtain rc mc where run: "commit_connection_profile env i req m = (rc, mc)" by fastforce
  have res: "mc = m'" "rc \<noteq> Crashed" "\<And>x. rc = Done x \<Longrightarrow> r = Done ()"
    using assms(4,5) by (auto simp: op andThen_def run return_def split: outcome.splits)
  obtain p where p: "pending (hs m) = Some p" "request_matches req p"
      "committed_profile (hs m') = Some (pending_target p)" "pending (hs m') = None"
      "link_mtu m' = inner_mtu (pending_target p)" "disk m' = Some (hs m')" "r = Done ()"
    using commit_changes [OF run res(2)] assms(6) res by auto
  moreover have "profile_revision (pending_target p) = saturating_inc (committed_revision (hs m))"
    using net_reachable_ok [OF assms(1-3)] p(1) by (auto simp: running_def memory_ok_def)
  ultimately show ?thesis using op by blast
qed

theorem commit_advances_witness:
  "\<exists>m'. perform calm ''wg0'' (Commit sample_finish) (prepared calm) = (Done (), m')
    \<and> link_mtu m' = 1280 \<and> disk m' = Some (hs m')"
proof -
  obtain r m' where run: "perform calm ''wg0'' (Commit sample_finish) (prepared calm) = (r, m')" by fastforce
  have "fst (perform calm ''wg0'' (Commit sample_finish) (prepared calm)) \<noteq> Crashed" by code_simp
  then have r: "r \<noteq> Crashed" using run by (metis fst_conv)
  have c: "committed_profile (hs m') = Some (sample_profile 1 1280)" using calm_facts(4) run by (metis snd_conv)
  then have "committed_profile (hs m') \<noteq> committed_profile (hs (prepared calm))" by (simp add: calm_facts)
  note adv = commit_advances [OF calm_prepared calm_clean(1,2) run r this]
  then obtain p :: pending_profile where "r = Done ()" "committed_profile (hs m') = Some (pending_target p)"
      "link_mtu m' = inner_mtu (pending_target p)" "disk m' = Some (hs m')" by blast
  moreover have "inner_mtu (sample_profile 1 1280) = 1280" by (simp add: sample_profile_def)
  ultimately show ?thesis using run c by (auto simp del: perform.simps)
qed

text \<open>A prepare whose journal entry could not be written leaves the transaction open in memory,
  so a retry of the same request is answered with success although the profile's MTU was never
  applied.\<close>

theorem retried_prepare_unapplied:
  "\<exists>env m1 m2 e x. net_reachable env ''wg0'' 1420 True m1 \<and> link_clean env \<and> read_clean env
    \<and> perform env ''wg0'' (Prepare sample_prepare) (booted env) = (Err e, m1)
    \<and> prepare_connection_profile env ''wg0'' sample_prepare m1 = (Done x, m2)
    \<and> link_mtu m2 \<noteq> inner_mtu (requested_profile sample_prepare)"
proof -
  let ?env = "calm\<lparr>fault := \<lambda>n. if n = 6 then FailBefore else NoFault\<rparr>"
  let ?m1 = "prepared ?env"
  let ?m2 = "snd (prepare_connection_profile ?env ''wg0'' sample_prepare ?m1)"
  have boot: "net_reachable ?env ''wg0'' 1420 True (booted ?env)"
    by (rule booted_reachable) code_simp
  have one: "fst (perform ?env ''wg0'' (Prepare sample_prepare) (booted ?env)) = Err ''state file''"
    by code_simp
  have two: "fst (prepare_connection_profile ?env ''wg0'' sample_prepare ?m1)
      = Done (sample_profile 1 1280, link_state (hs ?m1))"
    by code_simp
  have "link_mtu ?m2 \<noteq> inner_mtu (requested_profile sample_prepare)" by code_simp
  moreover have "link_clean ?env" "read_clean ?env" by (simp_all add: link_clean_def read_clean_def calm_def)
  moreover have "net_reachable ?env ''wg0'' 1420 True ?m1"
    using net_reachable.request [OF boot surjective_pairing, of "Prepare sample_prepare"] one
    by (simp add: prepared_def del: perform.simps)
  ultimately show ?thesis using one two by (metis prepared_def prod.collapse)
qed

end
