(* ===== verification/Remote_Control.thy ===== *)
theory Remote_Control
  imports Probe_Session Profile_Properties Json
begin

text \<open>
  The privileged control channel of the network agent: the message authentication codes of
  \<^verbatim>\<open>network-contracts/src/control.rs\<close>, authentication and the request loop of
  \<^verbatim>\<open>network-agent/src/remote_control.rs\<close>, and the dispatch of \<^verbatim>\<open>network-agent/src/control.rs\<close> to
  the manager. HMAC-SHA-256, the hexadecimal codec, the JSON forms of the request types, the
  clocks and the other tasks of the agent are parameters.
\<close>

section \<open>Message authentication\<close>

text \<open>The bytes fed to HMAC; a field of 4 GiB or more ends the input.\<close>

fun update_mac_fields :: "bytes list \<Rightarrow> bytes" where
  "update_mac_fields [] = []"
| "update_mac_fields (f # fs) =
     (if length f < 2 ^ 32 then u32_to_be (of_nat (length f)) @ f @ update_mac_fields fs else [])"

record crypto =
  hmac :: "bytes \<Rightarrow> bytes \<Rightarrow> bytes"
  hex_encode :: "bytes \<Rightarrow> string"
  hex_decode :: "string \<Rightarrow> bytes option"

definition control_mac :: "crypto \<Rightarrow> bytes \<Rightarrow> bytes list \<Rightarrow> string" where
  "control_mac cr secret fds = hex_encode cr (hmac cr secret (update_mac_fields fds))"

definition verify_control_mac :: "crypto \<Rightarrow> bytes \<Rightarrow> bytes list \<Rightarrow> string \<Rightarrow> bool" where
  "verify_control_mac cr secret fds encoded =
     (case hex_decode cr encoded of
        None \<Rightarrow> False
      | Some expected \<Rightarrow> hmac cr secret (update_mac_fields fds) = expected)"

record auth_hello =
  hello_protocol :: u16
  hello_instance :: string
  client_nonce :: string
  hello_timestamp :: string
  hello_mac :: string

record auth_ok =
  ok_protocol :: u16
  control_session_id :: uuid
  server_nonce :: string
  next_sequence :: u64
  ok_mac :: string

definition hello_fields :: "u16 \<Rightarrow> string \<Rightarrow> string \<Rightarrow> string \<Rightarrow> bytes list" where
  "hello_fields ver inst nonce ts =
     [as_bytes ''auth-hello-v1'', u16_to_be ver, as_bytes inst, as_bytes nonce, as_bytes ts]"

definition ok_fields :: "string \<Rightarrow> u16 \<Rightarrow> uuid \<Rightarrow> string \<Rightarrow> u64 \<Rightarrow> bytes list" where
  "ok_fields nonce ver sid srv sq =
     [as_bytes ''auth-ok-v1'', as_bytes nonce, u16_to_be ver, uuid_as_bytes sid, as_bytes srv, u64_to_be sq]"

definition auth_hello_mac :: "crypto \<Rightarrow> bytes \<Rightarrow> u16 \<Rightarrow> string \<Rightarrow> string \<Rightarrow> string \<Rightarrow> string" where
  "auth_hello_mac cr secret ver inst nonce ts = control_mac cr secret (hello_fields ver inst nonce ts)"

definition auth_ok_mac :: "crypto \<Rightarrow> bytes \<Rightarrow> string \<Rightarrow> u16 \<Rightarrow> uuid \<Rightarrow> string \<Rightarrow> u64 \<Rightarrow> string" where
  "auth_ok_mac cr secret nonce ver sid srv sq = control_mac cr secret (ok_fields nonce ver sid srv sq)"

definition verify_auth_hello_mac :: "crypto \<Rightarrow> bytes \<Rightarrow> auth_hello \<Rightarrow> bool" where
  "verify_auth_hello_mac cr secret h =
     verify_control_mac cr secret
       (hello_fields (hello_protocol h) (hello_instance h) (client_nonce h) (hello_timestamp h)) (hello_mac h)"

definition verify_auth_ok_mac :: "crypto \<Rightarrow> bytes \<Rightarrow> string \<Rightarrow> auth_ok \<Rightarrow> bool" where
  "verify_auth_ok_mac cr secret nonce v =
     verify_control_mac cr secret
       (ok_fields nonce (ok_protocol v) (control_session_id v) (server_nonce v) (next_sequence v)) (ok_mac v)"

section \<open>Authentication\<close>

definition CONTROL_PROTOCOL_VERSION :: u16 where "CONTROL_PROTOCOL_VERSION = 1"
definition AUTH_CLOCK_SKEW :: int where "AUTH_CLOCK_SKEW = int (secs 60)"
definition NONCE_RETENTION :: nat where "NONCE_RETENTION = secs 120"
definition MAX_RETAINED_NONCES :: nat where "MAX_RETAINED_NONCES = 1024"
definition MAX_RPC_BYTES :: nat where "MAX_RPC_BYTES = 64 * 1024"

record remote_control =
  rc_instance :: string
  rc_secret :: bytes
  accepted_nonces :: "(string \<times> nat) list"

definition protocol_is_supported :: "auth_hello \<Rightarrow> bool" where
  "protocol_is_supported h \<longleftrightarrow> hello_protocol h = CONTROL_PROTOCOL_VERSION"

text \<open>The lock-protected part: \<open>t\<close> is the instant read before the lock was taken.\<close>

definition remember_nonce :: "string \<Rightarrow> nat \<Rightarrow> remote_control \<Rightarrow> (string, unit) result \<times> remote_control" where
  "remember_nonce n t rc =
     (let kept = dropWhile (\<lambda>(_, accepted). t - accepted \<ge> NONCE_RETENTION) (accepted_nonces rc) in
      if n \<in> fst ` set kept
      then (Inl ''replayed control authentication nonce'', rc\<lparr>accepted_nonces := kept\<rparr>)
      else (Inr (), rc\<lparr>accepted_nonces := newest (MAX_RETAINED_NONCES - 1) kept @ [(n, t)]\<rparr>))"

definition authenticate ::
  "crypto \<Rightarrow> (string \<Rightarrow> int option) \<Rightarrow> int \<Rightarrow> nat \<Rightarrow> auth_hello \<Rightarrow> remote_control
    \<Rightarrow> (string, unit) result \<times> remote_control" where
  "authenticate cr parse_time u t h rc =
     (if \<not> protocol_is_supported h then (Inl ''unsupported control protocol version'', rc)
      else if hello_instance h \<noteq> rc_instance rc then (Inl ''control instance identity mismatch'', rc)
      else if (case hex_decode cr (client_nonce h) of None \<Rightarrow> True | Some n \<Rightarrow> length n \<noteq> 32)
      then (Inl ''invalid control client nonce'', rc)
      else case parse_time (hello_timestamp h) of
        None \<Rightarrow> (Inl ''invalid control authentication timestamp'', rc)
      | Some ts \<Rightarrow>
        if \<bar>ts - u\<bar> > AUTH_CLOCK_SKEW
        then (Inl ''control authentication timestamp is outside the allowed clock skew'', rc)
        else if \<not> verify_auth_hello_mac cr (rc_secret rc) h
        then (Inl ''invalid control authentication MAC'', rc)
        else remember_nonce (client_nonce h) t rc)"

definition load_control_secret :: "crypto \<Rightarrow> string option \<Rightarrow> (string, bytes option) result" where
  "load_control_secret cr body =
     (case body of
        None \<Rightarrow> Inr None
      | Some s \<Rightarrow>
        (case hex_decode cr (trim s) of
           None \<Rightarrow> Inl ''control secret must be hexadecimal''
         | Some k \<Rightarrow> if length k = 32 then Inr (Some k) else Inl ''control secret must encode exactly 32 bytes''))"

section \<open>Dispatch\<close>

record 'f agent =
  mgr :: manager
  registry :: "'f session_registry"

record ctl_codec =
  decode_prepare :: "json \<Rightarrow> prepare_profile_request option"
  decode_commit :: "json \<Rightarrow> finish_profile_request option"
  decode_abort :: "json \<Rightarrow> finish_profile_request option"
  decode_turn :: "json \<Rightarrow> prepare_turn_request option"
  decode_install :: "json \<Rightarrow> install_probe_request option"
  encode_prepared :: "connection_profile \<times> host_link_state \<Rightarrow> json"
  encode_link :: "host_link_state \<Rightarrow> json"
  encode_turn :: "prepare_turn_response \<Rightarrow> json"
  encode_state :: "host_network_state \<Rightarrow> json"
  encode_stats :: "turn_bridge_stats option \<Rightarrow> json"

text \<open>\<open>others n\<close> is what the agent's other tasks do while this one waits for a lock.\<close>

record 'f ctl_env =
  net :: net_env
  iface :: string
  crypto_of :: crypto
  codec :: ctl_codec
  iteration :: "(uuid \<times> 'f session) list \<Rightarrow> (uuid \<times> 'f session) list"
  monotonic :: "nat \<Rightarrow> nat"
  others :: "nat \<Rightarrow> 'f agent \<Rightarrow> 'f agent"
  send_ok :: "nat \<Rightarrow> bool"

definition on_manager :: "'a op \<Rightarrow> ('a \<Rightarrow> json) \<Rightarrow> 'f agent \<Rightarrow> json outcome \<times> 'f agent" where
  "on_manager f enc a =
     (case f (mgr a) of
        (Done x, m) \<Rightarrow> (Done (enc x), a\<lparr>mgr := m\<rparr>)
      | (Err e, m) \<Rightarrow> (Err e, a\<lparr>mgr := m\<rparr>)
      | (Crashed, m) \<Rightarrow> (Crashed, a\<lparr>mgr := m\<rparr>))"

definition install_on :: "'f ctl_env \<Rightarrow> install_probe_request \<Rightarrow> 'f agent \<Rightarrow> json outcome \<times> 'f agent" where
  "install_on env req a =
     (let k = calls (mgr a); a1 = a\<lparr>mgr := (mgr a)\<lparr>calls := Suc k\<rparr>\<rparr> in
      case install_probe_session (net env) (hex_decode (crypto_of env)) (iteration env)
             (wall_clock (net env) k) (monotonic env k) req (registry a) of
        Inl e \<Rightarrow> (Err e, a1)
      | Inr reg \<Rightarrow> (Done (JObject [(''installed'', JBool True)]), a1\<lparr>registry := reg\<rparr>))"

definition capabilities :: json where
  "capabilities = JObject
     [(''agentVersion'', JString ''0.2.0''), (''protocolVersions'', JArray [JNumber (PosInt 1)]),
      (''turnProviders'', JArray [JString ''cloudflare'']), (''turnTransports'', JArray [JString ''udp'']),
      (''probeProtocolVersions'', JArray [JNumber (PosInt 1), JNumber (PosInt 2), JNumber (PosInt 3)]),
      (''bridgeSupported'', JBool True),
      (''connectionProfileSchemaVersions'', JArray [JNumber (PosInt 1)]),
      (''connectionProfileTransactions'', JBool True),
      (''policyProfiles'', JArray [JString ''gaming-v1''])]"

definition dispatch_method :: "'f ctl_env \<Rightarrow> string \<Rightarrow> json \<Rightarrow> 'f agent \<Rightarrow> json outcome \<times> 'f agent" where
  "dispatch_method env meth params a =
     (let e = net env; i = iface env; c = codec env in
      if meth = ''get_capabilities'' then (Done capabilities, a)
      else if meth = ''get_link_state'' then on_manager (get_link_state e i) (encode_link c) a
      else if meth = ''prepare_connection_profile'' then
        (case decode_prepare c params of
           None \<Rightarrow> (Err ''invalid prepare_connection_profile parameters'', a)
         | Some r \<Rightarrow> on_manager (prepare_connection_profile e i r) (encode_prepared c) a)
      else if meth = ''commit_connection_profile'' then
        (case decode_commit c params of
           None \<Rightarrow> (Err ''invalid commit_connection_profile parameters'', a)
         | Some r \<Rightarrow> on_manager (commit_connection_profile e i r) (encode_link c) a)
      else if meth = ''abort_connection_profile'' then
        (case decode_abort c params of
           None \<Rightarrow> (Err ''invalid abort_connection_profile parameters'', a)
         | Some r \<Rightarrow> on_manager (abort_connection_profile e i r) (encode_link c) a)
      else if meth = ''prepare_turn'' then
        (case decode_turn c params of
           None \<Rightarrow> (Err ''invalid prepare_turn parameters'', a)
         | Some r \<Rightarrow> on_manager (prepare_turn e r) (encode_turn c) a)
      else if meth = ''get_network_status'' then
        on_manager (manager_status e i)
          (\<lambda>(st, br). JObject [(''state'', encode_state c st), (''bridge'', encode_stats c br)]) a
      else if meth = ''install_probe_session'' then
        (case decode_install c params of
           None \<Rightarrow> (Err ''invalid install_probe_session parameters'', a)
         | Some r \<Rightarrow> install_on env r a)
      else if meth = ''stop_turn'' then on_manager (stop_turn e) (encode_state c) a
      else (Err (''unsupported control method `'' @ meth @ ''`''), a))"

section \<open>The local control socket\<close>

definition MAX_REQUEST_BYTES :: nat where "MAX_REQUEST_BYTES = 64 * 1024"

record local_request =
  lrq_id :: uuid
  lrq_method :: string
  lrq_params :: json

record local_error =
  lerr_code :: string
  lerr_message :: string
  lerr_retryable :: bool

record local_response =
  lrs_id :: uuid
  lrs_result :: "json option"
  lrs_error :: "local_error option"

definition local_error_response :: "uuid \<Rightarrow> string \<Rightarrow> string \<Rightarrow> bool \<Rightarrow> local_response" where
  "local_error_response i c msg retry = \<lparr>lrs_id = i, lrs_result = None,
     lrs_error = Some \<lparr>lerr_code = c, lerr_message = msg, lerr_retryable = retry\<rparr>\<rparr>"

text \<open>\<open>parse\<close> is the JSON decoder; the line end is byte 10.\<close>

definition decode_local_request ::
  "(bytes \<Rightarrow> local_request option) \<Rightarrow> bytes \<Rightarrow> (local_response, local_request) result" where
  "decode_local_request parse body =
     (if length body > MAX_REQUEST_BYTES
      then Inl (local_error_response 0 ''request_too_large'' ''control request exceeds 64 KiB'' False)
      else if \<not> suffix [10] body
      then Inl (local_error_response 0 ''invalid_request'' ''control request must end with a newline'' False)
      else case parse body of
        None \<Rightarrow> Inl (local_error_response 0 ''invalid_request'' ''invalid control request'' False)
      | Some rq \<Rightarrow> Inr rq)"

text \<open>One connection: the request read up to a newline, but never more than one byte past the limit.\<close>

definition local_dispatch :: "'f ctl_env \<Rightarrow> local_request \<Rightarrow> 'f agent \<Rightarrow> local_response option \<times> 'f agent" where
  "local_dispatch env rq a =
     (case dispatch_method env (lrq_method rq) (lrq_params rq) a of
        (Done j, a') \<Rightarrow> (Some \<lparr>lrs_id = lrq_id rq, lrs_result = Some j, lrs_error = None\<rparr>, a')
      | (Err e, a') \<Rightarrow> (Some (local_error_response (lrq_id rq) ''control_operation_failed'' e True), a')
      | (Crashed, a') \<Rightarrow> (None, a'))"

definition local_connection ::
  "'f ctl_env \<Rightarrow> (bytes \<Rightarrow> local_request option) \<Rightarrow> bytes \<Rightarrow> 'f agent \<Rightarrow> local_response option \<times> 'f agent" where
  "local_connection env parse input a =
     (let line = takeWhile (\<lambda>b. b \<noteq> 10) input;
          body = take (MAX_REQUEST_BYTES + 1) (if length line < length input then line @ [10] else line)
      in case decode_local_request parse body of
           Inl r \<Rightarrow> (Some r, a)
         | Inr rq \<Rightarrow> local_dispatch env rq a)"

section \<open>The request loop\<close>

datatype network_error_code =
  InvalidRequest | UnsupportedMethod | ControlOperationFailed | UnsupportedProtocolVersion
  | Unauthorized | ReplayedRequest | StaleRevision

record network_error =
  err_code :: network_error_code
  err_message :: string
  err_retryable :: bool

record control_request =
  rq_protocol :: u16
  rq_session :: uuid
  rq_id :: uuid
  rq_sequence :: u64
  rq_method :: string
  rq_expected_revision :: "u64 option"
  rq_params :: json

record control_response =
  rs_protocol :: u16
  rs_session :: uuid
  rs_id :: uuid
  rs_sequence :: u64
  rs_revision :: u64
  rs_result :: "json option"
  rs_error :: "network_error option"

text \<open>A received frame: text with its byte length and decoded request, close, another kind, or a
  transport error.\<close>

datatype ctl_frame = TextFrame nat "control_request option" | CloseFrame | OtherFrame | BrokenFrame

text \<open>What the loop does: a request handed to the manager at a host revision, an answer sent.\<close>

datatype ctl_event = Executed control_request u64 | Replied control_response

definition is_mutating_method :: "string \<Rightarrow> bool" where
  "is_mutating_method m \<longleftrightarrow> m \<in> {''prepare_turn'', ''install_probe_session'', ''stop_turn'',
     ''prepare_connection_profile'', ''commit_connection_profile'', ''abort_connection_profile''}"

definition revision_of :: "'f agent \<Rightarrow> u64" where
  "revision_of a = host_revision (hs (mgr a))"

definition error_response ::
  "uuid \<Rightarrow> uuid \<Rightarrow> u64 \<Rightarrow> network_error_code \<Rightarrow> string \<Rightarrow> bool \<Rightarrow> 'f agent \<Rightarrow> control_response" where
  "error_response sid rid sq c msg retry a = \<lparr>rs_protocol = CONTROL_PROTOCOL_VERSION, rs_session = sid,
     rs_id = rid, rs_sequence = sq, rs_revision = revision_of a, rs_result = None,
     rs_error = Some \<lparr>err_code = c, err_message = msg, err_retryable = retry\<rparr>\<rparr>"

definition request_error ::
  "control_request \<Rightarrow> network_error_code \<Rightarrow> string \<Rightarrow> bool \<Rightarrow> 'f agent \<Rightarrow> ctl_event list" where
  "request_error rq c msg retry a =
     [Replied (error_response (rq_session rq) (rq_id rq) (rq_sequence rq) c msg retry a)]"

definition reply_to :: "uuid \<Rightarrow> control_request \<Rightarrow> json outcome \<Rightarrow> 'f agent \<Rightarrow> control_response" where
  "reply_to sid rq r a = \<lparr>rs_protocol = CONTROL_PROTOCOL_VERSION, rs_session = sid, rs_id = rq_id rq,
     rs_sequence = rq_sequence rq, rs_revision = revision_of a,
     rs_result = (case r of Done j \<Rightarrow> Some j | _ \<Rightarrow> None),
     rs_error = (case r of Err e \<Rightarrow> Some \<lparr>err_code =
         (if prefix ''unsupported control method'' e then UnsupportedMethod else ControlOperationFailed),
         err_message = e, err_retryable = True\<rparr> | _ \<Rightarrow> None)\<rparr>"

text \<open>
  One frame: the events, the agent afterwards and the next expected sequence number, or \<open>None\<close>
  when the connection ends.
\<close>

definition handle_request ::
  "'f ctl_env \<Rightarrow> nat \<Rightarrow> uuid \<Rightarrow> u64 \<Rightarrow> control_request \<Rightarrow> 'f agent \<Rightarrow> ctl_event list \<times> 'f agent \<times> u64 option" where
  "handle_request env n sid expected rq a =
     (if rq_protocol rq \<noteq> CONTROL_PROTOCOL_VERSION
      then (request_error rq UnsupportedProtocolVersion ''unsupported control protocol version'' False a, a, None)
      else if rq_session rq \<noteq> sid
      then (request_error rq Unauthorized ''control session does not match this connection'' False a, a, None)
      else if rq_sequence rq \<noteq> expected
      then (request_error rq ReplayedRequest ''control request sequence is stale or out of order'' False a, a, None)
      else
        let before = revision_of a; a1 = others env (3 * n + 1) a;
            continue = (if send_ok env n then Some (saturating_inc expected) else None) in
        if is_mutating_method (rq_method rq)
          \<and> (case rq_expected_revision rq of Some e \<Rightarrow> e \<noteq> before | None \<Rightarrow> False)
        then (request_error rq StaleRevision ''host network state changed before this request'' True a1, a1, continue)
        else
          let (r, a2) = dispatch_method env (rq_method rq) (rq_params rq) a1 in
          if r = Crashed then ([Executed rq (revision_of a1)], a2, None)
          else let a3 = others env (3 * n + 2) a2 in
            ([Executed rq (revision_of a1), Replied (reply_to sid rq r a3)], a3, continue))"

fun handle_frame ::
  "'f ctl_env \<Rightarrow> nat \<Rightarrow> uuid \<Rightarrow> u64 \<Rightarrow> ctl_frame \<Rightarrow> 'f agent \<Rightarrow> ctl_event list \<times> 'f agent \<times> u64 option" where
  "handle_frame env n sid expected (TextFrame len body) a =
     (let a1 = others env (3 * n) a in
      if len > MAX_RPC_BYTES
      then ([Replied (error_response sid 0 expected InvalidRequest
               ''control requests must be JSON text no larger than 64 KiB'' False a1)], a1, None)
      else case body of
        None \<Rightarrow> ([Replied (error_response sid 0 expected InvalidRequest ''invalid control request'' False a1)], a1, None)
      | Some rq \<Rightarrow> handle_request env n sid expected rq a1)"
| "handle_frame env n sid expected OtherFrame a =
     (let a1 = others env (3 * n) a in
      ([Replied (error_response sid 0 expected InvalidRequest
           ''control requests must be JSON text no larger than 64 KiB'' False a1)], a1, None))"
| "handle_frame env n sid expected CloseFrame a = ([], others env (3 * n) a, None)"
| "handle_frame env n sid expected BrokenFrame a = ([], others env (3 * n) a, None)"

fun control_loop ::
  "'f ctl_env \<Rightarrow> nat \<Rightarrow> uuid \<Rightarrow> u64 \<Rightarrow> ctl_frame list \<Rightarrow> 'f agent \<Rightarrow> ctl_event list \<times> 'f agent" where
  "control_loop env n sid expected [] a = ([], a)"
| "control_loop env n sid expected (f # fs) a =
     (case handle_frame env n sid expected f a of
        (evs, a', None) \<Rightarrow> (evs, a')
      | (evs, a', Some nxt) \<Rightarrow>
          let (evs', a'') = control_loop env (Suc n) sid nxt fs a' in (evs @ evs', a''))"

text \<open>A connection: authentication, the signed answer (\<open>sid\<close> and \<open>srv\<close> are fresh random values),
  then the requests from sequence number 1.\<close>

definition handle_connection ::
  "'f ctl_env \<Rightarrow> int \<Rightarrow> nat \<Rightarrow> uuid \<Rightarrow> string \<Rightarrow> auth_hello \<Rightarrow> ctl_frame list \<Rightarrow> remote_control \<Rightarrow> 'f agent
    \<Rightarrow> (string, auth_ok) result \<times> ctl_event list \<times> remote_control \<times> 'f agent" where
  "handle_connection env u t sid srv h frames rc a =
     (case authenticate (crypto_of env) (parse_rfc3339 (net env)) u t h rc of
        (Inl e, rc') \<Rightarrow> (Inl e, [], rc', a)
      | (Inr _, rc') \<Rightarrow>
        let ok = \<lparr>ok_protocol = CONTROL_PROTOCOL_VERSION, control_session_id = sid, server_nonce = srv,
              next_sequence = 1, ok_mac = auth_ok_mac (crypto_of env) (rc_secret rc') (client_nonce h)
                CONTROL_PROTOCOL_VERSION sid srv 1\<rparr>;
            (evs, a') = control_loop env 0 sid 1 frames a
        in (Inr ok, evs, rc', a'))"

section \<open>Transcripts determine their fields\<close>

definition short_field :: "bytes \<Rightarrow> bool" where
  "short_field f \<longleftrightarrow> length f < 2 ^ 32"

lemma length_prefix_inject:
  assumes "length f < 2 ^ 32" and "length g < 2 ^ 32"
    and "u32_to_be (of_nat (length f)) @ f @ xs = u32_to_be (of_nat (length g)) @ g @ ys"
  shows "f = g \<and> xs = ys"
proof -
  have "(of_nat (length f) :: u32) = of_nat (length g)"
    using assms(3) be32.enc_inject by (metis append_eq_append_conv be32.length_enc)
  moreover have "unat (of_nat (length f) :: u32) = length f" "unat (of_nat (length g) :: u32) = length g"
    using assms(1,2) by (simp_all add: unat_of_nat)
  ultimately have "length f = length g" by metis
  then show ?thesis using assms(3) by simp
qed

lemma update_mac_fields_nonempty: "short_field g \<Longrightarrow> update_mac_fields (g # gs) \<noteq> []"
  using be32.length_enc [of "of_nat (length g)"] by (auto simp: short_field_def simp del: be32.length_enc codec_lengths)

lemma update_mac_fields_inject:
  assumes "list_all short_field fs" and "list_all short_field gs"
  shows "update_mac_fields fs = update_mac_fields gs \<longleftrightarrow> fs = gs"
  using assms
proof (induction fs arbitrary: gs)
  case Nil
  then show ?case using update_mac_fields_nonempty [of "hd gs" "tl gs"] by (cases gs) simp_all
next
  case (Cons f fs)
  show ?case
  proof (cases gs)
    case Nil
    then show ?thesis using update_mac_fields_nonempty [of f fs] Cons.prems by simp
  next
    case (Cons g gs')
    have short: "length f < 2 ^ 32" "length g < 2 ^ 32" "list_all short_field fs" "list_all short_field gs'"
      using Cons.prems by (simp_all add: Cons) (simp_all add: short_field_def)
    then have "update_mac_fields (f # fs) = update_mac_fields gs \<longleftrightarrow> f = g \<and> update_mac_fields fs = update_mac_fields gs'"
      using length_prefix_inject [OF short(1,2), of "update_mac_fields fs" "update_mac_fields gs'"] short(1,2)
      unfolding Cons update_mac_fields.simps by (simp only: if_True) blast
    then show ?thesis using Cons.IH [OF short(3,4)] by (simp add: Cons)
  qed
qed

lemma hello_fields_inject:
  "hello_fields v i n t = hello_fields v' i' n' t' \<longleftrightarrow> v = v' \<and> i = i' \<and> n = n' \<and> t = t'"
  by (auto simp: hello_fields_def as_bytes_inject be16.enc_inject)

lemma ok_fields_inject:
  "ok_fields n v s r q = ok_fields n' v' s' r' q' \<longleftrightarrow> n = n' \<and> v = v' \<and> s = s' \<and> r = r' \<and> q = q'"
  by (auto simp: ok_fields_def as_bytes_inject be16.enc_inject be128.enc_inject be64.enc_inject)

lemma hello_not_ok: "hello_fields v i n t \<noteq> ok_fields n' v' s' r' q'"
  by (simp add: hello_fields_def ok_fields_def)

text \<open>A successful forgery: two different transcripts, these two, with the same HMAC.\<close>

definition collide :: "crypto \<Rightarrow> bytes \<Rightarrow> bytes list \<Rightarrow> bytes list \<Rightarrow> bool" where
  "collide cr k fs gs \<longleftrightarrow> update_mac_fields fs \<noteq> update_mac_fields gs
     \<and> hmac cr k (update_mac_fields fs) = hmac cr k (update_mac_fields gs)"

lemma mac_verifies_iff:
  assumes "\<And>b. hex_decode cr (hex_encode cr b) = Some b"
    and "list_all short_field fs" and "list_all short_field gs"
  shows "verify_control_mac cr k gs (control_mac cr k fs) \<longleftrightarrow> gs = fs \<or> collide cr k fs gs"
  using update_mac_fields_inject [OF assms(2,3)]
  by (auto simp: collide_def verify_control_mac_def control_mac_def assms(1))

section \<open>Nonces\<close>

interpretation nonce_log: aged_log "snd :: string \<times> nat \<Rightarrow> nat" NONCE_RETENTION
  by unfold_locales (simp add: NONCE_RETENTION_def secs_def)

lemma nonce_prune: "dropWhile (\<lambda>(_, accepted). t - accepted \<ge> NONCE_RETENTION) xs = nonce_log.prune t xs"
  by (simp add: nonce_log.prune_def case_prod_unfold)

lemma authenticate_cases:
  assumes "authenticate cr pt u t h rc = (r, rc')"
  obtains (refused) e where "r = Inl e" "rc' = rc"
  | (replayed) e where "r = Inl e" "accepted_nonces rc' = nonce_log.prune t (accepted_nonces rc)"
  | (accepted) ts where "r = Inr ()" "pt (hello_timestamp h) = Some ts" "\<bar>ts - u\<bar> \<le> AUTH_CLOCK_SKEW"
      "client_nonce h \<notin> fst ` set (nonce_log.prune t (accepted_nonces rc))"
      "accepted_nonces rc' = newest (MAX_RETAINED_NONCES - 1) (nonce_log.prune t (accepted_nonces rc))
         @ [(client_nonce h, t)]"
proof (cases "pt (hello_timestamp h)")
  case None
  then show ?thesis using assms refused by (auto simp: authenticate_def split: if_splits)
next
  case (Some ts)
  show ?thesis
  proof (cases "authenticate cr pt u t h rc = remember_nonce (client_nonce h) t rc \<and> \<bar>ts - u\<bar> \<le> AUTH_CLOCK_SKEW")
    case True
    then show ?thesis
      using assms replayed accepted [OF _ Some]
      by (auto simp: remember_nonce_def nonce_prune Let_def split: if_splits)
  next
    case False
    then show ?thesis using assms refused Some by (auto simp: authenticate_def split: if_splits)
  qed
qed

text \<open>A sequence of authentication attempts and how many of them succeed.\<close>

fun auth_run ::
  "crypto \<Rightarrow> (string \<Rightarrow> int option) \<Rightarrow> (auth_hello \<times> int \<times> nat) list \<Rightarrow> remote_control \<Rightarrow> nat \<times> remote_control" where
  "auth_run cr pt [] rc = (0, rc)"
| "auth_run cr pt ((h, u, t) # as) rc =
     (case authenticate cr pt u t h rc of
        (Inl _, rc') \<Rightarrow> auth_run cr pt as rc'
      | (Inr _, rc') \<Rightarrow> let (n, rc'') = auth_run cr pt as rc' in (Suc n, rc''))"

text \<open>The nonce accepted at \<open>t0\<close> is still retained, \<open>c\<close> acceptances later, unless it was crowded out or
  too old at \<open>T\<close>, a bound of the instants of all attempts: they need not come in order, since an
  instant is read before the lock is taken.\<close>

definition retained :: "string \<Rightarrow> nat \<Rightarrow> nat \<Rightarrow> nat \<Rightarrow> (string \<times> nat) list \<Rightarrow> bool" where
  "retained n t0 T c xs \<longleftrightarrow> NONCE_RETENTION \<le> T - t0 \<or> MAX_RETAINED_NONCES \<le> c
     \<or> (\<exists>pre post. xs = pre @ (n, t0) # post \<and> length post \<le> c)"

lemma prune_keeps_suffix:
  assumes "\<not> NONCE_RETENTION \<le> t - t0"
  shows "\<exists>pre'. nonce_log.prune t (pre @ (n, t0) # post) = pre' @ (n, t0) # post"
proof (induction pre)
  case Nil
  then show ?case using assms by (intro exI [of _ "[]"]) (simp add: nonce_log.prune_def)
next
  case (Cons y ys)
  then show ?case
    by (cases "NONCE_RETENTION \<le> t - snd y") (simp_all add: nonce_log.prune_def exI [of _ "y # ys"])
qed

lemma retained_prune:
  assumes "retained n t0 T c xs" and "t \<le> T"
  shows "retained n t0 T c (nonce_log.prune t xs)"
proof (cases "NONCE_RETENTION \<le> T - t0 \<or> MAX_RETAINED_NONCES \<le> c")
  case False
  then obtain pre post where xs: "xs = pre @ (n, t0) # post" "length post \<le> c"
    using assms(1) unfolding retained_def by blast
  have "\<not> NONCE_RETENTION \<le> t - t0" using False diff_le_mono [OF assms(2), of t0] by linarith
  from prune_keeps_suffix [OF this, of pre n post] show ?thesis using xs by (auto simp: retained_def)
qed (auto simp: retained_def)

lemma retained_accept:
  assumes "retained n t0 T c xs"
  shows "retained n t0 T (Suc c) (newest (MAX_RETAINED_NONCES - 1) xs @ [y])"
proof (cases "NONCE_RETENTION \<le> T - t0 \<or> MAX_RETAINED_NONCES \<le> Suc c")
  case False
  then obtain pre post where xs: "xs = pre @ (n, t0) # post" "length post \<le> c"
    using assms le_SucI [of MAX_RETAINED_NONCES c] unfolding retained_def by blast
  let ?k = "length xs - (MAX_RETAINED_NONCES - 1)"
  have "length post + 1 \<le> MAX_RETAINED_NONCES - 1" using False xs(2) by linarith
  then have "?k \<le> length pre" using xs(1) by simp
  then have "newest (MAX_RETAINED_NONCES - 1) xs @ [y] = drop ?k pre @ (n, t0) # (post @ [y])"
    by (simp add: newest_def xs(1))
  then show ?thesis using xs(2) unfolding retained_def by fastforce
qed (auto simp: retained_def)

lemma retained_step:
  assumes "retained n t0 T c (accepted_nonces rc)" and "t \<le> T" and "authenticate cr pt u t h rc = (r, rc')"
  shows "retained n t0 T (if r = Inr () then Suc c else c) (accepted_nonces rc')"
  using assms(3)
proof (cases rule: authenticate_cases)
  case (accepted ts)
  then show ?thesis using retained_accept [OF retained_prune [OF assms(1,2)]] by simp
qed (use retained_prune [OF assms(1,2)] assms(1) in simp_all)

lemma retained_run:
  assumes "retained n t0 T c (accepted_nonces rc)" and "\<forall>(h, u, t) \<in> set as. t \<le> T"
    and "auth_run cr pt as rc = (k, rc')"
  shows "retained n t0 T (c + k) (accepted_nonces rc')"
  using assms
proof (induction as arbitrary: c rc k)
  case (Cons x as)
  obtain h u t where x: "x = (h, u, t)" by (cases x) auto
  obtain r rc1 where step: "authenticate cr pt u t h rc = (r, rc1)" by fastforce
  have "t \<le> T" and later: "\<forall>(h, u, t) \<in> set as. t \<le> T" using Cons.prems(2) by (simp_all add: x)
  note kept = retained_step [OF Cons.prems(1) \<open>t \<le> T\<close> step]
  show ?case
  proof (cases r)
    case (Inl e)
    then show ?thesis using Cons.IH [OF _ later, of c rc1 k] kept Cons.prems(3) by (simp add: x step)
  next
    case (Inr u')
    obtain k1 where "auth_run cr pt as rc1 = (k1, rc')" "k = Suc k1"
      using Cons.prems(3) Inr by (auto simp: x step split: prod.splits)
    then show ?thesis using Cons.IH [OF _ later, of "Suc c" rc1 k1] kept Inr by simp
  qed
qed simp

section \<open>The requests a connection executes\<close>

fun executed :: "ctl_event list \<Rightarrow> (control_request \<times> u64) list" where
  "executed [] = []"
| "executed (Executed rq v # es) = (rq, v) # executed es"
| "executed (Replied _ # es) = executed es"

lemma executed_append [simp]: "executed (xs @ ys) = executed xs @ executed ys"
  by (induction xs rule: executed.induct) auto

definition well_addressed :: "uuid \<Rightarrow> u64 \<Rightarrow> control_request \<Rightarrow> bool" where
  "well_addressed sid q rq \<longleftrightarrow>
     rq_protocol rq = CONTROL_PROTOCOL_VERSION \<and> rq_session rq = sid \<and> rq_sequence rq = q"

text \<open>The requests of one connection are its \<open>others\<close>-quiet when no other task changes the revision
  between the check and the dispatch.\<close>

definition undisturbed :: "'f ctl_env \<Rightarrow> bool" where
  "undisturbed env \<longleftrightarrow> (\<forall>n a. revision_of (others env (3 * n + 1) a) = revision_of a)"

definition revision_respected :: "control_request \<Rightarrow> u64 \<Rightarrow> bool" where
  "revision_respected rq v \<longleftrightarrow>
     (is_mutating_method (rq_method rq) \<longrightarrow>
        (case rq_expected_revision rq of Some e \<Rightarrow> e = v | None \<Rightarrow> True))"

definition execution_ok :: "'f ctl_env \<Rightarrow> uuid \<Rightarrow> u64 \<Rightarrow> (control_request \<times> u64) list \<Rightarrow> bool" where
  "execution_ok env sid q xs \<longleftrightarrow> length xs \<le> 1
     \<and> (\<forall>(rq, v) \<in> set xs. well_addressed sid q rq \<and> (undisturbed env \<longrightarrow> revision_respected rq v))"

lemma handle_request_executes:
  assumes "handle_request env n sid q rq a = (evs, a', nxt)"
  shows "execution_ok env sid q (executed evs)" and "nxt \<noteq> None \<Longrightarrow> nxt = Some (saturating_inc q)"
proof -
  let ?a1 = "others env (3 * n + 1) a"
  have "revision_respected rq (revision_of ?a1)"
    if "undisturbed env" "\<not> (is_mutating_method (rq_method rq)
        \<and> (case rq_expected_revision rq of Some e \<Rightarrow> e \<noteq> revision_of a | None \<Rightarrow> False))"
    using that by (auto simp: undisturbed_def revision_respected_def split: option.splits)
  then have "execution_ok env sid q (executed evs) \<and> (nxt \<noteq> None \<longrightarrow> nxt = Some (saturating_inc q))"
    using assms unfolding handle_request_def Let_def request_error_def execution_ok_def well_addressed_def
    by (auto simp del: add_Suc_right split: if_splits prod.splits)
  then show "execution_ok env sid q (executed evs)" and "nxt \<noteq> None \<Longrightarrow> nxt = Some (saturating_inc q)" by simp_all
qed

lemma handle_frame_executes:
  assumes "handle_frame env n sid q f a = (evs, a', nxt)"
  shows "execution_ok env sid q (executed evs)" and "nxt \<noteq> None \<Longrightarrow> nxt = Some (saturating_inc q)"
  using assms handle_request_executes
  by (cases f; fastforce simp: Let_def execution_ok_def split: if_splits option.splits)+

lemma unat_saturating_inc: "unat q < 2 ^ 64 - 1 \<Longrightarrow> unat (saturating_inc q) = Suc (unat q)"
proof -
  assume less: "unat q < 2 ^ 64 - 1"
  have "unat (- 1 :: u64) = 2 ^ 64 - 1" by (simp add: unsigned_minus_1_eq_mask mask_eq_exp_minus_1)
  then have "q \<noteq> - 1" using less by auto
  then have "saturating_inc q = q + 1" by (simp add: saturating_inc_def)
  then show ?thesis using less by (simp add: unat_word_ariths)
qed

lemma control_loop_executes:
  assumes "control_loop env n sid q fs a = (evs, a')" and "unat q + length fs < 2 ^ 64"
  shows "sorted_wrt (<) (map (\<lambda>x. unat (rq_sequence (fst x))) (executed evs))
    \<and> (\<forall>(rq, v) \<in> set (executed evs). rq_protocol rq = CONTROL_PROTOCOL_VERSION \<and> rq_session rq = sid
        \<and> unat q \<le> unat (rq_sequence rq) \<and> (undisturbed env \<longrightarrow> revision_respected rq v))"
  using assms
proof (induction fs arbitrary: n q a evs)
  case (Cons f fs)
  obtain es b nxt where step: "handle_frame env n sid q f a = (es, b, nxt)" by (metis prod_cases3)
  note exec = handle_frame_executes [OF step]
  have one: "executed es = [] \<or> (\<exists>x. executed es = [x])"
    using exec(1) by (cases "executed es") (auto simp: execution_ok_def)
  show ?case
  proof (cases nxt)
    case None
    then show ?thesis
      using Cons.prems(1) exec(1) one by (auto simp: step execution_ok_def well_addressed_def)
  next
    case (Some q')
    obtain es' where rest: "control_loop env (Suc n) sid q' fs b = (es', a')" and evs: "evs = es @ es'"
      using Cons.prems(1) by (auto simp: step Some split: prod.splits)
    have q': "unat q' = Suc (unat q)" using exec(2) Some unat_saturating_inc [of q] Cons.prems(2) by simp
    have IH: "sorted_wrt (<) (map (\<lambda>x. unat (rq_sequence (fst x))) (executed es'))"
      "\<forall>(rq, v) \<in> set (executed es'). rq_protocol rq = CONTROL_PROTOCOL_VERSION \<and> rq_session rq = sid
        \<and> unat q' \<le> unat (rq_sequence rq) \<and> (undisturbed env \<longrightarrow> revision_respected rq v)"
      using Cons.IH [OF rest] Cons.prems(2) q' by auto
    have here: "\<forall>(rq, v) \<in> set (executed es). rq_protocol rq = CONTROL_PROTOCOL_VERSION \<and> rq_session rq = sid
        \<and> unat (rq_sequence rq) = unat q \<and> (undisturbed env \<longrightarrow> revision_respected rq v)"
      using exec(1) by (auto simp: execution_ok_def well_addressed_def)
    have later: "\<forall>x \<in> set (executed es'). unat q < unat (rq_sequence (fst x))" using IH(2) q' by fastforce
    from here have "sorted_wrt (<) (map (\<lambda>x. unat (rq_sequence (fst x))) (executed evs))"
      using IH(1) one q' later by (auto simp: evs)
    moreover have "\<forall>(rq, v) \<in> set (executed evs). rq_protocol rq = CONTROL_PROTOCOL_VERSION \<and> rq_session rq = sid
        \<and> unat q \<le> unat (rq_sequence rq) \<and> (undisturbed env \<longrightarrow> revision_respected rq v)"
      using here IH(2) q' by (fastforce simp: evs)
    ultimately show ?thesis by simp
  qed
qed simp

section \<open>Properties\<close>

definition sample_crypto :: crypto where
  "sample_crypto = \<lparr>hmac = \<lambda>k m. replicate 32 7, hex_encode = \<lambda>b. ''07'', hex_decode = \<lambda>s. Some (replicate 32 7)\<rparr>"

definition sample_hello :: auth_hello where
  "sample_hello = \<lparr>hello_protocol = 1, hello_instance = ''vm'', client_nonce = ''ab'',
     hello_timestamp = ''t'', hello_mac = ''07''\<rparr>"

definition sample_rc :: remote_control where
  "sample_rc = \<lparr>rc_instance = ''vm'', rc_secret = replicate 32 1, accepted_nonces = []\<rparr>"

text \<open>C40: both control MACs bind every field of their message and the kind of the message. For fields
  under 4 GiB, the MAC of a hello verifies exactly for the hello with the same four fields, the MAC
  of an authentication answer exactly for the answer with the same five fields (the client's nonce
  included), and neither for a message of the other kind, except where HMAC collides on just those
  two transcripts.\<close>

theorem control_macs_bind:
  assumes "\<And>b. hex_decode cr (hex_encode cr b) = Some b"
    and "list_all short_field (hello_fields v i n t)" and "list_all short_field (hello_fields v' i' n' t')"
    and "list_all short_field (ok_fields a w s r q)" and "list_all short_field (ok_fields a' w' s' r' q')"
  shows "(verify_auth_hello_mac cr k \<lparr>hello_protocol = v', hello_instance = i', client_nonce = n',
        hello_timestamp = t', hello_mac = auth_hello_mac cr k v i n t\<rparr> \<longleftrightarrow>
      (v', i', n', t') = (v, i, n, t) \<or> collide cr k (hello_fields v i n t) (hello_fields v' i' n' t'))
    \<and> (verify_auth_ok_mac cr k a' \<lparr>ok_protocol = w', control_session_id = s', server_nonce = r',
        next_sequence = q', ok_mac = auth_ok_mac cr k a w s r q\<rparr> \<longleftrightarrow>
      (a', w', s', r', q') = (a, w, s, r, q) \<or> collide cr k (ok_fields a w s r q) (ok_fields a' w' s' r' q'))
    \<and> (verify_auth_ok_mac cr k a \<lparr>ok_protocol = w, control_session_id = s, server_nonce = r,
        next_sequence = q, ok_mac = auth_hello_mac cr k v i n t\<rparr> \<longleftrightarrow>
      collide cr k (hello_fields v i n t) (ok_fields a w s r q))
    \<and> (verify_auth_hello_mac cr k \<lparr>hello_protocol = v, hello_instance = i, client_nonce = n,
        hello_timestamp = t, hello_mac = auth_ok_mac cr k a w s r q\<rparr> \<longleftrightarrow>
      collide cr k (ok_fields a w s r q) (hello_fields v i n t))"
  unfolding verify_auth_hello_mac_def verify_auth_ok_mac_def auth_hello_mac_def auth_ok_mac_def
    auth_hello.simps auth_ok.simps mac_verifies_iff [OF assms(1,2,3)] mac_verifies_iff [OF assms(1,4,5)]
    mac_verifies_iff [OF assms(1,2,4)] mac_verifies_iff [OF assms(1,4,2)] hello_fields_inject ok_fields_inject
  by (auto simp: hello_not_ok hello_not_ok [symmetric])

text \<open>A codec and a MAC with the assumed law: hexadecimal digits as characters.\<close>

definition char_codec :: crypto where
  "char_codec = \<lparr>hmac = \<lambda>k m. m, hex_encode = \<lambda>b. map (\<lambda>w. char_of (unat w)) b,
     hex_decode = \<lambda>s. Some (map of_char s)\<rparr>"

lemma char_codec_law: "hex_decode char_codec (hex_encode char_codec b) = Some b"
proof -
  have "(of_char (char_of (unat w) :: char) :: byte) = w" for w :: byte
  proof -
    have "unat w < 256" using unsigned_less [of w, where ?'a = nat] by simp
    then have "of_char (char_of (unat w)) = unat w" by simp
    then show ?thesis using of_nat_of_char [of "char_of (unat w)", where ?'a = byte] by simp
  qed
  then show ?thesis by (simp add: char_codec_def comp_def)
qed

theorem control_macs_bind_witness:
  "\<not> verify_auth_hello_mac char_codec [3] \<lparr>hello_protocol = 1, hello_instance = ''vma'', client_nonce = ''b'',
     hello_timestamp = ''t'', hello_mac = auth_hello_mac char_codec [3] 1 ''vm'' ''ab'' ''t''\<rparr>
   \<and> verify_auth_ok_mac char_codec [3] ''ab'' \<lparr>ok_protocol = 1, control_session_id = 5, server_nonce = ''s'',
     next_sequence = 1, ok_mac = auth_ok_mac char_codec [3] ''ab'' 1 5 ''s'' 1\<rparr>"
proof -
  have short: "list_all short_field (hello_fields 1 ''vm'' ''ab'' ''t'')" "list_all short_field (hello_fields 1 ''vma'' ''b'' ''t'')"
      "list_all short_field (ok_fields ''ab'' 1 5 ''s'' 1)"
    by (simp_all add: short_field_def hello_fields_def ok_fields_def as_bytes_def)
  show ?thesis
    using control_macs_bind [OF char_codec_law short short(3), of "[3]"]
    by (auto simp: char_codec_def collide_def)
qed

text \<open>C38: the same authentication message is accepted a second time only after 1,024 other
  acceptances, or in a window around the end of the 120 seconds of nonce retention: no earlier than
  eps before it, where eps is how far an attempt in between was ahead of the second one in reading
  its instant (before the lock is taken), and no later than del after it, where del is how far the
  wall clock and the monotonic clock disagree on the time between the two acceptances (they are
  read at different points, and the wall clock may be stepped); and only for a message whose
  timestamp was 60 seconds ahead, less these two amounts, when it was first accepted.\<close>

theorem hello_replay_bounded:
  assumes "authenticate cr pt u1 t1 h rc = (Inr (), rc1)" and "auth_run cr pt as rc1 = (k, rc2)"
    and "authenticate cr pt u2 t2 h rc2 = (Inr (), rc3)"
    and "\<forall>(g, u, t) \<in> set as. t \<le> t2 + eps" and "\<bar>(u2 - u1) - (int t2 - int t1)\<bar> \<le> del"
  shows "1024 \<le> k
    \<or> (t1 + secs 120 \<le> t2 + eps \<and> int t2 - int t1 \<le> int (secs 120) + del
       \<and> (\<exists>ts. pt (hello_timestamp h) = Some ts \<and> u1 + int (secs 60) - int eps - del \<le> ts))"
proof -
  obtain ts where first: "pt (hello_timestamp h) = Some ts" "\<bar>ts - u1\<bar> \<le> AUTH_CLOCK_SKEW"
      "\<exists>pre. accepted_nonces rc1 = pre @ [(client_nonce h, t1)]"
    using assms(1) by (cases rule: authenticate_cases) auto
  then have "retained (client_nonce h) t1 (t2 + eps) 0 (accepted_nonces rc1)" by (fastforce simp: retained_def)
  from retained_run [OF this assms(4,2)]
  have kept: "retained (client_nonce h) t1 (t2 + eps) k (nonce_log.prune t2 (accepted_nonces rc2))"
    using retained_prune by simp
  have second: "\<bar>ts - u2\<bar> \<le> AUTH_CLOCK_SKEW"
      "client_nonce h \<notin> fst ` set (nonce_log.prune t2 (accepted_nonces rc2))"
    using assms(3) first(1) by (cases rule: authenticate_cases; simp)+
  have "NONCE_RETENTION \<le> t2 + eps - t1 \<or> MAX_RETAINED_NONCES \<le> k"
    using kept second(2) by (fastforce simp: retained_def)
  then show ?thesis
    using first(1,2) second(1) assms(5)
    by (auto simp: NONCE_RETENTION_def MAX_RETAINED_NONCES_def AUTH_CLOCK_SKEW_def secs_def)
qed

lemma sample_auth:
  "fst (authenticate sample_crypto (\<lambda>_. Some (int (secs 60))) 0 0 sample_hello sample_rc) = Inr ()"
  "fst (authenticate sample_crypto (\<lambda>_. Some (int (secs 60))) (int (secs 120)) (secs 120) sample_hello
     (snd (authenticate sample_crypto (\<lambda>_. Some (int (secs 60))) 0 0 sample_hello sample_rc))) = Inr ()"
  by (simp_all add: authenticate_def protocol_is_supported_def sample_hello_def sample_rc_def sample_crypto_def
      CONTROL_PROTOCOL_VERSION_def AUTH_CLOCK_SKEW_def secs_def verify_auth_hello_mac_def verify_control_mac_def
      remember_nonce_def NONCE_RETENTION_def newest_def)

theorem hello_replay_bounded_witness:
  "\<exists>rc1 rc2. authenticate sample_crypto (\<lambda>_. Some (int (secs 60))) 0 0 sample_hello sample_rc = (Inr (), rc1)
    \<and> authenticate sample_crypto (\<lambda>_. Some (int (secs 60))) (int (secs 120)) (secs 120) sample_hello rc1 = (Inr (), rc2)
    \<and> (\<exists>ts. Some (int (secs 60)) = Some ts \<and> 0 + int (secs 60) \<le> ts)"
proof -
  obtain rc1 where one: "authenticate sample_crypto (\<lambda>_. Some (int (secs 60))) 0 0 sample_hello sample_rc = (Inr (), rc1)"
    using sample_auth(1) by (metis prod.collapse)
  obtain rc2 where two: "authenticate sample_crypto (\<lambda>_. Some (int (secs 60))) (int (secs 120)) (secs 120) sample_hello rc1
      = (Inr (), rc2)"
    using sample_auth(2) one by (metis prod.collapse snd_conv)
  have "0 + secs 120 \<le> secs 120 + 0 \<and> (\<exists>ts. Some (int (secs 60)) = Some ts \<and> 0 + int (secs 60) - int 0 - 0 \<le> ts)"
    using hello_replay_bounded [OF one _ two, of "[]" 0 0 0] by simp
  with one two show ?thesis by auto
qed

text \<open>C39: a control connection hands requests to the manager only in the current protocol version, for
  its own session, in strictly increasing sequence (so none twice); and while no other task
  changes the host revision between the check and the dispatch, a state-changing request that names
  a revision is executed only at that revision.\<close>

theorem control_requests_ordered:
  assumes "handle_connection env u t sid srv h frames rc a = (Inr ok, evs, rc', a')"
    and "length frames < 2 ^ 64 - 1"
  shows "sorted_wrt (<) (map (\<lambda>x. unat (rq_sequence (fst x))) (executed evs))
    \<and> (\<forall>(rq, v) \<in> set (executed evs). rq_protocol rq = 1 \<and> rq_session rq = control_session_id ok
        \<and> (undisturbed env \<longrightarrow> is_mutating_method (rq_method rq) \<longrightarrow> rq_expected_revision rq \<in> {None, Some v}))"
proof -
  have loop: "control_loop env 0 sid 1 frames a = (evs, a')" and ok: "control_session_id ok = sid"
    using assms(1) by (auto simp: handle_connection_def Let_def split: prod.splits sum.splits)
  have "unat (1 :: u64) + length frames < 2 ^ 64" using assms(2) by simp
  note run = control_loop_executes [OF loop this]
  have "\<forall>(rq, v) \<in> set (executed evs). rq_protocol rq = 1 \<and> rq_session rq = sid
        \<and> (undisturbed env \<longrightarrow> is_mutating_method (rq_method rq) \<longrightarrow> rq_expected_revision rq \<in> {None, Some v})"
    using run by (fastforce simp: CONTROL_PROTOCOL_VERSION_def revision_respected_def split: option.splits)
  then show ?thesis using run ok by simp
qed

definition sample_codec :: ctl_codec where
  "sample_codec = \<lparr>decode_prepare = \<lambda>_. None, decode_commit = \<lambda>_. None, decode_abort = \<lambda>_. None,
     decode_turn = \<lambda>_. None, decode_install = \<lambda>_. None, encode_prepared = \<lambda>_. JNull, encode_link = \<lambda>_. JNull,
     encode_turn = \<lambda>_. JNull, encode_state = \<lambda>_. JNull, encode_stats = \<lambda>_. JNull\<rparr>"

definition sample_ctl :: "(nat \<Rightarrow> unit agent \<Rightarrow> unit agent) \<Rightarrow> unit ctl_env" where
  "sample_ctl oth = \<lparr>net = calm\<lparr>parse_rfc3339 := \<lambda>_. Some 0\<rparr>, iface = ''wg0'', crypto_of = sample_crypto,
     codec = sample_codec, iteration = \<lambda>xs. xs, monotonic = \<lambda>n. n, others = oth, send_ok = \<lambda>_. True\<rparr>"

definition sample_agent :: "unit agent" where
  "sample_agent = \<lparr>mgr = booted calm, registry = registry_new 4 20\<rparr>"

definition sample_request :: "u64 \<Rightarrow> control_request" where
  "sample_request e = \<lparr>rq_protocol = 1, rq_session = 5, rq_id = 6, rq_sequence = 1, rq_method = ''stop_turn'',
     rq_expected_revision = Some e, rq_params = JNull\<rparr>"

lemma sample_revision: "revision_of sample_agent = 0"
  unfolding revision_of_def sample_agent_def by code_simp

lemma sample_connection:
  "\<exists>ok evs rc' a'. handle_connection (sample_ctl oth) 0 0 5 ''cd'' sample_hello [TextFrame 10 (Some (sample_request 0))]
     sample_rc sample_agent = (Inr ok, evs, rc', a')
     \<and> executed evs = (if revision_of (oth 0 sample_agent) = 0
         then [(sample_request 0, revision_of (oth 1 (oth 0 sample_agent)))] else [])"
proof -
  let ?env = "sample_ctl oth"
  obtain rc1 where auth: "authenticate sample_crypto (\<lambda>_. Some 0) 0 0 sample_hello sample_rc = (Inr (), rc1)"
    by (simp add: authenticate_def protocol_is_supported_def sample_hello_def sample_rc_def sample_crypto_def
      CONTROL_PROTOCOL_VERSION_def AUTH_CLOCK_SKEW_def secs_def verify_auth_hello_mac_def verify_control_mac_def
      remember_nonce_def NONCE_RETENTION_def newest_def)
  have env: "crypto_of ?env = sample_crypto" "parse_rfc3339 (net ?env) = (\<lambda>_. Some 0)" "others ?env = oth"
    by (simp_all add: sample_ctl_def)
  obtain r b where d: "dispatch_method ?env ''stop_turn'' JNull (oth 1 (oth 0 sample_agent)) = (r, b)" by fastforce
  obtain evs a' where loop: "control_loop ?env 0 5 1 [TextFrame 10 (Some (sample_request 0))] sample_agent = (evs, a')"
    by fastforce
  have "executed evs = (if revision_of (oth 0 sample_agent) = 0
      then [(sample_request 0, revision_of (oth 1 (oth 0 sample_agent)))] else [])"
    using loop d
    by (auto simp: MAX_RPC_BYTES_def handle_request_def sample_request_def CONTROL_PROTOCOL_VERSION_def
        is_mutating_method_def request_error_def env Let_def split: if_splits option.splits prod.splits)
  then show ?thesis
    unfolding handle_connection_def env auth loop Let_def by simp
qed

theorem control_requests_ordered_witness:
  "\<exists>ok evs rc' a'. handle_connection (sample_ctl (\<lambda>_ a. a)) 0 0 5 ''cd'' sample_hello
     [TextFrame 10 (Some (sample_request 0))] sample_rc sample_agent = (Inr ok, evs, rc', a')
     \<and> executed evs = [(sample_request 0, 0)] \<and> control_session_id ok = 5"
proof -
  let ?conn = "handle_connection (sample_ctl (\<lambda>_ a. a)) 0 0 5 ''cd'' sample_hello
     [TextFrame 10 (Some (sample_request 0))] sample_rc sample_agent"
  obtain ok evs rc' a' where run: "?conn = (Inr ok, evs, rc', a')" and ex: "executed evs = [(sample_request 0, 0)]"
    using sample_connection [of "\<lambda>_ a. a"] by (auto simp: sample_revision)
  have "rq_session (sample_request 0) = control_session_id ok"
    using control_requests_ordered [OF run] ex by auto
  then have "control_session_id ok = 5" by (simp add: sample_request_def)
  with run ex show ?thesis by blast
qed

text \<open>
  The check and the dispatch take the manager's lock one after the other, so a request can be
  executed at a revision other than the one it names.
\<close>

lemma stale_request_executed:
  "\<exists>env a ok evs rc' a' rq v. handle_connection (env :: unit ctl_env) 0 0 5 ''cd'' sample_hello
      [TextFrame 10 (Some rq)] sample_rc a = (Inr ok, evs, rc', a')
    \<and> executed evs = [(rq, v)] \<and> is_mutating_method (rq_method rq) \<and> rq_expected_revision rq \<notin> {None, Some v}"
proof -
  define oth where "oth = (\<lambda>n a. if n = (1 :: nat)
    then (a :: unit agent)\<lparr>mgr := (mgr a)\<lparr>hs := (hs (mgr a))\<lparr>host_revision := 9\<rparr>\<rparr>\<rparr> else a)"
  have "revision_of (oth 1 (oth 0 sample_agent)) = 9" "oth 0 sample_agent = sample_agent"
    by (simp_all add: oth_def revision_of_def)
  then show ?thesis
    using sample_connection [of oth] sample_revision
    by (fastforce simp: sample_request_def is_mutating_method_def)
qed

end
