(* ===== verification/Audio_Ring.thy ===== *)
theory Audio_Ring
  imports Prelude
begin

text \<open>
  The lock-free single-producer, single-consumer audio ring of
  \<^verbatim>\<open>mic-sidecar/src/ring.rs\<close>. It is modelled twice: as sequential operations, which are
  shown to implement a queue that keeps the newest samples, and as a step relation whose
  steps are the single atomic loads, stores and compare-exchanges of a producer and a
  consumer thread in any interleaving. Atomic operations are sequentially consistent in the
  model; reordering by a weaker memory model is not part of it.
\<close>

section \<open>Data\<close>

type_synonym i16 = "16 word"

record push_report =
  written :: nat
  dropped_stale :: nat
  overrun :: bool

definition default_report :: push_report where
  "default_report = \<lparr>written = 0, dropped_stale = 0, overrun = False\<rparr>"

record ring_slot =
  slot_value :: i16
  slot_sequence :: nat

text \<open>Positions are \<^verbatim>\<open>u64\<close> values: additions wrap, \<^verbatim>\<open>saturating_add\<close> stops at the maximum.\<close>

record audio_ring =
  slots :: "ring_slot list"
  capacity :: nat
  write_pos :: nat
  read_pos :: nat

definition wrap64 :: "nat \<Rightarrow> nat" where
  "wrap64 n = n mod 2 ^ 64"

definition saturating_add64 :: "nat \<Rightarrow> nat \<Rightarrow> nat" where
  "saturating_add64 a b = min (a + b) (2 ^ 64 - 1)"

definition ring_new :: "nat \<Rightarrow> audio_ring option" where
  "ring_new capacity_samples =
     (if capacity_samples = 0 then None
      else Some \<lparr>slots = replicate capacity_samples \<lparr>slot_value = 0, slot_sequence = 0\<rparr>,
                 capacity = capacity_samples, write_pos = 0, read_pos = 0\<rparr>)"

definition available :: "audio_ring \<Rightarrow> nat \<Rightarrow> nat \<Rightarrow> nat" where
  "available r w rd = min (w - rd) (capacity r)"

definition ring_len :: "audio_ring \<Rightarrow> nat" where
  "ring_len r = available r (write_pos r) (read_pos r)"

definition ring_clear :: "audio_ring \<Rightarrow> audio_ring" where
  "ring_clear r = r\<lparr>read_pos := write_pos r\<rparr>"

section \<open>Sequential operations\<close>

definition slot_index :: "audio_ring \<Rightarrow> nat \<Rightarrow> nat" where
  "slot_index r position = position mod capacity r"

definition update_slot :: "(ring_slot \<Rightarrow> ring_slot) \<Rightarrow> nat \<Rightarrow> audio_ring \<Rightarrow> audio_ring" where
  "update_slot f position r =
     r\<lparr>slots := (slots r)[slot_index r position := f (slots r ! slot_index r position)]\<rparr>"

definition store_sample :: "nat \<Rightarrow> i16 \<Rightarrow> audio_ring \<Rightarrow> audio_ring" where
  "store_sample position sample r =
     update_slot (slot_sequence_update (\<lambda>_. wrap64 (position + 1))) position
       (update_slot (slot_value_update (\<lambda>_. sample)) position
         (update_slot (slot_sequence_update (\<lambda>_. 0)) position r))"

fun store_samples :: "nat \<Rightarrow> nat \<Rightarrow> i16 list \<Rightarrow> audio_ring \<Rightarrow> audio_ring" where
  "store_samples w offset [] r = r"
| "store_samples w offset (x # xs) r =
     store_samples w (Suc offset) xs (store_sample (wrap64 (w + offset)) x r)"

definition minimum_read :: "audio_ring \<Rightarrow> nat \<Rightarrow> nat \<Rightarrow> nat" where
  "minimum_read r w n = saturating_add64 w n - capacity r"

definition report_of :: "audio_ring \<Rightarrow> nat \<Rightarrow> nat \<Rightarrow> push_report" where
  "report_of r sample_count dropped =
     \<lparr>written = sample_count - (sample_count - capacity r), dropped_stale = dropped,
      overrun = (dropped > 0)\<rparr>"

definition push_from_iter ::
  "nat \<Rightarrow> i16 list \<Rightarrow> audio_ring \<Rightarrow> audio_ring \<times> push_report" where
  "push_from_iter sample_count samples r =
     (if sample_count = 0 then (r, default_report)
      else
        let w = write_pos r;
            m = minimum_read r w sample_count;
            dropped = (if read_pos r \<ge> m then 0 else m - read_pos r);
            r1 = (if read_pos r \<ge> m then r else r\<lparr>read_pos := m\<rparr>);
            skip = sample_count - capacity r;
            r2 = store_samples w skip (drop skip samples) r1
        in (r2\<lparr>write_pos := saturating_add64 w sample_count\<rparr>, report_of r sample_count dropped))"

definition push_slice :: "i16 list \<Rightarrow> audio_ring \<Rightarrow> audio_ring \<times> push_report" where
  "push_slice samples = push_from_iter (length samples) samples"

definition validated :: "nat \<Rightarrow> nat \<Rightarrow> nat \<Rightarrow> i16 \<Rightarrow> i16" where
  "validated position bef aft v =
     (if bef = wrap64 (position + 1) \<and> aft = wrap64 (position + 1) then v else 0)"

definition read_sample :: "audio_ring \<Rightarrow> nat \<Rightarrow> i16" where
  "read_sample r position =
     (let sl = slots r ! slot_index r position in
      validated position (slot_sequence sl) (slot_sequence sl) (slot_value sl))"

definition pop_slice :: "i16 list \<Rightarrow> audio_ring \<Rightarrow> audio_ring \<times> nat \<times> i16 list" where
  "pop_slice output r =
     (if output = [] then (r, 0, output)
      else
        let rd = read_pos r;
            count = min (length output) (available r (write_pos r) rd)
        in if count = 0 then (r, 0, output)
           else (r\<lparr>read_pos := wrap64 (rd + count)\<rparr>, count,
                 map (\<lambda>offset. read_sample r (wrap64 (rd + offset))) [0..<count]
                   @ drop count output))"

section \<open>The queue contract\<close>

text \<open>
  What the sidecar relies on: a bounded queue of samples that never refuses a push but drops
  the oldest samples. \<open>room q n\<close> says that \<open>q\<close> is well formed and can still count \<open>n\<close> more
  samples.
\<close>

locale lossy_queue =
  fixes items :: "'q \<Rightarrow> 'a list" and push :: "'a list \<Rightarrow> 'q \<Rightarrow> 'q"
    and take_out :: "nat \<Rightarrow> 'q \<Rightarrow> 'q \<times> 'a list" and bound :: "'q \<Rightarrow> nat"
    and room :: "'q \<Rightarrow> nat \<Rightarrow> bool"
  assumes items_push: "room q (length xs) \<Longrightarrow> items (push xs q) = newest (bound q) (items q @ xs)"
    and room_push: "room q (length xs + n) \<Longrightarrow> room (push xs q) n"
    and bound_push: "bound (push xs q) = bound q"
    and items_bounded: "room q n \<Longrightarrow> length (items q) \<le> bound q"
    and take_out_items: "room q m \<Longrightarrow> snd (take_out n q) = take n (items q)
      \<and> items (fst (take_out n q)) = drop n (items q)"
    and room_take_out: "room q m \<Longrightarrow> room (fst (take_out n q)) m"
    and room_less: "room q (n + m) \<Longrightarrow> room q n"
begin

lemma items_pushes:
  "room q (length (concat xss)) \<Longrightarrow>
   items (fold push xss q) = newest (bound q) (items q @ concat xss)"
proof (induction xss arbitrary: q)
  case Nil
  then show ?case using items_bounded [of q 0] by (simp add: newest_def)
next
  case (Cons xs xss)
  then have "room (push xs q) (length (concat xss))"
    and here: "items (push xs q) = newest (bound q) (items q @ xs)"
    using room_push [of q xs "length (concat xss)"] items_push [of q xs]
      room_less [of q "length xs" "length (concat xss)"] by simp_all
  then show ?case
    using Cons.IH [of "push xs q"] by (simp add: bound_push newest_newest_append)
qed

lemma drain_pushes:
  assumes "room q (length (concat xss))" and "bound q \<le> n"
  shows "snd (take_out n (fold push xss q)) = newest (bound q) (items q @ concat xss)"
proof -
  have room: "room (fold push xss q) 0"
    using assms(1)
  proof (induction xss arbitrary: q)
    case (Cons xs xss)
    then show ?case using room_push [of q xs "length (concat xss)"] by simp
  qed simp
  show ?thesis
    using take_out_items [OF room, of n] items_pushes [OF assms(1)] assms(2) by simp
qed

end

section \<open>The ring implements the contract\<close>

definition ring_ok :: "audio_ring \<Rightarrow> bool" where
  "ring_ok r \<longleftrightarrow> capacity r > 0 \<and> length (slots r) = capacity r \<and> read_pos r \<le> write_pos r
     \<and> write_pos r - read_pos r \<le> capacity r \<and> write_pos r < 2 ^ 64
     \<and> (\<forall>p. read_pos r \<le> p \<and> p < write_pos r
           \<longrightarrow> slot_sequence (slots r ! slot_index r p) = p + 1)"

definition contents :: "audio_ring \<Rightarrow> i16 list" where
  "contents r = map (\<lambda>p. slot_value (slots r ! slot_index r p)) [read_pos r..<write_pos r]"

lemma length_contents [simp]: "length (contents r) = write_pos r - read_pos r"
  by (simp add: contents_def)

lemma wrap64_id [simp]: "n < 2 ^ 64 \<Longrightarrow> wrap64 n = n"
  by (simp add: wrap64_def)

lemma update_slot_simps [simp]:
  "capacity (update_slot f p r) = capacity r" "length (slots (update_slot f p r)) = length (slots r)"
  "write_pos (update_slot f p r) = write_pos r" "read_pos (update_slot f p r) = read_pos r"
  "slot_index (update_slot f p r) q = slot_index r q"
  by (simp_all add: update_slot_def slot_index_def)

lemma slot_index_less: "capacity r > 0 \<Longrightarrow> slot_index r p < capacity r"
  by (simp add: slot_index_def)

lemma nth_update_slot:
  "i < length (slots r) \<Longrightarrow>
   slots (update_slot f p r) ! i = (if i = slot_index r p then f (slots r ! i) else slots r ! i)"
  by (simp add: update_slot_def)

lemma store_sample_simps [simp]:
  "capacity (store_sample p x r) = capacity r" "length (slots (store_sample p x r)) = length (slots r)"
  "write_pos (store_sample p x r) = write_pos r" "read_pos (store_sample p x r) = read_pos r"
  "slot_index (store_sample p x r) q = slot_index r q"
  by (simp_all add: store_sample_def)

lemma store_samples_simps [simp]:
  "capacity (store_samples w k xs r) = capacity r"
  "length (slots (store_samples w k xs r)) = length (slots r)"
  "write_pos (store_samples w k xs r) = write_pos r" "read_pos (store_samples w k xs r) = read_pos r"
  "slot_index (store_samples w k xs r) q = slot_index r q"
  by (induction xs arbitrary: k r) simp_all

lemma nth_store_sample:
  "i < length (slots r) \<Longrightarrow>
   slots (store_sample p x r) ! i
     = (if i = slot_index r p then \<lparr>slot_value = x, slot_sequence = wrap64 (p + 1)\<rparr>
        else slots r ! i)"
  by (simp add: store_sample_def nth_update_slot)

lemma slot_index_window:
  assumes "q < p" and "p < q + capacity r"
  shows "slot_index r q \<noteq> slot_index r p"
proof
  assume "slot_index r q = slot_index r p"
  then have "slot_index r p = slot_index r q" by simp
  then have "capacity r dvd p - q"
    using assms(1) by (simp add: slot_index_def mod_eq_dvd_iff_nat)
  with assms show False
    by (auto dest: dvd_imp_le)
qed

lemma store_samples_other:
  "i < length (slots r) \<Longrightarrow> w + k + length xs < 2 ^ 64 \<Longrightarrow>
   \<forall>j < length xs. i \<noteq> slot_index r (w + k + j) \<Longrightarrow>
   slots (store_samples w k xs r) ! i = slots r ! i"
proof (induction xs arbitrary: k r)
  case (Cons x xs)
  have "i \<noteq> slot_index r (w + k)" and rest: "\<forall>j < length xs. i \<noteq> slot_index r (w + Suc k + j)"
    using Cons.prems(3) by (auto dest: spec [of _ 0] spec [of _ "Suc j" for j])
  with Cons show ?case by (simp add: nth_store_sample)
qed simp

lemma store_samples_nth:
  "capacity r > 0 \<Longrightarrow> length (slots r) = capacity r \<Longrightarrow> w + k + length xs < 2 ^ 64 \<Longrightarrow>
   length xs \<le> capacity r \<Longrightarrow> j < length xs \<Longrightarrow>
   slots (store_samples w k xs r) ! slot_index r (w + k + j)
     = \<lparr>slot_value = xs ! j, slot_sequence = w + k + j + 1\<rparr>"
proof (induction xs arbitrary: k r j)
  case (Cons x xs)
  show ?case
  proof (cases j)
    case 0
    have "slot_index r (w + k) \<noteq> slot_index r (w + Suc k + i)" if "i < length xs" for i
      using Cons.prems(4) that slot_index_window [of "w + k" "w + Suc k + i" r] by simp
    then show ?thesis
      using 0 Cons.prems
      by (simp add: store_samples_other nth_store_sample slot_index_less)
  next
    case (Suc i)
    then show ?thesis
      using Cons.prems Cons.IH [of "store_sample (wrap64 (w + k)) x r" "Suc k" i] by simp
  qed
qed simp

definition room :: "audio_ring \<Rightarrow> nat \<Rightarrow> bool" where
  "room r n \<longleftrightarrow> ring_ok r \<and> write_pos r + n < 2 ^ 64"

lemma push_slice_nonempty:
  assumes "room r (length xs)" and "xs \<noteq> []"
  shows "push_slice xs r =
    (let m = write_pos r + length xs - capacity r; skip = length xs - capacity r in
     ((store_samples (write_pos r) skip (drop skip xs) r)
        \<lparr>read_pos := max (read_pos r) m, write_pos := write_pos r + length xs\<rparr>,
      report_of r (length xs) (m - read_pos r)))"
proof -
  have "saturating_add64 (write_pos r) (length xs) = write_pos r + length xs"
    using assms(1) by (simp add: saturating_add64_def room_def)
  moreover have "store_sample p x (r\<lparr>read_pos := m\<rparr>) = (store_sample p x r)\<lparr>read_pos := m\<rparr>" for p x r m
    by (cases r) (simp add: store_sample_def update_slot_def slot_index_def)
  then have "store_samples w k ys (r\<lparr>read_pos := m\<rparr>) = (store_samples w k ys r)\<lparr>read_pos := m\<rparr>"
    for w k ys m
    by (induction ys arbitrary: k r) simp_all
  moreover have "(store_samples w k ys r)\<lparr>read_pos := read_pos r\<rparr> = store_samples w k ys r" for w k ys
    by (metis audio_ring.surjective audio_ring.update_convs(4) store_samples_simps(4))
  ultimately show ?thesis
    using assms(2)
    by (simp add: push_slice_def push_from_iter_def minimum_read_def Let_def max_def)
qed

lemma pushed_slot:
  assumes "room r (length xs)" and "skip = length xs - capacity r"
    and "read_pos r \<le> p" and "write_pos r + length xs - capacity r \<le> p"
    and "p < write_pos r + length xs"
  shows "slots (store_samples (write_pos r) skip (drop skip xs) r) ! slot_index r p
    = (if p < write_pos r then slots r ! slot_index r p
       else \<lparr>slot_value = xs ! (p - write_pos r), slot_sequence = p + 1\<rparr>)"
proof (cases "p < write_pos r")
  case True
  with assms have "skip = 0" by simp
  moreover have "slot_index r p \<noteq> slot_index r (write_pos r + j)" if "j < length xs" for j
    using True assms(4) that slot_index_window [of p "write_pos r + j" r] by linarith
  ultimately show ?thesis
    using True assms(1) store_samples_other [of "slot_index r p" r "write_pos r" 0 xs]
    by (simp add: room_def ring_ok_def slot_index_less)
next
  case False
  with assms show ?thesis
    using store_samples_nth [of r "write_pos r" skip "drop skip xs" "p - write_pos r - skip"]
    by (auto simp: room_def ring_ok_def)
qed

lemma ring_ok_push:
  assumes "room r (length xs)"
  shows "ring_ok (fst (push_slice xs r))"
proof (cases "xs = []")
  case True
  then show ?thesis using assms by (simp add: push_slice_def push_from_iter_def room_def)
next
  case False
  then show ?thesis
    using assms pushed_slot [OF assms refl]
    by (auto simp: push_slice_nonempty Let_def ring_ok_def room_def slot_index_def)
qed

lemma contents_push:
  assumes "room r (length xs)"
  shows "contents (fst (push_slice xs r)) = newest (capacity r) (contents r @ xs)"
proof (cases "xs = []")
  case True
  then show ?thesis
    using assms by (simp add: push_slice_def push_from_iter_def newest_id room_def ring_ok_def)
next
  case False
  have le: "read_pos r \<le> write_pos r" using assms by (simp add: room_def ring_ok_def)
  show ?thesis
  proof (rule nth_equalityI)
    show "length (contents (fst (push_slice xs r)))
        = length (newest (capacity r) (contents r @ xs))"
      using assms False le by (simp add: push_slice_nonempty Let_def)
  next
    fix i
    assume i: "i < length (contents (fst (push_slice xs r)))"
    let ?p = "max (read_pos r) (write_pos r + length xs - capacity r) + i"
    define k where "k = length (contents r @ xs) - capacity r + i"
    have p: "?p = read_pos r + k" and less: "?p < write_pos r + length xs"
      using i assms False le by (auto simp: push_slice_nonempty Let_def k_def)
    define skip where "skip = length xs - capacity r"
    have "contents (fst (push_slice xs r)) ! i
        = slot_value (slots (store_samples (write_pos r) skip (drop skip xs) r) ! slot_index r ?p)"
      using assms False nth_upt [OF less] less_diff_conv [THEN iffD2, OF less [unfolded add.commute [of _ i]]]
      by (simp add: push_slice_nonempty Let_def contents_def slot_index_def skip_def)
    also have "\<dots> = (if ?p < write_pos r then slot_value (slots r ! slot_index r ?p)
        else xs ! (?p - write_pos r))"
      using less by (subst pushed_slot [OF assms skip_def]) auto
    also have "\<dots> = newest (capacity r) (contents r @ xs) ! i"
    proof -
      have "newest (capacity r) (contents r @ xs) ! i = (contents r @ xs) ! k"
        using less le p by (subst newest_def, subst nth_drop) (auto simp: k_def)
      then show ?thesis
        using less le unfolding p by (auto simp: nth_append contents_def add.commute)
    qed
    finally show "contents (fst (push_slice xs r)) ! i = newest (capacity r) (contents r @ xs) ! i" .
  qed
qed

lemma read_sample_ok:
  "ring_ok r \<Longrightarrow> read_pos r \<le> p \<Longrightarrow> p < write_pos r \<Longrightarrow>
   read_sample r p = slot_value (slots r ! slot_index r p)"
  by (simp add: read_sample_def Let_def validated_def ring_ok_def)

lemma pop_slice_contents:
  assumes "ring_ok r"
  shows "pop_slice output r =
    (let n = min (length output) (length (contents r)) in
     (r\<lparr>read_pos := read_pos r + n\<rparr>, n, take n (contents r) @ drop n output))"
proof -
  define n where "n = min (length output) (length (contents r))"
  have avail: "available r (write_pos r) (read_pos r) = length (contents r)"
    using assms by (simp add: available_def ring_ok_def)
  have bound: "read_pos r + n \<le> write_pos r" "write_pos r < 2 ^ 64"
    using assms by (auto simp: n_def ring_ok_def)
  have "map (\<lambda>k. read_sample r (wrap64 (read_pos r + k))) [0..<n] = take n (contents r)"
    using bound read_sample_ok [OF assms]
    by (intro nth_equalityI) (auto simp: contents_def n_def)
  moreover have "wrap64 (read_pos r + n) = read_pos r + n"
    using bound by (intro wrap64_id) linarith
  ultimately show ?thesis
    using avail by (cases "n = 0") (auto simp: pop_slice_def Let_def n_def)
qed

lemma contents_advance: "contents (r\<lparr>read_pos := read_pos r + n\<rparr>) = drop n (contents r)"
  by (simp add: contents_def slot_index_def drop_map)

lemma ring_ok_advance:
  "ring_ok r \<Longrightarrow> n \<le> length (contents r) \<Longrightarrow> ring_ok (r\<lparr>read_pos := read_pos r + n\<rparr>)"
  by (auto simp: ring_ok_def slot_index_def)

text \<open>The consumer's view: a zero-filled frame of \<open>n\<close> samples, and the samples it was given.\<close>

definition pop_frame :: "nat \<Rightarrow> audio_ring \<Rightarrow> audio_ring \<times> i16 list" where
  "pop_frame n r = (case pop_slice (replicate n 0) r of (r', k, out) \<Rightarrow> (r', take k out))"

lemma pop_frame_eq:
  "ring_ok r \<Longrightarrow> pop_frame n r =
     (r\<lparr>read_pos := read_pos r + min n (length (contents r))\<rparr>, take n (contents r))"
  by (simp add: pop_frame_def pop_slice_contents Let_def min_def)

interpretation ring_queue:
  lossy_queue contents "\<lambda>xs r. fst (push_slice xs r)" pop_frame capacity room
proof unfold_locales
  show "contents (fst (push_slice xs r)) = newest (capacity r) (contents r @ xs)"
    if "room r (length xs)" for r xs
    using that by (rule contents_push)
  show "room (fst (push_slice xs r)) n" if "room r (length xs + n)" for r xs n
  proof -
    have "room r (length xs)" using that by (simp add: room_def)
    with ring_ok_push [OF this] show ?thesis
      using that by (cases "xs = []")
        (auto simp: room_def push_slice_def push_from_iter_def Let_def saturating_add64_def)
  qed
  show "capacity (fst (push_slice xs r)) = capacity r" for xs r
    by (simp add: push_slice_def push_from_iter_def Let_def)
  show "length (contents r) \<le> capacity r" if "room r n" for r n
    using that by (simp add: room_def ring_ok_def)
  show "snd (pop_frame n r) = take n (contents r)
      \<and> contents (fst (pop_frame n r)) = drop n (contents r)" if "room r m" for r m n
    using that by (simp add: room_def pop_frame_eq contents_advance min_def)
  show "room (fst (pop_frame n r)) m" if "room r m" for r m n
    using that ring_ok_advance [of r "min n (length (contents r))"]
    by (simp add: room_def pop_frame_eq)
  show "room r n" if "room r (n + m)" for r n m
    using that by (simp add: room_def)
qed

section \<open>Producer and consumer threads\<close>

text \<open>
  The program counters of the two threads, with their local variables. Each step is one
  atomic operation of \<^verbatim>\<open>push_from_iter\<close>, \<^verbatim>\<open>pop_slice\<close> or \<^verbatim>\<open>clear\<close>; the weak
  compare-exchange may fail at any time. \<open>pushed\<close> is an auxiliary variable: all samples
  pushed so far, so that position \<open>p\<close> of the stream is \<open>pushed ! p\<close>.
\<close>

datatype producer =
    P_Idle push_report
  | P_Begin "i16 list"
  | P_Scan nat "i16 list"
  | P_Cas nat "i16 list" nat
  | P_Fill nat "i16 list" nat nat
  | P_Value nat "i16 list" nat nat
  | P_Seq nat "i16 list" nat nat

datatype consumer =
    C_Idle nat nat "i16 list"
  | C_Begin "i16 list"
  | C_Write "i16 list" nat
  | C_Cas "i16 list" nat nat
  | C_Before "i16 list" nat nat nat
  | C_Value "i16 list" nat nat nat nat
  | C_After "i16 list" nat nat nat nat i16
  | C_Clear
  | C_ClearStore nat

record ring_system =
  ring :: audio_ring
  prod :: producer
  cons :: consumer
  pushed :: "i16 list"

definition slot_at :: "audio_ring \<Rightarrow> nat \<Rightarrow> ring_slot" where
  "slot_at r position = slots r ! slot_index r position"

inductive ring_step :: "ring_system \<Rightarrow> ring_system \<Rightarrow> bool" where
  push_empty: "prod s = P_Idle rep \<Longrightarrow> ring_step s (s\<lparr>prod := P_Idle default_report\<rparr>)"
| push_call: "prod s = P_Idle rep \<Longrightarrow> xs \<noteq> [] \<Longrightarrow> ring_step s (s\<lparr>prod := P_Begin xs\<rparr>)"
| push_load_write: "prod s = P_Begin xs \<Longrightarrow>
    ring_step s (s\<lparr>prod := P_Scan (write_pos (ring s)) xs, pushed := pushed s @ xs\<rparr>)"
| push_scan_done: "prod s = P_Scan w xs \<Longrightarrow>
    read_pos (ring s) \<ge> minimum_read (ring s) w (length xs) \<Longrightarrow>
    ring_step s (s\<lparr>prod := P_Fill w xs (length xs - capacity (ring s)) 0\<rparr>)"
| push_scan_behind: "prod s = P_Scan w xs \<Longrightarrow>
    read_pos (ring s) < minimum_read (ring s) w (length xs) \<Longrightarrow>
    ring_step s (s\<lparr>prod := P_Cas w xs (read_pos (ring s))\<rparr>)"
| push_cas_ok: "prod s = P_Cas w xs rd \<Longrightarrow> read_pos (ring s) = rd \<Longrightarrow>
    m = minimum_read (ring s) w (length xs) \<Longrightarrow>
    ring_step s (s\<lparr>ring := (ring s)\<lparr>read_pos := m\<rparr>,
      prod := P_Fill w xs (length xs - capacity (ring s)) (m - rd)\<rparr>)"
| push_cas_fail: "prod s = P_Cas w xs rd \<Longrightarrow> ring_step s (s\<lparr>prod := P_Scan w xs\<rparr>)"
| push_invalidate: "prod s = P_Fill w xs off d \<Longrightarrow> off < length xs \<Longrightarrow>
    ring_step s (s\<lparr>ring := update_slot (slot_sequence_update (\<lambda>_. 0)) (wrap64 (w + off)) (ring s),
      prod := P_Value w xs off d\<rparr>)"
| push_value: "prod s = P_Value w xs off d \<Longrightarrow>
    ring_step s (s\<lparr>ring := update_slot (slot_value_update (\<lambda>_. xs ! off)) (wrap64 (w + off)) (ring s),
      prod := P_Seq w xs off d\<rparr>)"
| push_sequence: "prod s = P_Seq w xs off d \<Longrightarrow>
    ring_step s (s\<lparr>ring := update_slot
        (slot_sequence_update (\<lambda>_. wrap64 (wrap64 (w + off) + 1))) (wrap64 (w + off)) (ring s),
      prod := P_Fill w xs (Suc off) d\<rparr>)"
| push_publish: "prod s = P_Fill w xs off d \<Longrightarrow> off \<ge> length xs \<Longrightarrow>
    ring_step s (s\<lparr>ring := (ring s)\<lparr>write_pos := saturating_add64 w (length xs)\<rparr>,
      prod := P_Idle (report_of (ring s) (length xs) d)\<rparr>)"
| pop_empty: "cons s = C_Idle c0 rd0 out0 \<Longrightarrow> ring_step s (s\<lparr>cons := C_Idle 0 0 []\<rparr>)"
| pop_call: "cons s = C_Idle c0 rd0 out0 \<Longrightarrow> out \<noteq> [] \<Longrightarrow> ring_step s (s\<lparr>cons := C_Begin out\<rparr>)"
| pop_load_read: "cons s = C_Begin out \<Longrightarrow>
    ring_step s (s\<lparr>cons := C_Write out (read_pos (ring s))\<rparr>)"
| pop_nothing: "cons s = C_Write out rd \<Longrightarrow>
    min (length out) (available (ring s) (write_pos (ring s)) rd) = 0 \<Longrightarrow>
    ring_step s (s\<lparr>cons := C_Idle 0 rd out\<rparr>)"
| pop_some: "cons s = C_Write out rd \<Longrightarrow>
    c = min (length out) (available (ring s) (write_pos (ring s)) rd) \<Longrightarrow> c \<noteq> 0 \<Longrightarrow>
    ring_step s (s\<lparr>cons := C_Cas out rd c\<rparr>)"
| pop_cas_ok: "cons s = C_Cas out rd c \<Longrightarrow> read_pos (ring s) = rd \<Longrightarrow>
    ring_step s (s\<lparr>ring := (ring s)\<lparr>read_pos := wrap64 (rd + c)\<rparr>, cons := C_Before out rd c 0\<rparr>)"
| pop_cas_fail: "cons s = C_Cas out rd c \<Longrightarrow> ring_step s (s\<lparr>cons := C_Begin out\<rparr>)"
| pop_before: "cons s = C_Before out rd c off \<Longrightarrow> off < c \<Longrightarrow>
    ring_step s (s\<lparr>cons := C_Value out rd c off
      (slot_sequence (slot_at (ring s) (wrap64 (rd + off))))\<rparr>)"
| pop_value: "cons s = C_Value out rd c off b \<Longrightarrow>
    ring_step s (s\<lparr>cons := C_After out rd c off b
      (slot_value (slot_at (ring s) (wrap64 (rd + off))))\<rparr>)"
| pop_after: "cons s = C_After out rd c off b v \<Longrightarrow>
    ring_step s (s\<lparr>cons := C_Before (out[off := validated (wrap64 (rd + off)) b
        (slot_sequence (slot_at (ring s) (wrap64 (rd + off)))) v]) rd c (Suc off)\<rparr>)"
| pop_return: "cons s = C_Before out rd c off \<Longrightarrow> off \<ge> c \<Longrightarrow>
    ring_step s (s\<lparr>cons := C_Idle c rd out\<rparr>)"
| clear_call: "cons s = C_Idle c0 rd0 out0 \<Longrightarrow> ring_step s (s\<lparr>cons := C_Clear\<rparr>)"
| clear_load: "cons s = C_Clear \<Longrightarrow>
    ring_step s (s\<lparr>cons := C_ClearStore (write_pos (ring s))\<rparr>)"
| clear_store: "cons s = C_ClearStore w \<Longrightarrow>
    ring_step s (s\<lparr>ring := (ring s)\<lparr>read_pos := w\<rparr>, cons := C_Idle 0 w []\<rparr>)"

inductive ring_reachable :: "nat \<Rightarrow> ring_system \<Rightarrow> bool" for cap where
  start: "ring_new cap = Some r \<Longrightarrow>
    ring_reachable cap \<lparr>ring = r, prod = P_Idle default_report, cons = C_Idle 0 0 [], pushed = []\<rparr>"
| step: "ring_reachable cap s \<Longrightarrow> ring_step s t \<Longrightarrow> ring_reachable cap t"

section \<open>What the threads keep invariant\<close>

text \<open>The first position whose sequence number is not stored yet.\<close>

fun next_pos :: "nat \<Rightarrow> producer \<Rightarrow> nat" where
  "next_pos n (P_Scan w xs) = w"
| "next_pos n (P_Cas w xs rd) = w"
| "next_pos n (P_Fill w xs off d) = w + off"
| "next_pos n (P_Value w xs off d) = w + off"
| "next_pos n (P_Seq w xs off d) = w + off"
| "next_pos n _ = n"

definition in_flight :: "i16 list \<Rightarrow> nat \<Rightarrow> nat \<Rightarrow> i16 list \<Rightarrow> bool" where
  "in_flight h wr w xs \<longleftrightarrow> wr = w \<and> w + length xs = length h \<and> drop w h = xs"

fun prod_ok :: "i16 list \<Rightarrow> audio_ring \<Rightarrow> producer \<Rightarrow> bool" where
  "prod_ok h r (P_Scan w xs) = in_flight h (write_pos r) w xs"
| "prod_ok h r (P_Cas w xs rd) = in_flight h (write_pos r) w xs"
| "prod_ok h r (P_Fill w xs off d) = (in_flight h (write_pos r) w xs \<and> off \<le> length xs)"
| "prod_ok h r (P_Value w xs off d) = (in_flight h (write_pos r) w xs \<and> off < length xs
     \<and> slot_sequence (slot_at r (w + off)) = 0)"
| "prod_ok h r (P_Seq w xs off d) = (in_flight h (write_pos r) w xs \<and> off < length xs
     \<and> slot_sequence (slot_at r (w + off)) = 0 \<and> slot_value (slot_at r (w + off)) = xs ! off)"
| "prod_ok h r _ = (write_pos r = length h)"

text \<open>The samples handed out so far are samples of the stream at their position, or silence.\<close>

definition genuine :: "i16 list \<Rightarrow> nat \<Rightarrow> nat \<Rightarrow> i16 list \<Rightarrow> bool" where
  "genuine h rd n out \<longleftrightarrow>
     rd + n \<le> length h \<and> (\<forall>i < n. i < length out \<longrightarrow> out ! i = 0 \<or> out ! i = h ! (rd + i))"

fun cons_ok :: "i16 list \<Rightarrow> nat \<Rightarrow> audio_ring \<Rightarrow> consumer \<Rightarrow> bool" where
  "cons_ok h m r (C_Idle c rd out) = (c = 0 \<or> genuine h rd c out)"
| "cons_ok h m r (C_Cas out rd c) = (rd + c \<le> length h)"
| "cons_ok h m r (C_Before out rd c off) =
     (rd + c \<le> length h \<and> off \<le> c \<and> genuine h rd off out)"
| "cons_ok h m r (C_Value out rd c off b) =
     (rd + c \<le> length h \<and> off < c \<and> genuine h rd off out
      \<and> (b = rd + off + 1 \<longrightarrow> rd + off < m))"
| "cons_ok h m r (C_After out rd c off b v) =
     (rd + c \<le> length h \<and> off < c \<and> genuine h rd off out
      \<and> (b = rd + off + 1 \<longrightarrow> rd + off < m
          \<and> (slot_sequence (slot_at r (rd + off)) = rd + off + 1 \<longrightarrow> v = h ! (rd + off))))"
| "cons_ok h m r _ = True"

definition slots_ok :: "i16 list \<Rightarrow> nat \<Rightarrow> audio_ring \<Rightarrow> bool" where
  "slots_ok h m r \<longleftrightarrow> capacity r > 0 \<and> length (slots r) = capacity r
     \<and> (\<forall>sl \<in> set (slots r). slot_sequence sl \<noteq> 0 \<longrightarrow>
          slot_sequence sl \<le> m \<and> slot_value sl = h ! (slot_sequence sl - 1))"

definition ring_inv :: "ring_system \<Rightarrow> bool" where
  "ring_inv s \<longleftrightarrow>
     (let h = pushed s; m = next_pos (length h) (prod s) in
      m \<le> length h \<and> slots_ok h m (ring s) \<and> prod_ok h (ring s) (prod s)
      \<and> cons_ok h m (ring s) (cons s))"

lemma slot_at_read [simp]: "slot_at (r\<lparr>read_pos := m\<rparr>) p = slot_at r p"
    "slot_at (r\<lparr>write_pos := m\<rparr>) p = slot_at r p"
  by (simp_all add: slot_at_def slot_index_def)

lemma slot_at_update:
  "capacity r > 0 \<Longrightarrow> length (slots r) = capacity r \<Longrightarrow>
   slot_at (update_slot f p r) q
     = (if slot_index r q = slot_index r p then f (slot_at r q) else slot_at r q)"
  by (simp add: slot_at_def nth_update_slot slot_index_less)

lemma slots_ok_update:
  assumes "slots_ok h m r" and "m \<le> m'"
    and "let sl = f (slot_at r p) in slot_sequence sl \<noteq> 0 \<longrightarrow>
           slot_sequence sl \<le> m' \<and> slot_value sl = h ! (slot_sequence sl - 1)"
  shows "slots_ok h m' (update_slot f p r)"
  using assms
  by (auto simp: slots_ok_def update_slot_def slot_at_def Let_def
      dest!: set_update_subset_insert [THEN subsetD])

lemma slots_ok_position [simp]:
  "slots_ok h m (r\<lparr>read_pos := n\<rparr>) = slots_ok h m r"
  "slots_ok h m (r\<lparr>write_pos := n\<rparr>) = slots_ok h m r"
  by (simp_all add: slots_ok_def)

lemma slots_ok_more: "slots_ok h m r \<Longrightarrow> m \<le> length h \<Longrightarrow> slots_ok (h @ xs) m r"
  by (fastforce simp: slots_ok_def nth_append)

lemma genuine_more: "genuine h rd n out \<Longrightarrow> genuine (h @ xs) rd n out"
  by (auto simp: genuine_def nth_append)

lemma cons_ok_more: "cons_ok h m r c \<Longrightarrow> m \<le> length h \<Longrightarrow> cons_ok (h @ xs) m r c"
  by (cases c) (auto simp: genuine_more nth_append)

lemma cons_ok_mono:
  assumes "cons_ok h m r c" and "m \<le> m'"
    and "\<And>p. p < m \<Longrightarrow> slot_sequence (slot_at r' p) = p + 1 \<Longrightarrow> slot_sequence (slot_at r p) = p + 1"
  shows "cons_ok h m' r' c"
  using assms by (cases c) auto

lemma cons_ok_position [simp]:
  "cons_ok h m (r\<lparr>read_pos := n\<rparr>) c = cons_ok h m r c"
  "cons_ok h m (r\<lparr>write_pos := n\<rparr>) c = cons_ok h m r c"
  by (cases c; simp)+

lemma prod_ok_read [simp]: "prod_ok h (r\<lparr>read_pos := n\<rparr>) p = prod_ok h r p"
  by (cases p) simp_all

lemma slots_ok_skip: "slots_ok h m r \<Longrightarrow> slots_ok h (m + k) r"
  by (fastforce simp: slots_ok_def)

lemma cons_ok_skip: "cons_ok h m r c \<Longrightarrow> cons_ok h (m + k) r c"
  by (erule cons_ok_mono) auto

lemma genuine_0 [simp]: "genuine h rd 0 out \<longleftrightarrow> rd \<le> length h"
  by (simp add: genuine_def)

lemma genuine_snoc:
  "genuine h rd n out \<Longrightarrow> rd + n < length h \<Longrightarrow> x = 0 \<or> x = h ! (rd + n) \<Longrightarrow>
   genuine h rd (Suc n) (out[n := x])"
  by (auto simp: genuine_def nth_list_update less_Suc_eq)

lemma slot_at_ok:
  assumes "slots_ok h m r" and "slot_sequence (slot_at r p) = q + 1"
  shows "q < m \<and> slot_value (slot_at r p) = h ! q"
proof -
  have "slot_at r p \<in> set (slots r)"
    using assms(1) by (simp add: slots_ok_def slot_at_def slot_index_less)
  with assms show ?thesis by (force simp: slots_ok_def)
qed

lemma write_bounded: "prod_ok h r p \<Longrightarrow> write_pos r \<le> length h"
  by (cases p) (auto simp: in_flight_def)

lemma in_flight_nth: "in_flight h wr w xs \<Longrightarrow> off < length xs \<Longrightarrow> h ! (w + off) = xs ! off"
  by (auto simp: in_flight_def)

lemmas ring_inv_simps = ring_inv_def Let_def

lemma invalidate_inv:
  assumes "slots_ok h m r" and "cons_ok h m r c"
    and "r' = update_slot (slot_sequence_update (\<lambda>_. 0)) q r"
  shows "slots_ok h m r' \<and> cons_ok h m r' c \<and> slot_sequence (slot_at r' q) = 0"
proof -
  have "capacity r > 0" "length (slots r) = capacity r" using assms(1) by (simp_all add: slots_ok_def)
  note at = slot_at_update [OF this]
  have "cons_ok h m r' c"
    using assms(2) by (rule cons_ok_mono) (auto simp: assms(3) at split: if_splits)
  then show ?thesis
    using assms(1) by (simp add: assms(3) at slots_ok_update)
qed

lemma value_inv:
  assumes "slots_ok h m r" and "cons_ok h m r c" and "slot_sequence (slot_at r q) = 0"
    and "r' = update_slot (slot_value_update (\<lambda>_. x)) q r"
  shows "slots_ok h m r' \<and> cons_ok h m r' c
    \<and> slot_sequence (slot_at r' q) = 0 \<and> slot_value (slot_at r' q) = x"
proof -
  have "capacity r > 0" "length (slots r) = capacity r" using assms(1) by (simp_all add: slots_ok_def)
  note at = slot_at_update [OF this]
  have "cons_ok h m r' c"
    using assms(2) by (rule cons_ok_mono) (auto simp: assms(4) at split: if_splits)
  then show ?thesis
    using assms(1,3) by (simp add: assms(4) at slots_ok_update)
qed

lemma sequence_inv:
  assumes "slots_ok h q r" and "cons_ok h q r c" and "slot_value (slot_at r q) = h ! q"
    and "r' = update_slot (slot_sequence_update (\<lambda>_. q + 1)) q r"
  shows "slots_ok h (Suc q) r' \<and> cons_ok h (Suc q) r' c"
proof -
  have "capacity r > 0" "length (slots r) = capacity r" using assms(1) by (simp_all add: slots_ok_def)
  note at = slot_at_update [OF this]
  have "cons_ok h (Suc q) r' c"
    using assms(2) by (rule cons_ok_mono) (auto simp: assms(4) at split: if_splits)
  then show ?thesis
    using assms(1,3) by (simp add: assms(4) slots_ok_update)
qed

lemma producer_step_inv:
  assumes "ring_inv s" and "ring_step s t" and "cons t = cons s" and "length (pushed t) < 2 ^ 64"
  shows "ring_inv t"
  using assms(2)
proof cases
  case (push_invalidate w xs off d)
  then show ?thesis
    using assms(1,4) invalidate_inv [of "pushed s" "w + off" "ring s" "cons s" _ "w + off"]
    by (auto simp: ring_inv_simps in_flight_def)
next
  case (push_value w xs off d)
  then show ?thesis
    using assms(1,4) value_inv [of "pushed s" "w + off" "ring s" "cons s" "w + off"]
    by (auto simp: ring_inv_simps in_flight_def)
next
  case (push_sequence w xs off d)
  then show ?thesis
    using assms(1,4) sequence_inv [of "pushed s" "w + off" "ring s" "cons s"]
    by (auto simp: ring_inv_simps in_flight_def)
next
  case (push_load_write xs)
  then show ?thesis
    using assms(1) by (auto simp: ring_inv_simps in_flight_def slots_ok_more cons_ok_more)
next
  case (push_publish w xs off d)
  then show ?thesis
    using assms(1,4) by (auto simp: ring_inv_simps in_flight_def saturating_add64_def)
qed (use assms(1,3) in \<open>auto simp: ring_inv_simps in_flight_def slots_ok_skip cons_ok_skip\<close>)

lemma consumer_step_inv:
  assumes "ring_inv s" and "ring_step s t" and "prod t = prod s" and "pushed t = pushed s"
    and "length (pushed t) < 2 ^ 64"
  shows "ring_inv t"
proof -
  have slots: "slots_ok (pushed s) (next_pos (length (pushed s)) (prod s)) (ring s)"
    and len: "length (pushed s) < 2 ^ 64"
    using assms(1,4,5) by (simp_all add: ring_inv_simps)
  note found = slot_at_ok [OF slots]
  show ?thesis
    using assms(2)
  proof cases
    case (pop_some out rd c)
    then show ?thesis
      using assms(1) write_bounded [of "pushed s" "ring s" "prod s"]
      by (auto simp: ring_inv_simps available_def)
  next
    case (pop_before out rd c off)
    then show ?thesis
      using assms(1) len found [of "rd + off" "rd + off"] by (auto simp: ring_inv_simps)
  next
    case (pop_value out rd c off b)
    then show ?thesis
      using assms(1) len found [of "rd + off" "rd + off"] by (auto simp: ring_inv_simps)
  next
    case (pop_after out rd c off b v)
    then show ?thesis
      using assms(1) len by (auto simp: ring_inv_simps validated_def intro!: genuine_snoc)
  qed (use assms(1,3,4) in \<open>auto simp: ring_inv_simps\<close>)
qed

lemma ring_step_threads:
  "ring_step s t \<Longrightarrow> cons t = cons s \<or> prod t = prod s \<and> pushed t = pushed s"
  by (induction rule: ring_step.induct) auto

lemma pushed_grows: "ring_step s t \<Longrightarrow> length (pushed s) \<le> length (pushed t)"
  by (induction rule: ring_step.induct) auto

lemma ring_reachable_inv:
  "ring_reachable cap s \<Longrightarrow> length (pushed s) < 2 ^ 64 \<Longrightarrow> ring_inv s"
proof (induction rule: ring_reachable.induct)
  case (start r)
  then show ?case
    by (auto simp: ring_inv_simps ring_new_def slots_ok_def split: if_splits)
next
  case (step s t)
  then have "ring_inv s" using pushed_grows [of s t] by linarith
  with step show ?case
    using ring_step_threads [of s t] producer_step_inv [of s t] consumer_step_inv [of s t] by blast
qed

section \<open>Operations that run without interference\<close>

lemma step_then: "ring_step s t \<Longrightarrow> ring_step\<^sup>*\<^sup>* t u \<Longrightarrow> ring_step\<^sup>*\<^sup>* s u"
  by (rule converse_rtranclp_into_rtranclp)

lemma fill_run:
  "prod s = P_Fill w xs off d \<Longrightarrow> off \<le> length xs \<Longrightarrow>
   ring_step\<^sup>*\<^sup>* s (s\<lparr>ring := store_samples w off (drop off xs) (ring s),
     prod := P_Fill w xs (length xs) d\<rparr>)"
proof (induction "length xs - off" arbitrary: off s)
  case 0
  have "s\<lparr>ring := store_samples w off (drop off xs) (ring s), prod := P_Fill w xs (length xs) d\<rparr> = s"
    using 0 by (cases s) simp
  then show ?case by (metis rtranclp.rtrancl_refl)
next
  case (Suc n)
  then have less: "off < length xs" by simp
  let ?q = "wrap64 (w + off)"
  define s1 where "s1 = s\<lparr>ring := update_slot (slot_sequence_update (\<lambda>_. 0)) ?q (ring s),
      prod := P_Value w xs off d\<rparr>"
  define s2 where "s2 = s1\<lparr>ring := update_slot (slot_value_update (\<lambda>_. xs ! off)) ?q (ring s1),
      prod := P_Seq w xs off d\<rparr>"
  define s3 where "s3 = s2\<lparr>ring := update_slot (slot_sequence_update (\<lambda>_. wrap64 (?q + 1))) ?q
      (ring s2), prod := P_Fill w xs (Suc off) d\<rparr>"
  have st: "ring_step s s1" using Suc.prems(1) less unfolding s1_def by (rule push_invalidate)
  have st1: "ring_step s1 s2" unfolding s2_def by (rule push_value) (simp add: s1_def)
  have st2: "ring_step s2 s3" unfolding s3_def by (rule push_sequence) (simp add: s2_def)
  have s3: "s3 = s\<lparr>ring := store_sample ?q (xs ! off) (ring s), prod := P_Fill w xs (Suc off) d\<rparr>"
    by (simp add: s3_def s2_def s1_def store_sample_def)
  have "drop off xs = xs ! off # drop (Suc off) xs"
    using less by (rule Cons_nth_drop_Suc [symmetric])
  then have "ring_step\<^sup>*\<^sup>* s3 (s\<lparr>ring := store_samples w off (drop off xs) (ring s),
      prod := P_Fill w xs (length xs) d\<rparr>)"
    using Suc.hyps(1) [of "Suc off" s3] Suc.hyps(2) less by (simp add: s3)
  then show ?case by (rule step_then [OF st step_then [OF st1 step_then [OF st2]]])
qed

lemma push_run:
  assumes "prod s = P_Idle rep" and "xs \<noteq> []"
  shows "ring_step\<^sup>*\<^sup>* s (s\<lparr>ring := fst (push_slice xs (ring s)),
    prod := P_Idle (snd (push_slice xs (ring s))), pushed := pushed s @ xs\<rparr>)"
proof -
  define w where "w = write_pos (ring s)"
  define m where "m = minimum_read (ring s) w (length xs)"
  define skip where "skip = length xs - capacity (ring s)"
  define d where "d = (if read_pos (ring s) \<ge> m then 0 else m - read_pos (ring s))"
  define r1 where "r1 = (if read_pos (ring s) \<ge> m then ring s else (ring s)\<lparr>read_pos := m\<rparr>)"
  define s0 where "s0 = s\<lparr>prod := P_Begin xs\<rparr>"
  define s1 where "s1 = s\<lparr>prod := P_Scan w xs, pushed := pushed s @ xs\<rparr>"
  define s2 where "s2 = s\<lparr>ring := r1, prod := P_Fill w xs skip d, pushed := pushed s @ xs\<rparr>"
  define s3 where "s3 = s2\<lparr>ring := store_samples w skip (drop skip xs) r1,
      prod := P_Fill w xs (length xs) d\<rparr>"
  have "ring_step s s0" using assms unfolding s0_def by (rule push_call)
  moreover have "ring_step s0 s1"
    using push_load_write [of s0 xs] by (simp add: s0_def s1_def w_def)
  moreover have "ring_step\<^sup>*\<^sup>* s1 s2"
  proof (cases "read_pos (ring s) \<ge> m")
    case True
    then have "ring_step s1 s2"
      using push_scan_done [of s1 w xs] by (cases s) (simp add: s1_def s2_def r1_def d_def m_def skip_def)
    then show ?thesis by blast
  next
    case False
    let ?c = "s1\<lparr>prod := P_Cas w xs (read_pos (ring s))\<rparr>"
    have "ring_step s1 ?c"
      using False push_scan_behind [of s1 w xs] by (simp add: s1_def m_def)
    moreover have "ring_step ?c s2"
      using False push_cas_ok [of ?c w xs "read_pos (ring s)" m]
      by (cases s) (simp add: s1_def s2_def r1_def d_def m_def skip_def)
    ultimately show ?thesis by (meson converse_rtranclp_into_rtranclp r_into_rtranclp)
  qed
  moreover have "ring_step\<^sup>*\<^sup>* s2 s3"
    using fill_run [of s2 w xs skip d] by (simp add: s2_def s3_def skip_def)
  moreover have "ring_step s3 (s\<lparr>ring := fst (push_slice xs (ring s)),
      prod := P_Idle (snd (push_slice xs (ring s))), pushed := pushed s @ xs\<rparr>)"
    using assms(2) push_publish [of s3 w xs "length xs" d]
    by (cases s) (simp add: s3_def s2_def r1_def d_def m_def skip_def w_def push_slice_def push_from_iter_def
        Let_def report_of_def split: if_splits)
  ultimately show ?thesis
    by (meson converse_rtranclp_into_rtranclp rtranclp.rtrancl_into_rtrancl rtranclp_trans)
qed

lemma read_run:
  "cons s = C_Before (map f [0..<off] @ drop off out) rd c off \<Longrightarrow> off \<le> c \<Longrightarrow> c \<le> length out \<Longrightarrow>
   f = (\<lambda>k. read_sample (ring s) (wrap64 (rd + k))) \<Longrightarrow>
   ring_step\<^sup>*\<^sup>* s (s\<lparr>cons := C_Before (map f [0..<c] @ drop c out) rd c c\<rparr>)"
proof (induction "c - off" arbitrary: off s)
  case 0
  then have "s\<lparr>cons := C_Before (map f [0..<c] @ drop c out) rd c c\<rparr> = s" by (cases s) simp
  then show ?case by simp
next
  case (Suc n)
  then have less: "off < c" by simp
  let ?sl = "slot_at (ring s) (wrap64 (rd + off))" and ?o = "map f [0..<off] @ drop off out"
  let ?s1 = "s\<lparr>cons := C_Value ?o rd c off (slot_sequence ?sl)\<rparr>"
  let ?s2 = "s\<lparr>cons := C_After ?o rd c off (slot_sequence ?sl) (slot_value ?sl)\<rparr>"
  let ?s3 = "s\<lparr>cons := C_Before (map f [0..<Suc off] @ drop (Suc off) out) rd c (Suc off)\<rparr>"
  have "ring_step s ?s1" using Suc.prems(1) less by (rule pop_before)
  moreover have "ring_step ?s1 ?s2" using pop_value [of ?s1] by simp
  moreover have "?o[off := f off] = map f [0..<Suc off] @ drop (Suc off) out"
    using less Suc.prems(3) Cons_nth_drop_Suc [of off out, symmetric] by (simp add: list_update_append)
  then have "ring_step ?s2 ?s3"
    using pop_after [of ?s2 ?o rd c off "slot_sequence ?sl" "slot_value ?sl"] Suc.prems(4)
    by (simp add: read_sample_def Let_def slot_at_def)
  moreover have "ring_step\<^sup>*\<^sup>* ?s3 (s\<lparr>cons := C_Before (map f [0..<c] @ drop c out) rd c c\<rparr>)"
    using Suc.hyps(1) [of "Suc off" ?s3] Suc.hyps(2) Suc.prems less by simp
  ultimately show ?case by (blast intro: step_then)
qed

lemma pop_run:
  assumes "cons s = C_Idle n0 rd0 out0" and "out \<noteq> []"
  shows "ring_step\<^sup>*\<^sup>* s (s\<lparr>ring := fst (pop_slice out (ring s)),
    cons := C_Idle (fst (snd (pop_slice out (ring s)))) (read_pos (ring s))
      (snd (snd (pop_slice out (ring s))))\<rparr>)"
proof -
  define rd where "rd = read_pos (ring s)"
  define c where "c = min (length out) (available (ring s) (write_pos (ring s)) rd)"
  let ?s1 = "s\<lparr>cons := C_Begin out\<rparr>" and ?s2 = "s\<lparr>cons := C_Write out rd\<rparr>"
  have "ring_step s ?s1" using assms by (rule pop_call)
  moreover have "ring_step ?s1 ?s2" using pop_load_read [of ?s1 out] by (simp add: rd_def)
  ultimately have pre: "ring_step\<^sup>*\<^sup>* s ?s2" by (blast intro: step_then)
  show ?thesis
  proof (cases "c = 0")
    case True
    then have "ring_step ?s2 (s\<lparr>cons := C_Idle 0 rd out\<rparr>)"
      using pop_nothing [of ?s2 out rd] by (simp add: c_def)
    with pre have "ring_step\<^sup>*\<^sup>* s (s\<lparr>cons := C_Idle 0 rd out\<rparr>)"
      by (rule rtranclp.rtrancl_into_rtrancl)
    with True assms(2) show ?thesis
      by (simp add: pop_slice_def Let_def rd_def c_def)
  next
    case False
    define r where "r = (ring s)\<lparr>read_pos := wrap64 (rd + c)\<rparr>"
    define f where "f = (\<lambda>k. read_sample (ring s) (wrap64 (rd + k)))"
    define s3 where "s3 = s\<lparr>cons := C_Cas out rd c\<rparr>"
    define s4 where "s4 = s\<lparr>ring := r, cons := C_Before out rd c 0\<rparr>"
    define s5 where "s5 = s4\<lparr>cons := C_Before (map f [0..<c] @ drop c out) rd c c\<rparr>"
    define s6 where "s6 = s\<lparr>ring := r, cons := C_Idle c rd (map f [0..<c] @ drop c out)\<rparr>"
    have st2: "ring_step ?s2 s3"
      using False pop_some [of ?s2 out rd c] by (simp add: c_def s3_def)
    have st3: "ring_step s3 s4"
      using pop_cas_ok [of s3 out rd c] by (simp add: rd_def s3_def s4_def r_def)
    have f: "f = (\<lambda>k. read_sample (ring s4) (wrap64 (rd + k)))"
      by (simp add: f_def s4_def r_def read_sample_def slot_index_def)
    have "c \<le> length out" by (simp add: c_def)
    then have st4: "ring_step\<^sup>*\<^sup>* s4 s5"
      unfolding s5_def by (intro read_run [OF _ _ _ f, where off = 0]) (simp_all add: s4_def)
    have st5: "ring_step s5 s6"
      using pop_return [of s5] by (simp add: s4_def s5_def s6_def)
    have "ring_step\<^sup>*\<^sup>* s s6"
      using pre st2 st3 st4 st5 by (meson rtranclp.rtrancl_into_rtrancl rtranclp_trans)
    moreover have "pop_slice out (ring s) = (r, c, map f [0..<c] @ drop c out)"
      using False assms(2) by (auto simp: pop_slice_def Let_def r_def f_def rd_def c_def min_def split: if_splits)
    ultimately show ?thesis by (simp add: s6_def rd_def)
  qed
qed

section \<open>Properties\<close>

text \<open>A concrete run for the witnesses: two samples pushed into a ring of four, then popped.\<close>

definition demo_ring :: audio_ring where
  "demo_ring = \<lparr>slots = [\<lparr>slot_value = 0, slot_sequence = 0\<rparr>, \<lparr>slot_value = 0, slot_sequence = 0\<rparr>,
     \<lparr>slot_value = 0, slot_sequence = 0\<rparr>, \<lparr>slot_value = 0, slot_sequence = 0\<rparr>], capacity = 4,
     write_pos = 0, read_pos = 0\<rparr>"

definition demo_system :: ring_system where
  "demo_system = \<lparr>ring = demo_ring, prod = P_Idle default_report, cons = C_Idle 0 0 [], pushed = []\<rparr>"

definition demo_final :: ring_system where
  "demo_final = (let r1 = fst (push_slice [5, 6] demo_ring); res = pop_slice [0, 0, 0] r1 in
     \<lparr>ring = fst res, prod = P_Idle (snd (push_slice [5, 6] demo_ring)),
      cons = C_Idle (fst (snd res)) (read_pos r1) (snd (snd res)), pushed = [5, 6]\<rparr>)"

lemma demo_start: "ring_reachable 4 demo_system"
  unfolding demo_system_def by (rule ring_reachable.start) (simp add: ring_new_def demo_ring_def numeral_eq_Suc)

lemma reachable_run: "ring_reachable cap s \<Longrightarrow> ring_step\<^sup>*\<^sup>* s t \<Longrightarrow> ring_reachable cap t"
  by (rotate_tac 1, induction rule: rtranclp_induct) (auto intro: ring_reachable.step)

lemma demo_final_reachable: "ring_reachable 4 demo_final"
proof -
  have "ring_reachable 4 (demo_system\<lparr>ring := fst (push_slice [5, 6] demo_ring),
      prod := P_Idle (snd (push_slice [5, 6] demo_ring)), pushed := [5, 6]\<rparr>)" (is "ring_reachable 4 ?s")
    using reachable_run [OF demo_start push_run [of demo_system default_report "[5, 6]"]]
    by (simp add: demo_system_def)
  from reachable_run [OF this pop_run [of ?s 0 0 "[]" "[0, 0, 0]"]]
  show ?thesis by (simp add: demo_system_def demo_final_def Let_def)
qed

lemma demo_final_out: "cons demo_final = C_Idle 2 0 [5, 6, 0]" "pushed demo_final = [5, 6]"
proof -
  have room: "room demo_ring (length [5, 6 :: i16])" and start: "contents demo_ring = []"
      "capacity demo_ring = 4" "read_pos demo_ring = 0" "write_pos demo_ring = 0"
    by (simp_all add: room_def ring_ok_def demo_ring_def contents_def)
  have held: "contents (fst (push_slice [5, 6] demo_ring)) = [5, 6]"
    using contents_push [OF room] by (simp add: start newest_def)
  have "read_pos (fst (push_slice [5, 6] demo_ring)) = 0"
    by (simp add: push_slice_nonempty [OF room] Let_def start)
  with pop_slice_contents [OF ring_ok_push [OF room], of "[0, 0, 0]"]
  show "cons demo_final = C_Idle 2 0 [5, 6, 0]" "pushed demo_final = [5, 6]"
    unfolding held by (simp_all add: demo_final_def Let_def)
qed

text \<open>C27: in every interleaving of the capture thread and the sender, each sample the sender
  receives is the sample pushed at its position of the stream, or silence; never a torn or
  stale sample. Positions are consecutive and were all pushed.\<close>

theorem popped_samples_genuine:
  assumes "ring_reachable cap s" and "length (pushed s) < 2 ^ 64" and "cons s = C_Idle n rd out"
    and "i < n" and "i < length out"
  shows "rd + i < length (pushed s) \<and> (out ! i = 0 \<or> out ! i = pushed s ! (rd + i))"
proof -
  have "genuine (pushed s) rd n out"
    using ring_reachable_inv [OF assms(1,2)] assms(3,4) by (simp add: ring_inv_simps)
  with assms(4,5) show ?thesis by (simp add: genuine_def)
qed

theorem popped_samples_genuine_witness:
  "ring_reachable 4 demo_final \<and> cons demo_final = C_Idle 2 0 [5, 6, 0]
   \<and> 0 + 1 < length (pushed demo_final)
   \<and> ([5, 6, 0] ! 1 = (0 :: i16) \<or> [5, 6, 0] ! 1 = pushed demo_final ! (0 + 1))"
  using demo_final_reachable demo_final_out
    popped_samples_genuine [of 4 demo_final 2 0 "[5, 6, 0]" 1] by simp

text \<open>C28: used by one thread at a time the ring is a queue that keeps the newest samples: after
  any number of pushes it holds the last samples, up to its capacity and in order, and a consumer
  that asks for at least that many receives exactly those.\<close>

theorem ring_keeps_newest:
  assumes "room r (length (concat xss))" and "capacity r \<le> n"
  shows "contents (fold (\<lambda>xs q. fst (push_slice xs q)) xss r)
      = newest (capacity r) (contents r @ concat xss)
    \<and> snd (pop_frame n (fold (\<lambda>xs q. fst (push_slice xs q)) xss r))
      = newest (capacity r) (contents r @ concat xss)"
  using ring_queue.items_pushes [OF assms(1)] ring_queue.drain_pushes [OF assms] by simp

theorem ring_keeps_newest_witness:
  "room demo_ring 5 \<and>
   snd (pop_frame 4 (fold (\<lambda>xs q. fst (push_slice xs q)) [[1, 2], [3, 4, 5]] demo_ring))
     = [2, 3, 4, 5]"
proof -
  have room: "room demo_ring 5" and start: "contents demo_ring = []" "capacity demo_ring = 4"
    by (simp_all add: room_def ring_ok_def demo_ring_def contents_def)
  have "room demo_ring (length (concat [[1, 2], [3, 4, 5 :: i16]]))"
    using room by (simp add: eval_nat_numeral)
  from ring_keeps_newest [OF this, of 4] room show ?thesis
    by (simp add: start newest_def)
qed

text \<open>The sequential operations are the threads' behaviour without interference: from any
  state in which the producer (the consumer) is idle, its steps alone can complete a push (a
  pop) with exactly the result of the sequential operation.\<close>

theorem solo_operations:
  assumes "prod s = P_Idle rep" and "cons s = C_Idle n0 rd0 out0" and "xs \<noteq> []" and "out \<noteq> []"
  shows "ring_step\<^sup>*\<^sup>* s (s\<lparr>ring := fst (push_slice xs (ring s)),
      prod := P_Idle (snd (push_slice xs (ring s))), pushed := pushed s @ xs\<rparr>)
    \<and> ring_step\<^sup>*\<^sup>* s (s\<lparr>ring := fst (pop_slice out (ring s)),
      cons := C_Idle (fst (snd (pop_slice out (ring s)))) (read_pos (ring s))
        (snd (snd (pop_slice out (ring s))))\<rparr>)"
  using push_run [OF assms(1,3)] pop_run [OF assms(2,4)] by blast

theorem solo_operations_witness:
  "ring_step\<^sup>*\<^sup>* demo_system (demo_system\<lparr>ring := fst (push_slice [7] demo_ring),
      prod := P_Idle (snd (push_slice [7] demo_ring)), pushed := [7]\<rparr>)"
  using solo_operations [of demo_system default_report 0 0 "[]" "[7]" "[0]"]
  by (simp add: demo_system_def)

end
