(* ===== verification/Mic_Session.thy ===== *)
theory Mic_Session
  imports Audio_Ring
begin

text \<open>
  The microphone sidecar's building blocks: session configuration
  (\<^verbatim>\<open>mic-sidecar/src/protocol.rs\<close>), the session state machine (\<^verbatim>\<open>state.rs\<close>), the shared
  counters (\<^verbatim>\<open>metrics.rs\<close>), and the part of the sender loop that fills a frame and stamps it
  (\<^verbatim>\<open>pipeline.rs\<close>, \<^verbatim>\<open>capture.rs\<close>). The GStreamer calls are not modelled.
\<close>

section \<open>Session configuration\<close>

datatype source_kind = Microphone | Sine

record session_config =
  session_id :: string
  host :: string
  rtp_port :: u16
  rtcp_port :: "u16 option"
  rtcp_listen_port :: u16
  bitrate :: u32
  frame_ms :: u32
  fec :: bool
  packet_loss_percent :: u32
  dtx :: bool
  ssrc :: "u32 option"
  sequence_offset :: "u16 option"
  timestamp_offset :: "u32 option"
  source :: source_kind

definition checked_add16 :: "u16 \<Rightarrow> u16 \<Rightarrow> u16 option" where
  "checked_add16 a b = (if unat a + unat b < 2 ^ 16 then Some (a + b) else None)"

definition resolved_rtcp_port :: "session_config \<Rightarrow> (string, u16) result" where
  "resolved_rtcp_port c =
     ok_or ''rtcpPort is required when rtpPort is 65535''
       (case rtcp_port c of Some p \<Rightarrow> Some p | None \<Rightarrow> checked_add16 (rtp_port c) 1)"

definition resolved_rtcp_listen_port :: "session_config \<Rightarrow> (string, u16) result" where
  "resolved_rtcp_listen_port c =
     (if rtcp_listen_port c \<noteq> 0 then Inr (rtcp_listen_port c)
      else ok_or ''rtcpListenPort is required when rtpPort cannot derive a separate port''
             (checked_add16 (rtp_port c) 2))"

definition bitrate_ok :: "u32 \<Rightarrow> bool" where
  "bitrate_ok b \<longleftrightarrow> 6000 \<le> b \<and> b \<le> 128000"

definition session_validate :: "session_config \<Rightarrow> (string, unit) result" where
  "session_validate c =
     (if is_blank (session_id c) then Inl ''sessionId must not be empty''
      else if is_blank (host c) then Inl ''host must not be empty''
      else if rtp_port c = 0 then Inl ''rtpPort must be non-zero''
      else res_bind (resolved_rtcp_port c) (\<lambda>_.
           res_bind (resolved_rtcp_listen_port c) (\<lambda>_.
           if frame_ms c \<noteq> 10 then Inl ''only 10 ms Opus frames are supported''
           else if \<not> bitrate_ok (bitrate c)
           then Inl ''bitrate must be between 6000 and 128000 bits/s''
           else if packet_loss_percent c > 100
           then Inl ''packetLossPercent must be between 0 and 100''
           else Inr ())))"

lemma session_validate_ok_iff:
  "session_validate c = Inr () \<longleftrightarrow>
     \<not> is_blank (session_id c) \<and> \<not> is_blank (host c) \<and> rtp_port c \<noteq> 0
     \<and> is_ok (resolved_rtcp_port c) \<and> is_ok (resolved_rtcp_listen_port c)
     \<and> frame_ms c = 10 \<and> bitrate_ok (bitrate c) \<and> packet_loss_percent c \<le> 100"
  by (cases "resolved_rtcp_port c"; cases "resolved_rtcp_listen_port c")
     (auto simp: session_validate_def not_le)

section \<open>The state machine\<close>

datatype sidecar_state = Idle | Starting | Running | Recovering | Stopping | Shutdown

datatype health = Healthy | Degraded | Failed

record state_machine =
  sidecar_state :: sidecar_state
  health :: health
  last_error :: "string option"

definition default_machine :: state_machine where
  "default_machine = \<lparr>sidecar_state = Idle, health = Healthy, last_error = None\<rparr>"

fun valid_transition :: "sidecar_state \<Rightarrow> sidecar_state \<Rightarrow> bool" where
  "valid_transition Idle Starting = True"
| "valid_transition Starting Running = True"
| "valid_transition Starting Recovering = True"
| "valid_transition Starting Idle = True"
| "valid_transition Running Recovering = True"
| "valid_transition Running Stopping = True"
| "valid_transition Recovering Running = True"
| "valid_transition Recovering Stopping = True"
| "valid_transition Stopping Idle = True"
| "valid_transition a b = (b = Shutdown \<or> a = b)"

definition debug_state :: "sidecar_state \<Rightarrow> string" where
  "debug_state s = (case s of Idle \<Rightarrow> ''Idle'' | Starting \<Rightarrow> ''Starting'' | Running \<Rightarrow> ''Running''
     | Recovering \<Rightarrow> ''Recovering'' | Stopping \<Rightarrow> ''Stopping'' | Shutdown \<Rightarrow> ''Shutdown'')"

definition sidecar_transition ::
  "sidecar_state \<Rightarrow> state_machine \<Rightarrow> (string, state_machine) result" where
  "sidecar_transition nxt m =
     (if \<not> valid_transition (sidecar_state m) nxt
      then Inl (''invalid sidecar state transition '' @ debug_state (sidecar_state m) @ '' -> ''
             @ debug_state nxt)
      else Inr (m\<lparr>sidecar_state := nxt\<rparr>))"

text \<open>\<^verbatim>\<open>let _ = self.state.transition(next)\<close>: an invalid transition changes nothing.\<close>

definition try_transition :: "sidecar_state \<Rightarrow> state_machine \<Rightarrow> state_machine" where
  "try_transition nxt m = (case sidecar_transition nxt m of Inl _ \<Rightarrow> m | Inr m' \<Rightarrow> m')"

definition healthy :: "state_machine \<Rightarrow> state_machine" where
  "healthy m = m\<lparr>health := Healthy, last_error := None\<rparr>"

definition degraded :: "string \<Rightarrow> state_machine \<Rightarrow> state_machine" where
  "degraded e m = m\<lparr>health := Degraded, last_error := Some e\<rparr>"

definition failed :: "string \<Rightarrow> state_machine \<Rightarrow> state_machine" where
  "failed e m = m\<lparr>health := Failed, last_error := Some e\<rparr>"

lemma try_transition_state:
  "sidecar_state (try_transition nxt m)
     = (if valid_transition (sidecar_state m) nxt then nxt else sidecar_state m)"
  by (simp add: try_transition_def sidecar_transition_def)

lemma machine_state [simp]:
  "sidecar_state (healthy m) = sidecar_state m"
  "sidecar_state (degraded e m) = sidecar_state m"
  "sidecar_state (failed e m) = sidecar_state m"
  by (simp_all add: healthy_def degraded_def failed_def)

section \<open>Metrics\<close>

datatype capture_backend = NoBackend | Cpal | GstreamerOsx | Synthetic

fun backend_code :: "capture_backend \<Rightarrow> byte" where
  "backend_code NoBackend = 0"
| "backend_code Cpal = 1"
| "backend_code GstreamerOsx = 2"
| "backend_code Synthetic = 3"

definition backend_from_code :: "byte \<Rightarrow> capture_backend" where
  "backend_from_code c =
     (if c = 1 then Cpal else if c = 2 then GstreamerOsx else if c = 3 then Synthetic else NoBackend)"

lemma backend_from_code [simp]: "backend_from_code (backend_code b) = b"
  by (cases b) (simp_all add: backend_from_code_def)

record metrics =
  captured_samples :: u64
  capture_nonzero_samples :: u64
  capture_peak :: u64
  capture_silent_callbacks :: u64
  backend_cell :: byte
  consumed_samples :: u64
  dropped_stale_samples :: u64
  overruns :: u64
  underruns :: u64
  silence_samples :: u64
  buffers_pushed :: u64
  capture_restarts :: u64
  capture_errors :: u64
  pipeline_errors :: u64
  ring_depth_samples :: u64
  appsrc_queue_ns :: u64
  opus_packets_sent :: u64
  bytes_sent :: u64
  current_rtp_sequence :: u64

definition default_metrics :: metrics where
  "default_metrics = \<lparr>captured_samples = 0, capture_nonzero_samples = 0, capture_peak = 0,
     capture_silent_callbacks = 0, backend_cell = 0, consumed_samples = 0,
     dropped_stale_samples = 0, overruns = 0, underruns = 0, silence_samples = 0,
     buffers_pushed = 0, capture_restarts = 0, capture_errors = 0, pipeline_errors = 0,
     ring_depth_samples = 0, appsrc_queue_ns = 0, opus_packets_sent = 0, bytes_sent = 0,
     current_rtp_sequence = 0\<rparr>"

definition record_capture :: "u64 \<Rightarrow> u64 \<Rightarrow> u16 \<Rightarrow> u64 \<Rightarrow> bool \<Rightarrow> metrics \<Rightarrow> metrics" where
  "record_capture samples nonzero peak dropped over m =
     m\<lparr>captured_samples := captured_samples m + samples,
       capture_nonzero_samples := capture_nonzero_samples m + nonzero,
       capture_peak := ucast peak,
       capture_silent_callbacks := capture_silent_callbacks m
         + (if samples > 0 \<and> nonzero = 0 then 1 else 0),
       dropped_stale_samples := dropped_stale_samples m + dropped,
       overruns := overruns m + (if over then 1 else 0)\<rparr>"

definition set_capture_backend :: "capture_backend \<Rightarrow> metrics \<Rightarrow> metrics" where
  "set_capture_backend b m = m\<lparr>backend_cell := backend_code b, capture_peak := 0\<rparr>"

definition record_output :: "u64 \<Rightarrow> u64 \<Rightarrow> bool \<Rightarrow> metrics \<Rightarrow> metrics" where
  "record_output consumed silence missed m =
     m\<lparr>consumed_samples := consumed_samples m + consumed,
       silence_samples := silence_samples m + silence,
       buffers_pushed := buffers_pushed m + 1,
       underruns := underruns m + (if missed then 1 else 0)\<rparr>"

definition capture_restart :: "metrics \<Rightarrow> metrics" where
  "capture_restart m = m\<lparr>capture_restarts := capture_restarts m + 1\<rparr>"

definition capture_error :: "metrics \<Rightarrow> metrics" where
  "capture_error m = m\<lparr>capture_errors := capture_errors m + 1\<rparr>"

definition pipeline_error :: "metrics \<Rightarrow> metrics" where
  "pipeline_error m = m\<lparr>pipeline_errors := pipeline_errors m + 1\<rparr>"

definition set_ring_depth :: "nat \<Rightarrow> metrics \<Rightarrow> metrics" where
  "set_ring_depth n m = m\<lparr>ring_depth_samples := of_nat n\<rparr>"

definition set_appsrc_queue_ns :: "u64 \<Rightarrow> metrics \<Rightarrow> metrics" where
  "set_appsrc_queue_ns n m = m\<lparr>appsrc_queue_ns := n\<rparr>"

definition record_rtp_packet :: "nat \<Rightarrow> u16 \<Rightarrow> metrics \<Rightarrow> metrics" where
  "record_rtp_packet n sq m =
     m\<lparr>opus_packets_sent := opus_packets_sent m + 1, bytes_sent := bytes_sent m + of_nat n,
       current_rtp_sequence := ucast sq + 1\<rparr>"

record metrics_snapshot =
  snap_counters :: metrics
  snap_peak :: u16
  snap_backend :: capture_backend
  snap_appsrc_queue_ms :: u64
  snap_rtp_sequence :: "u16 option"
  sampled_at_unix_ms :: u64

definition metrics_snapshot :: "u64 \<Rightarrow> metrics \<Rightarrow> metrics_snapshot" where
  "metrics_snapshot unix_ms m =
     \<lparr>snap_counters = m, snap_peak = ucast (capture_peak m),
      snap_backend = backend_from_code (backend_cell m),
      snap_appsrc_queue_ms = appsrc_queue_ns m div 1000000,
      snap_rtp_sequence = (if current_rtp_sequence m = 0 then None
                           else Some (ucast (current_rtp_sequence m - 1))),
      sampled_at_unix_ms = unix_ms\<rparr>"

section \<open>Capturing and sending frames\<close>

definition TARGET_SAMPLE_RATE :: u32 where "TARGET_SAMPLE_RATE = 48000"
definition RING_MILLIS :: nat where "RING_MILLIS = 120"

definition frame_samples :: "u32 \<Rightarrow> u32 \<Rightarrow> nat" where
  "frame_samples sample_rate ms = (unat sample_rate * unat ms + 500) div 1000"

definition ring_capacity :: "u32 \<Rightarrow> nat" where
  "ring_capacity sample_rate = max (frame_samples sample_rate (of_nat RING_MILLIS)) 1"

record audio_input =
  input_ring :: audio_ring
  sample_rate :: u32
  generation :: u64

text \<open>\<^verbatim>\<open>i16::unsigned_abs\<close> on the two's complement pattern.\<close>

definition unsigned_abs :: "i16 \<Rightarrow> u16" where
  "unsigned_abs x = (if sint x < 0 then - x else x)"

definition peak_of :: "i16 list \<Rightarrow> u16" where
  "peak_of xs = fold (\<lambda>x m. max m (unsigned_abs x)) xs 0"

definition record_capture_slice ::
  "i16 list \<Rightarrow> audio_input \<times> metrics \<Rightarrow> audio_input \<times> metrics" where
  "record_capture_slice samples st =
     (let nonzero = length (filter (\<lambda>x. x \<noteq> 0) samples);
          peak = peak_of samples;
          (r, report) = push_slice samples (input_ring (fst st));
          m = record_capture (of_nat (length samples)) (of_nat nonzero) peak
                (of_nat (dropped_stale report)) (overrun report) (snd st)
      in ((fst st)\<lparr>input_ring := r\<rparr>, set_ring_depth (ring_len r) m))"

record timestamp_clock =
  next_pts_ns :: nat
  remainder :: nat

text \<open>
  \<^verbatim>\<open>TimestampClock::next\<close>. Positions are \<^verbatim>\<open>u64\<close>: the product wraps and the running sum
  saturates. A sample rate of zero is a division by zero, \<open>None\<close>.
\<close>

definition clock_next :: "nat \<Rightarrow> u32 \<Rightarrow> timestamp_clock \<Rightarrow> (timestamp_clock \<times> nat \<times> nat) option" where
  "clock_next samples rate c =
     (if rate = 0 then None
      else let numerator = wrap64 (samples * 1000000000 + remainder c);
               dur = numerator div unat rate
           in Some (\<lparr>next_pts_ns = saturating_add64 (next_pts_ns c) dur,
                     remainder = numerator mod unat rate\<rparr>, next_pts_ns c, dur))"

text \<open>
  One turn of the feeder: the frame that is sent, the ring and the counters after it. A muted
  session clears the ring and sends the zero-filled frame.
\<close>

definition feed_frame ::
  "bool \<Rightarrow> nat \<Rightarrow> u64 \<Rightarrow> audio_ring \<times> metrics \<Rightarrow> i16 list \<times> audio_ring \<times> metrics" where
  "feed_frame is_muted frame_len queue_ns st =
     (let frame = replicate frame_len 0;
          (r, consumed, frame') = (if is_muted then (ring_clear (fst st), 0, frame)
                                   else pop_slice frame (fst st));
          silence = length frame' - consumed;
          m = record_output (of_nat consumed) (of_nat silence) (\<not> is_muted \<and> silence > 0) (snd st)
      in (frame', r, set_appsrc_queue_ns queue_ns (set_ring_depth (ring_len r) m)))"

section \<open>Properties\<close>

fun clock_run :: "u32 \<Rightarrow> nat list \<Rightarrow> timestamp_clock \<Rightarrow> (timestamp_clock \<times> (nat \<times> nat) list) option" where
  "clock_run rate [] c = Some (c, [])"
| "clock_run rate (n # ns) c =
     Option.bind (clock_next n rate c) (\<lambda>(c', stamp).
     map_option (\<lambda>(c'', stamps). (c'', stamp # stamps)) (clock_run rate ns c'))"

text \<open>The clock after \<open>total\<close> samples: no rounding error is carried.\<close>

definition clock_at :: "nat \<Rightarrow> u32 \<Rightarrow> timestamp_clock" where
  "clock_at n rate = \<lparr>next_pts_ns = n * 1000000000 div unat rate,
     remainder = n * 1000000000 mod unat rate\<rparr>"

lemma clock_next_at:
  assumes "rate \<noteq> 0" and "n * 1000000000 + unat rate \<le> 2 ^ 64"
    and "(k + n) * 1000000000 div unat rate < 2 ^ 64"
  shows "clock_next n rate (clock_at k rate)
    = Some (clock_at (k + n) rate, k * 1000000000 div unat rate,
        (k + n) * 1000000000 div unat rate - k * 1000000000 div unat rate)"
proof -
  let ?R = "unat rate" and ?G = "1000000000 :: nat"
  have pos: "?R > 0" using assms(1) by (simp add: unat_gt_0)
  have "k * ?G mod ?R < ?R" using pos by simp
  then have "n * ?G + k * ?G mod ?R < 2 ^ 64" using assms(2) by linarith
  then have num: "wrap64 (n * ?G + k * ?G mod ?R) = n * ?G + k * ?G mod ?R" by (rule wrap64_id)
  have split: "(k + n) * ?G = (n * ?G + k * ?G mod ?R) + (k * ?G div ?R) * ?R"
    using div_mult_mod_eq [of "k * ?G" ?R] by (simp add: algebra_simps)
  have "(k + n) * ?G div ?R = k * ?G div ?R + (n * ?G + k * ?G mod ?R) div ?R"
    unfolding split using pos by (intro div_mult_self1) simp
  moreover have "(k + n) * ?G mod ?R = (n * ?G + k * ?G mod ?R) mod ?R"
    unfolding split by (rule mod_mult_self1)
  ultimately show ?thesis
    using assms(1,3) num
    by (simp add: clock_next_def clock_at_def Let_def saturating_add64_def)
qed

text \<open>The presentation times of the sent frames do not drift: whatever the frame sizes, the
  clock shows exactly the integer part of the elapsed samples in nanoseconds, every frame
  starts where the previous one ended, and its duration ends at the next exact time.\<close>

theorem timestamps_exact:
  assumes "rate \<noteq> 0" and "list_all (\<lambda>n. n * 1000000000 + unat rate \<le> 2 ^ 64) ns"
    and "(k + sum_list ns) * 1000000000 div unat rate < 2 ^ 64"
  shows "\<exists>stamps. clock_run rate ns (clock_at k rate) = Some (clock_at (k + sum_list ns) rate, stamps)
    \<and> length stamps = length ns
    \<and> (\<forall>i < length ns. stamps ! i =
         ((k + sum_list (take i ns)) * 1000000000 div unat rate,
          (k + sum_list (take (Suc i) ns)) * 1000000000 div unat rate
            - (k + sum_list (take i ns)) * 1000000000 div unat rate))"
  using assms
proof (induction ns arbitrary: k)
  case Nil
  then show ?case by simp
next
  case (Cons n ns)
  have "(k + n) * 1000000000 div unat rate \<le> (k + sum_list (n # ns)) * 1000000000 div unat rate"
    by (intro div_le_mono) simp
  then have nxt: "clock_next n rate (clock_at k rate) = Some (clock_at (k + n) rate,
      k * 1000000000 div unat rate,
      (k + n) * 1000000000 div unat rate - k * 1000000000 div unat rate)"
    using Cons.prems by (intro clock_next_at) auto
  obtain stamps where run: "clock_run rate ns (clock_at (k + n) rate)
        = Some (clock_at (k + n + sum_list ns) rate, stamps)" "length stamps = length ns"
      and at: "\<forall>i < length ns. stamps ! i =
         ((k + n + sum_list (take i ns)) * 1000000000 div unat rate,
          (k + n + sum_list (take (Suc i) ns)) * 1000000000 div unat rate
            - (k + n + sum_list (take i ns)) * 1000000000 div unat rate)"
    using Cons.IH [of "k + n"] Cons.prems by (auto simp: add.assoc)
  with nxt show ?case
    by (auto simp: nth_Cons less_Suc_eq_0_disj add.assoc split: nat.split)
qed

theorem timestamps_exact_witness:
  "\<exists>stamps. clock_run 44100 [441, 441] (clock_at 0 44100) = Some (clock_at 882 44100, stamps)
    \<and> length stamps = 2"
  using timestamps_exact [of 44100 "[441, 441]" 0] by auto

text \<open>What the sender puts on the wire: a muted session sends silence only and keeps no
  captured audio behind; otherwise the frame is the oldest captured audio, padded with silence,
  and exactly that audio leaves the ring.\<close>

theorem feed_frame_correct:
  assumes "ring_ok r"
  shows "case feed_frame is_muted n q (r, m) of (frame, r', m') \<Rightarrow>
    ring_ok r' \<and> length frame = n
    \<and> (if is_muted then frame = replicate n 0 \<and> contents r' = [] \<and> underruns m' = underruns m
       else frame = take n (contents r) @ replicate (n - length (contents r)) 0
          \<and> contents r' = drop n (contents r)
          \<and> (underruns m' = underruns m \<longleftrightarrow> n \<le> length (contents r)))"
proof (cases is_muted)
  case True
  have "ring_ok (ring_clear r)" using assms by (auto simp: ring_ok_def ring_clear_def)
  moreover have "contents (ring_clear r) = []" by (simp add: contents_def ring_clear_def)
  ultimately show ?thesis
    using True by (simp add: feed_frame_def record_output_def set_ring_depth_def set_appsrc_queue_ns_def)
next
  case False
  let ?k = "min n (length (contents r))"
  have pop: "pop_slice (replicate n 0) r = (r\<lparr>read_pos := read_pos r + ?k\<rparr>, ?k,
      take ?k (contents r) @ drop ?k (replicate n 0))"
    by (simp add: pop_slice_contents [OF assms] Let_def)
  have "ring_ok (r\<lparr>read_pos := read_pos r + ?k\<rparr>)"
    by (rule ring_ok_advance [OF assms min.cobounded2])
  moreover have "contents (r\<lparr>read_pos := read_pos r + ?k\<rparr>) = drop n (contents r)"
    by (simp add: contents_advance min_def)
  moreover have "take ?k (contents r) @ drop ?k (replicate n 0)
      = take n (contents r) @ replicate (n - length (contents r)) 0"
    by (simp add: min_def)
  ultimately show ?thesis
    using False unfolding feed_frame_def
    by (auto simp: Let_def pop record_output_def set_ring_depth_def set_appsrc_queue_ns_def
        simp del: length_contents)
qed

theorem feed_frame_correct_witness:
  "ring_ok demo_ring \<and> (case feed_frame True 3 0 (demo_ring, default_metrics) of (frame, r', m') \<Rightarrow>
     frame = replicate 3 0 \<and> contents r' = [])"
proof -
  have ok: "ring_ok demo_ring" by (simp add: ring_ok_def demo_ring_def)
  show ?thesis using ok feed_frame_correct [OF ok, where is_muted = True and n = 3 and q = 0 and m = default_metrics] by auto
qed

text \<open>Capture callbacks and unmuted frames, one after the other.\<close>

inductive mic_io :: "audio_input \<times> metrics \<Rightarrow> audio_input \<times> metrics \<Rightarrow> bool" for st where
  refl: "mic_io st st"
| captured: "mic_io st (a, m) \<Longrightarrow> room (input_ring a) (length xs) \<Longrightarrow>
    mic_io st (record_capture_slice xs (a, m))"
| sent: "mic_io st (a, m) \<Longrightarrow> feed_frame False n q (input_ring a, m) = (frame, r, m') \<Longrightarrow>
    mic_io st (a\<lparr>input_ring := r\<rparr>, m')"

definition accounted :: "audio_input \<times> metrics \<Rightarrow> bool" where
  "accounted st \<longleftrightarrow> captured_samples (snd st) =
     consumed_samples (snd st) + dropped_stale_samples (snd st)
       + of_nat (length (contents (input_ring (fst st))))"

lemma push_report_dropped:
  assumes "room r (length xs)"
  shows "length (contents r) + length xs
    = length (contents (fst (push_slice xs r))) + dropped_stale (snd (push_slice xs r))"
proof (cases "xs = []")
  case True
  then show ?thesis
    by (simp add: push_slice_def push_from_iter_def default_report_def del: length_contents)
next
  case False
  have le: "read_pos r \<le> write_pos r" "write_pos r - read_pos r \<le> capacity r"
    using assms by (auto simp: room_def ring_ok_def)
  then have "dropped_stale (snd (push_slice xs r)) = length (contents r) + length xs - capacity r"
    by (simp add: push_slice_nonempty [OF assms False] Let_def report_of_def)
  moreover have "length (contents (fst (push_slice xs r))) = min (capacity r) (length (contents r) + length xs)"
    by (simp only: contents_push [OF assms] length_newest length_append)
  ultimately show ?thesis by linarith
qed

lemma accounted_capture:
  assumes "accounted (a, m)" and "room (input_ring a) (length xs)"
  shows "accounted (record_capture_slice xs (a, m))"
proof -
  have "of_nat (length (contents (input_ring a))) + of_nat (length xs)
      = (of_nat (length (contents (fst (push_slice xs (input_ring a)))))
        + of_nat (dropped_stale (snd (push_slice xs (input_ring a)))) :: u64)"
    using push_report_dropped [OF assms(2)] by (metis of_nat_add)
  then show ?thesis
    using assms(1) unfolding accounted_def record_capture_slice_def
    by (simp add: Let_def record_capture_def set_ring_depth_def case_prod_beta algebra_simps
        del: length_contents)
qed

lemma accounted_feed:
  assumes "accounted (a, m)" and "ring_ok (input_ring a)"
    and "feed_frame False n q (input_ring a, m) = (frame, r, m')"
  shows "accounted (a\<lparr>input_ring := r\<rparr>, m') \<and> ring_ok r \<and> write_pos r = write_pos (input_ring a)"
proof -
  let ?r = "input_ring a"
  let ?k = "min n (length (contents ?r))"
  have pop: "pop_slice (replicate n 0) ?r = (?r\<lparr>read_pos := read_pos ?r + ?k\<rparr>, ?k,
      take ?k (contents ?r) @ drop ?k (replicate n 0))"
    by (simp add: pop_slice_contents [OF assms(2)] Let_def)
  have r: "r = ?r\<lparr>read_pos := read_pos ?r + ?k\<rparr>"
    and c: "consumed_samples m' = consumed_samples m + of_nat ?k"
      "captured_samples m' = captured_samples m" "dropped_stale_samples m' = dropped_stale_samples m"
    using assms(3) unfolding feed_frame_def
    by (auto simp: Let_def pop record_output_def set_ring_depth_def set_appsrc_queue_ns_def
        simp del: length_contents)
  have "of_nat (length (contents ?r)) = (of_nat ?k + of_nat (length (contents r)) :: u64)"
    unfolding r contents_advance
    by (metis add.commute le_add_diff_inverse2 length_drop min.cobounded2 of_nat_add)
  then show ?thesis
    using assms(1,2) ring_ok_advance [of ?r ?k] unfolding accounted_def
    by (simp add: c r algebra_simps del: length_contents)
qed

text \<open>No captured sample is unaccounted for: while a session is not muted, every sample the
  device delivered was sent, counted as dropped, or is still in the ring (in 64-bit counters).\<close>

theorem samples_accounted:
  assumes "mic_io (a, m) (a', m')" and "accounted (a, m)" and "ring_ok (input_ring a)"
  shows "ring_ok (input_ring a') \<and> captured_samples m' =
    consumed_samples m' + dropped_stale_samples m' + of_nat (length (contents (input_ring a')))"
proof -
  have "accounted st \<and> ring_ok (input_ring (fst st))"
    if "mic_io (a, m) st" for st
    using that
  proof (induction rule: mic_io.induct)
    case (captured a m xs)
    then show ?case
      using accounted_capture [of a m xs] ring_ok_push [of "input_ring a" xs]
      by (simp add: record_capture_slice_def Let_def case_prod_beta)
  next
    case (sent a m n q frame r m')
    then show ?case using accounted_feed [of a m n q frame r m'] by simp
  next
    case refl
    then show ?case using assms(2,3) by simp
  qed
  from this [OF assms(1)] show ?thesis by (simp add: accounted_def)
qed

theorem samples_accounted_witness:
  "\<exists>a' m'. record_capture_slice [3, 0] (\<lparr>input_ring = demo_ring, sample_rate = 48000, generation = 0\<rparr>,
      default_metrics) = (a', m') \<and> captured_samples m' =
    consumed_samples m' + dropped_stale_samples m' + of_nat (length (contents (input_ring a')))"
proof -
  let ?a = "\<lparr>input_ring = demo_ring, sample_rate = 48000, generation = 0\<rparr>"
  have ok: "ring_ok (input_ring ?a)" "room (input_ring ?a) (length [3, 0 :: i16])"
      "accounted (?a, default_metrics)"
    by (simp_all add: room_def ring_ok_def demo_ring_def accounted_def default_metrics_def contents_def)
  obtain a' m' where st: "record_capture_slice [3, 0] (?a, default_metrics) = (a', m')" by fastforce
  have "mic_io (?a, default_metrics) (a', m')"
    using mic_io.captured [OF mic_io.refl ok(2), of default_metrics] unfolding st .
  from samples_accounted [OF this ok(3,1)] st show ?thesis by blast
qed

end
