(* ===== verification/Mic_Daemon.thy ===== *)
theory Mic_Daemon
  imports Mic_Session
begin

text \<open>
  The microphone sidecar's daemon (\<^verbatim>\<open>mic-sidecar/src/main.rs\<close>, with
  \<^verbatim>\<open>CaptureController\<close> of \<^verbatim>\<open>capture.rs\<close>): requests, session start and stop, capture
  restarts, error signals and the periodic tick. GStreamer, the audio devices and the clock
  are a parameter, \<open>mic_env\<close>, which every operation may be given anew; the clock does not
  advance within one operation. What is written to standard output is kept in a log.
\<close>

section \<open>Data\<close>

record rtp_offsets =
  off_ssrc :: u32
  off_sequence :: u16
  off_timestamp :: u32

record pipeline_session =
  offsets :: rtp_offsets
  webrtc_dsp_enabled :: bool
  opus_bitrate :: u32

record capture_started =
  started_device_id :: string
  started_device_name :: string
  started_sample_rate :: u32
  started_backend :: capture_backend
  used_fallback :: bool

record device_info =
  dev_id :: string
  dev_name :: string
  is_default :: bool

record mic_env =
  now_ms :: nat
  unix_ms :: u64
  gst_start :: "session_config \<Rightarrow> (string, pipeline_session) result"
  open_capture :: "source_kind \<Rightarrow> string option \<Rightarrow> u64 \<Rightarrow> (string, audio_input \<times> capture_started) result"
  enumerate_devices :: "(string, device_info list) result"
  bus_error :: "string option"

record capture_controller =
  has_handle :: bool
  capture_generation :: u64
  controller_device_id :: "string option"

record status =
  st_session_id :: "string option"
  st_state :: sidecar_state
  st_health :: health
  st_muted :: bool
  st_selected_device_id :: "string option"
  st_active_device_id :: "string option"
  st_sample_rate :: u32
  st_backend :: capture_backend
  st_session_active :: bool
  st_last_error :: "string option"

datatype mic_event =
    StateChanged status
  | SessionStarted string rtp_offsets bool u16 u16
  | SessionStopped
  | MuteChanged bool
  | DeviceSelected "string option"
  | BitrateChanged u32
  | CaptureStarted capture_started
  | DeviceFallback string
  | CaptureRecovery string
  | CaptureError string
  | PipelineError string
  | DeviceChangeDetected "string option"
  | CaptureAudioDetected
  | CaptureSilenceDetected string

datatype response_result =
    Devices "device_info list"
  | StatusResult status
  | MetricsResult metrics_snapshot
  | SessionConfigResult session_config
  | Acknowledged bool

datatype mic_output = Response string "(string, response_result) result" | Event mic_event

record daemon =
  machine :: state_machine
  metrics :: metrics
  input :: audio_input
  capture :: capture_controller
  capture_rx :: "string list"
  pipeline :: "pipeline_session option"
  muted :: bool
  selected_device_id :: "string option"
  active_device_id :: "string option"
  session :: "session_config option"
  backend :: capture_backend
  capture_started_at :: "nat option"
  capture_nonzero_observed :: u64
  capture_last_nonzero_at :: "nat option"
  capture_silence_degraded :: bool
  retry_at :: nat
  next_device_poll :: nat
  log :: "mic_output list"

definition DEVICE_POLL_INTERVAL :: nat where "DEVICE_POLL_INTERVAL = 2000"
definition CAPTURE_RETRY_INTERVAL :: nat where "CAPTURE_RETRY_INTERVAL = 1000"
definition CAPTURE_SILENCE_DEGRADE_INTERVAL :: nat where "CAPTURE_SILENCE_DEGRADE_INTERVAL = 10000"
definition CAPTURE_SILENCE_ERROR :: string where
  "CAPTURE_SILENCE_ERROR = ''microphone capture is running but has produced only zero samples''"

definition silent_input :: audio_input where
  "silent_input = \<lparr>input_ring = the (ring_new (ring_capacity TARGET_SAMPLE_RATE)),
     sample_rate = TARGET_SAMPLE_RATE, generation = 0\<rparr>"

definition daemon_new :: "nat \<Rightarrow> daemon" where
  "daemon_new t = \<lparr>machine = default_machine, metrics = default_metrics, input = silent_input,
     capture = \<lparr>has_handle = False, capture_generation = 0, controller_device_id = None\<rparr>,
     capture_rx = [], pipeline = None, muted = False, selected_device_id = None,
     active_device_id = None, session = None, backend = NoBackend, capture_started_at = None,
     capture_nonzero_observed = 0, capture_last_nonzero_at = None,
     capture_silence_degraded = False, retry_at = t, next_device_poll = t, log = []\<rparr>"

section \<open>Events\<close>

definition status_of :: "daemon \<Rightarrow> status" where
  "status_of d = \<lparr>st_session_id = map_option session_id (session d),
     st_state = sidecar_state (machine d), st_health = health (machine d), st_muted = muted d,
     st_selected_device_id = selected_device_id d, st_active_device_id = active_device_id d,
     st_sample_rate = sample_rate (input d), st_backend = backend d,
     st_session_active = (pipeline d \<noteq> None), st_last_error = last_error (machine d)\<rparr>"

definition emit_event :: "mic_event \<Rightarrow> daemon \<Rightarrow> daemon" where
  "emit_event e d = d\<lparr>log := log d @ [Event e]\<rparr>"

definition emit_state :: "daemon \<Rightarrow> daemon" where
  "emit_state d = emit_event (StateChanged (status_of d)) d"

definition set_machine :: "(state_machine \<Rightarrow> state_machine) \<Rightarrow> daemon \<Rightarrow> daemon" where
  "set_machine f d = d\<lparr>machine := f (machine d)\<rparr>"

definition count :: "(metrics \<Rightarrow> metrics) \<Rightarrow> daemon \<Rightarrow> daemon" where
  "count f d = d\<lparr>metrics := f (metrics d)\<rparr>"

section \<open>Capture\<close>

definition capture_stop :: "capture_controller \<Rightarrow> capture_controller" where
  "capture_stop c = c\<lparr>has_handle := False, controller_device_id := None\<rparr>"

definition capture_start ::
  "mic_env \<Rightarrow> source_kind \<Rightarrow> daemon \<Rightarrow> daemon \<times> (string, capture_started) result" where
  "capture_start env src d =
     (let g = capture_generation (capture d) + 1;
          d1 = d\<lparr>capture := (capture d)\<lparr>capture_generation := g\<rparr>\<rparr>
      in case open_capture env src (selected_device_id d) g of
           Inl e \<Rightarrow> (d1, Inl e)
         | Inr (inp, started) \<Rightarrow>
             ((count (set_capture_backend (started_backend started)) d1)
                \<lparr>input := inp,
                 capture := (capture d1)\<lparr>has_handle := True,
                   controller_device_id := Some (started_device_id started)\<rparr>\<rparr>,
              Inr started))"

definition clear_capture_health :: "daemon \<Rightarrow> daemon" where
  "clear_capture_health d =
     count (set_capture_backend NoBackend)
       (d\<lparr>backend := NoBackend, capture_started_at := None,
          capture_nonzero_observed := capture_nonzero_samples (metrics d),
          capture_last_nonzero_at := None, capture_silence_degraded := False\<rparr>)"

definition halt_capture :: "daemon \<Rightarrow> daemon" where
  "halt_capture d =
     (clear_capture_health (d\<lparr>capture := capture_stop (capture d)\<rparr>))\<lparr>active_device_id := None\<rparr>"

definition fallback_message :: string where
  "fallback_message =
     ''selected device is unavailable; capturing from the default device while retrying''"

definition restart_capture ::
  "mic_env \<Rightarrow> session_config \<Rightarrow> daemon \<Rightarrow> daemon \<times> (string, unit) result" where
  "restart_capture env cfg d =
     (case capture_start env (source cfg) (count capture_restart d) of
        (d1, Inr started) \<Rightarrow>
          let d2 = d1\<lparr>active_device_id := Some (started_device_id started),
                backend := started_backend started, capture_started_at := Some (now_ms env),
                capture_nonzero_observed := capture_nonzero_samples (metrics d1),
                capture_last_nonzero_at := Some (now_ms env), capture_silence_degraded := False\<rparr>;
              d3 = emit_event (CaptureStarted started) d2;
              d4 = (if used_fallback started
                    then emit_event (DeviceFallback fallback_message)
                           ((set_machine (degraded fallback_message \<circ> try_transition Recovering) d3)
                              \<lparr>retry_at := now_ms env + CAPTURE_RETRY_INTERVAL\<rparr>)
                    else set_machine (healthy \<circ> try_transition Running) d3)
          in (emit_state d4, Inr ())
      | (d1, Inl e) \<Rightarrow>
          let d2 = count capture_error (halt_capture d1);
              d3 = (set_machine (degraded e \<circ> try_transition Recovering) d2)
                     \<lparr>retry_at := now_ms env + CAPTURE_RETRY_INTERVAL\<rparr>
          in (emit_state (emit_event (CaptureRecovery e) d3), Inl e))"

section \<open>Sessions\<close>

definition stop_session :: "daemon \<Rightarrow> daemon" where
  "stop_session d =
     (if pipeline d = None then d
      else let d1 = emit_state (set_machine (try_transition Stopping) d);
               d2 = halt_capture d1;
               d3 = d2\<lparr>pipeline := None, session := None, input := silent_input\<rparr>;
               d4 = set_machine (healthy \<circ> try_transition Idle) d3
           in emit_event SessionStopped (emit_state d4))"

definition pipeline_start ::
  "mic_env \<Rightarrow> session_config \<Rightarrow> (string, pipeline_session) result" where
  "pipeline_start env cfg = res_bind (session_validate cfg) (\<lambda>_. gst_start env cfg)"

definition start_session ::
  "mic_env \<Rightarrow> session_config \<Rightarrow> daemon \<Rightarrow> daemon \<times> (string, unit) result" where
  "start_session env cfg d =
     (if pipeline d \<noteq> None then (d, Inl ''a session is already active'')
      else case session_validate cfg of
        Inl e \<Rightarrow> (d, Inl e)
      | Inr _ \<Rightarrow>
          (case sidecar_transition Starting (machine d) of
             Inl e \<Rightarrow> (d, Inl e)
           | Inr m \<Rightarrow>
               let d1 = emit_state (d\<lparr>machine := m\<rparr>) in
               (case pipeline_start env cfg of
                  Inl e \<Rightarrow>
                    (emit_state (set_machine (failed e \<circ> try_transition Idle) d1), Inl e)
                | Inr p \<Rightarrow>
                    (case (resolved_rtcp_port cfg, resolved_rtcp_listen_port cfg) of
                       (Inr rtcp, Inr listen) \<Rightarrow>
                         let d2 = emit_event (SessionStarted (session_id cfg) (offsets p)
                                    (webrtc_dsp_enabled p) rtcp listen) d1;
                             d3 = d2\<lparr>pipeline := Some p, session := Some cfg\<rparr>
                         in (case restart_capture env cfg d3 of
                               (d4, Inr _) \<Rightarrow> (d4, Inr ())
                             | (d4, Inl e) \<Rightarrow>
                                 (emit_state (set_machine (failed e) (stop_session d4)),
                                  Inl (''microphone capture failed to start: '' @ e)))
                     | (Inl e, _) \<Rightarrow> (d1, Inl e)
                     | (Inr _, Inl e) \<Rightarrow> (d1, Inl e)))))"

definition shutdown :: "daemon \<Rightarrow> daemon" where
  "shutdown d = emit_state (set_machine (try_transition Shutdown) (stop_session d))"

definition chosen_device :: "string option \<Rightarrow> string option" where
  "chosen_device i = (case i of None \<Rightarrow> None
     | Some x \<Rightarrow> if \<not> is_blank x \<and> x \<noteq> ''default'' then Some x else None)"

definition select_device ::
  "mic_env \<Rightarrow> string option \<Rightarrow> daemon \<Rightarrow> daemon \<times> (string, unit) result" where
  "select_device env i d =
     (let d1 = d\<lparr>selected_device_id := chosen_device i\<rparr>;
          d2 = emit_event (DeviceSelected (selected_device_id d1)) d1
      in case session d2 of
           Some cfg \<Rightarrow> if source cfg = Microphone then restart_capture env cfg d2 else (d2, Inr ())
         | None \<Rightarrow> (d2, Inr ()))"

definition set_bitrate :: "u32 \<Rightarrow> daemon \<Rightarrow> daemon \<times> (string, unit) result" where
  "set_bitrate b d =
     (if \<not> bitrate_ok b then (d, Inl ''bitrate must be between 6000 and 128000 bits/s'')
      else let d1 = d\<lparr>pipeline := map_option (opus_bitrate_update (\<lambda>_. b)) (pipeline d),
                      session := map_option (bitrate_update (\<lambda>_. b)) (session d)\<rparr>
           in (emit_event (BitrateChanged b) d1, Inr ()))"

section \<open>Requests\<close>

datatype mic_command =
    ListDevices | GetStatus | SelectDevice "string option" | StartSession session_config
  | StopSession | Mute | Unmute | SetBitrate u32 | GetMetrics | ShutdownCmd

fun run_command ::
  "mic_env \<Rightarrow> mic_command \<Rightarrow> daemon \<Rightarrow> daemon \<times> (string, response_result) result" where
  "run_command env ListDevices d =
     (d, (case enumerate_devices env of Inl e \<Rightarrow> Inl e | Inr ds \<Rightarrow> Inr (Devices ds)))"
| "run_command env GetStatus d = (d, Inr (StatusResult (status_of d)))"
| "run_command env (SelectDevice i) d =
     (case select_device env i d of
        (d', Inl e) \<Rightarrow> (d', Inl e) | (d', Inr _) \<Rightarrow> (d', Inr (StatusResult (status_of d'))))"
| "run_command env (StartSession cfg) d =
     (case start_session env cfg d of
        (d', Inl e) \<Rightarrow> (d', Inl e) | (d', Inr _) \<Rightarrow> (d', Inr (SessionConfigResult cfg)))"
| "run_command env StopSession d = (stop_session d, Inr (Acknowledged True))"
| "run_command env Mute d =
     (let d' = emit_event (MuteChanged True) (d\<lparr>muted := True\<rparr>) in (d', Inr (StatusResult (status_of d'))))"
| "run_command env Unmute d =
     (let d' = emit_event (MuteChanged False) (d\<lparr>muted := False\<rparr>) in (d', Inr (StatusResult (status_of d'))))"
| "run_command env (SetBitrate b) d =
     (case set_bitrate b d of
        (d', Inl e) \<Rightarrow> (d', Inl e) | (d', Inr _) \<Rightarrow> (d', Inr (Acknowledged True)))"
| "run_command env GetMetrics d = (d, Inr (MetricsResult (metrics_snapshot (unix_ms env) (metrics d))))"
| "run_command env ShutdownCmd d = (shutdown d, Inr (Acknowledged True))"

definition handle_request :: "mic_env \<Rightarrow> string \<Rightarrow> mic_command \<Rightarrow> daemon \<Rightarrow> daemon" where
  "handle_request env i cmd d =
     (case run_command env cmd d of (d', res) \<Rightarrow> d'\<lparr>log := log d' @ [Response i res]\<rparr>)"

section \<open>The periodic tick\<close>

definition capture_failed :: "mic_env \<Rightarrow> string \<Rightarrow> daemon \<Rightarrow> daemon" where
  "capture_failed env e d =
     (let d1 = halt_capture (count capture_error d);
          d2 = (set_machine (degraded (''microphone capture stream failed: '' @ e)
                  \<circ> try_transition Recovering) d1)
                 \<lparr>retry_at := now_ms env + CAPTURE_RETRY_INTERVAL\<rparr>
      in emit_state (emit_event (CaptureError e) d2))"

definition drain_signals :: "mic_env \<Rightarrow> daemon \<Rightarrow> daemon" where
  "drain_signals env d = fold (capture_failed env) (capture_rx d) (d\<lparr>capture_rx := []\<rparr>)"

definition poll_pipeline :: "mic_env \<Rightarrow> daemon \<Rightarrow> daemon" where
  "poll_pipeline env d =
     (case (pipeline d, bus_error env) of
        (Some _, Some e) \<Rightarrow>
          emit_state (emit_event (PipelineError e) (set_machine (failed e) (count pipeline_error d)))
      | _ \<Rightarrow> d)"

definition update_capture_health :: "nat \<Rightarrow> daemon \<Rightarrow> daemon" where
  "update_capture_health t d =
     (case capture_started_at d of
        None \<Rightarrow> d
      | Some started_at \<Rightarrow>
          let nonzero = capture_nonzero_samples (metrics d) in
          if nonzero > capture_nonzero_observed d then
            let d1 = d\<lparr>capture_nonzero_observed := nonzero, capture_last_nonzero_at := Some t\<rparr> in
            if capture_silence_degraded d1 then
              let d2 = d1\<lparr>capture_silence_degraded := False\<rparr> in
              if health (machine d2) = Degraded
                 \<and> last_error (machine d2) = Some CAPTURE_SILENCE_ERROR
              then emit_state (emit_event CaptureAudioDetected (set_machine healthy d2))
              else d2
            else d1
          else
            let silent_since = (case capture_last_nonzero_at d of Some x \<Rightarrow> x | None \<Rightarrow> started_at) in
            if \<not> capture_silence_degraded d \<and> sidecar_state (machine d) = Running
               \<and> t - silent_since \<ge> CAPTURE_SILENCE_DEGRADE_INTERVAL
            then emit_state (emit_event (CaptureSilenceDetected CAPTURE_SILENCE_ERROR)
                   (set_machine (degraded CAPTURE_SILENCE_ERROR)
                     (d\<lparr>capture_silence_degraded := True\<rparr>)))
            else d)"

definition device_available :: "mic_env \<Rightarrow> string \<Rightarrow> bool" where
  "device_available env i =
     (case enumerate_devices env of Inl _ \<Rightarrow> False
      | Inr ds \<Rightarrow> \<exists>x \<in> set ds. dev_id x = i \<or> dev_name x = i)"

definition current_default_device_id :: "mic_env \<Rightarrow> string option" where
  "current_default_device_id env =
     (case enumerate_devices env of Inl _ \<Rightarrow> None
      | Inr ds \<Rightarrow> map_option dev_id (find is_default ds))"

definition should_restart :: "mic_env \<Rightarrow> daemon \<Rightarrow> bool" where
  "should_restart env d =
     (case selected_device_id d of
        Some p \<Rightarrow> controller_device_id (capture d) \<noteq> Some p \<or> \<not> device_available env p
      | None \<Rightarrow> current_default_device_id env \<noteq> controller_device_id (capture d))"

definition watch_device :: "mic_env \<Rightarrow> session_config \<Rightarrow> daemon \<Rightarrow> daemon" where
  "watch_device env cfg d0 =
     (let d = update_capture_health (now_ms env) d0 in
      if controller_device_id (capture d) = None \<and> now_ms env \<ge> retry_at d
      then fst (restart_capture env cfg d)
      else if now_ms env < next_device_poll d then d
      else
        let d1 = d\<lparr>next_device_poll := now_ms env + DEVICE_POLL_INTERVAL\<rparr> in
        if should_restart env d1
        then fst (restart_capture env cfg
                   (emit_event (DeviceChangeDetected (selected_device_id d1)) d1))
        else d1)"

definition daemon_tick :: "mic_env \<Rightarrow> daemon \<Rightarrow> daemon" where
  "daemon_tick env d0 =
     (let d = poll_pipeline env (drain_signals env d0) in
      case session d of
        None \<Rightarrow> d
      | Some cfg \<Rightarrow> if source cfg = Sine then d else watch_device env cfg d)"

section \<open>The session invariant\<close>

definition capture_agrees :: "daemon \<Rightarrow> bool" where
  "capture_agrees d \<longleftrightarrow>
     controller_device_id (capture d) = active_device_id d
     \<and> has_handle (capture d) = (active_device_id d \<noteq> None)
     \<and> has_handle (capture d) = (capture_started_at d \<noteq> None)
     \<and> (capture_silence_degraded d \<longrightarrow> has_handle (capture d))"

definition daemon_inv :: "daemon \<Rightarrow> bool" where
  "daemon_inv d \<longleftrightarrow> capture_agrees d \<and>
     (case session d of
        None \<Rightarrow> pipeline d = None \<and> sidecar_state (machine d) = Idle \<and> \<not> has_handle (capture d)
      | Some c \<Rightarrow> pipeline d \<noteq> None \<and> session_validate c = Inr ()
          \<and> (sidecar_state (machine d) = Running \<and> has_handle (capture d)
              \<or> sidecar_state (machine d) = Recovering))"

text \<open>What the invariant reads, field by field, after each helper.\<close>

lemma emit_fields [simp]:
  "machine (emit_event e d) = machine d" "capture (emit_event e d) = capture d"
  "pipeline (emit_event e d) = pipeline d" "session (emit_event e d) = session d"
  "active_device_id (emit_event e d) = active_device_id d"
  "capture_started_at (emit_event e d) = capture_started_at d"
  "capture_silence_degraded (emit_event e d) = capture_silence_degraded d"
  "selected_device_id (emit_event e d) = selected_device_id d"
  "muted (emit_event e d) = muted d" "metrics (emit_event e d) = metrics d"
  "retry_at (emit_event e d) = retry_at d"
  by (simp_all add: emit_event_def)

lemma emit_state_fields [simp]:
  "machine (emit_state d) = machine d" "capture (emit_state d) = capture d"
  "pipeline (emit_state d) = pipeline d" "session (emit_state d) = session d"
  "active_device_id (emit_state d) = active_device_id d"
  "capture_started_at (emit_state d) = capture_started_at d"
  "capture_silence_degraded (emit_state d) = capture_silence_degraded d"
  "selected_device_id (emit_state d) = selected_device_id d"
  "muted (emit_state d) = muted d" "metrics (emit_state d) = metrics d"
  "retry_at (emit_state d) = retry_at d"
  by (simp_all add: emit_state_def)

lemma set_machine_fields [simp]:
  "machine (set_machine f d) = f (machine d)" "capture (set_machine f d) = capture d"
  "pipeline (set_machine f d) = pipeline d" "session (set_machine f d) = session d"
  "active_device_id (set_machine f d) = active_device_id d"
  "capture_started_at (set_machine f d) = capture_started_at d"
  "capture_silence_degraded (set_machine f d) = capture_silence_degraded d"
  "selected_device_id (set_machine f d) = selected_device_id d"
  "muted (set_machine f d) = muted d" "metrics (set_machine f d) = metrics d"
  by (simp_all add: set_machine_def)

lemma count_fields [simp]:
  "machine (count f d) = machine d" "capture (count f d) = capture d"
  "pipeline (count f d) = pipeline d" "session (count f d) = session d"
  "active_device_id (count f d) = active_device_id d"
  "capture_started_at (count f d) = capture_started_at d"
  "capture_silence_degraded (count f d) = capture_silence_degraded d"
  "selected_device_id (count f d) = selected_device_id d"
  "muted (count f d) = muted d" "metrics (count f d) = f (metrics d)"
  by (simp_all add: count_def)

lemma halt_capture_fields [simp]:
  "machine (halt_capture d) = machine d" "pipeline (halt_capture d) = pipeline d"
  "session (halt_capture d) = session d" "selected_device_id (halt_capture d) = selected_device_id d"
  "muted (halt_capture d) = muted d" "capture (halt_capture d) = capture_stop (capture d)"
  "active_device_id (halt_capture d) = None" "capture_started_at (halt_capture d) = None"
  "\<not> capture_silence_degraded (halt_capture d)"
  by (simp_all add: halt_capture_def clear_capture_health_def)

lemma halt_capture_agrees [simp]: "capture_agrees (halt_capture d)" "\<not> has_handle (capture (halt_capture d))"
  by (simp_all add: capture_agrees_def halt_capture_def clear_capture_health_def capture_stop_def)

lemma capture_agrees_emit [simp]:
  "capture_agrees (emit_event e d) = capture_agrees d"
  "capture_agrees (emit_state d) = capture_agrees d"
  "capture_agrees (set_machine f d) = capture_agrees d"
  "capture_agrees (count g d) = capture_agrees d"
  "capture_agrees (d\<lparr>retry_at := x\<rparr>) = capture_agrees d"
  "capture_agrees (d\<lparr>pipeline := p\<rparr>) = capture_agrees d"
  "capture_agrees (d\<lparr>session := s\<rparr>) = capture_agrees d"
  "capture_agrees (d\<lparr>input := i\<rparr>) = capture_agrees d"
  by (simp_all add: capture_agrees_def)

text \<open>Restarting the capture of an open session.\<close>

definition open_state :: "daemon \<Rightarrow> bool" where
  "open_state d \<longleftrightarrow> sidecar_state (machine d) \<in> {Starting, Running, Recovering}"

lemma try_transition_open:
  "s \<in> {Starting, Running, Recovering} \<Longrightarrow> nxt \<in> {Running, Recovering} \<Longrightarrow> valid_transition s nxt"
  by (cases s; cases nxt) simp_all

lemma restart_capture_ok:
  assumes "restart_capture env cfg d = (d', res)" and "open_state d"
  shows "capture_agrees d' \<and> session d' = session d \<and> pipeline d' = pipeline d \<and> muted d' = muted d
    \<and> (case res of
         Inr _ \<Rightarrow> has_handle (capture d') \<and> sidecar_state (machine d') \<in> {Running, Recovering}
       | Inl e \<Rightarrow> \<not> has_handle (capture d') \<and> sidecar_state (machine d') = Recovering
           \<and> health (machine d') = Degraded \<and> last_error (machine d') = Some e)"
  using assms
  by (auto simp: restart_capture_def capture_start_def Let_def capture_agrees_def open_state_def
      capture_stop_def try_transition_state try_transition_open degraded_def
      split: sum.splits prod.splits if_splits)

lemma daemon_inv_open: "daemon_inv d \<Longrightarrow> session d = Some c \<Longrightarrow> open_state d"
  by (auto simp: daemon_inv_def open_state_def)

lemma restart_capture_inv:
  assumes "restart_capture env cfg d = (d', res)" and "daemon_inv d" and "session d = Some c"
  shows "daemon_inv d'"
  using restart_capture_ok [OF assms(1) daemon_inv_open [OF assms(2,3)]] assms(2,3)
  by (auto simp: daemon_inv_def split: sum.splits)

lemma stop_session_ok:
  assumes "capture_agrees d" and "pipeline d \<noteq> None" and "sidecar_state (machine d) \<in> {Running, Recovering}"
  shows "daemon_inv (stop_session d) \<and> session (stop_session d) = None
    \<and> health (machine (stop_session d)) = Healthy"
  using assms
  by (auto simp: stop_session_def daemon_inv_def Let_def try_transition_state healthy_def capture_agrees_def
      capture_stop_def)

lemma stop_session_inv: "daemon_inv d \<Longrightarrow> daemon_inv (stop_session d) \<and> session (stop_session d) = None"
  using stop_session_ok [of d] by (cases "session d") (auto simp: daemon_inv_def stop_session_def)

lemma daemon_inv_emit [simp]:
  "daemon_inv (emit_event e d) = daemon_inv d" "daemon_inv (emit_state d) = daemon_inv d"
  "daemon_inv (set_machine (failed x) d) = daemon_inv d"
  "daemon_inv (set_machine (degraded x) d) = daemon_inv d"
  "daemon_inv (set_machine healthy d) = daemon_inv d"
  "daemon_inv (count g d) = daemon_inv d"
  by (simp_all add: daemon_inv_def split: option.split)

lemma daemon_inv_other [simp]:
  "daemon_inv (d\<lparr>log := l\<rparr>) = daemon_inv d" "daemon_inv (d\<lparr>muted := b\<rparr>) = daemon_inv d"
  "daemon_inv (d\<lparr>selected_device_id := i\<rparr>) = daemon_inv d"
  "daemon_inv (d\<lparr>capture_rx := q\<rparr>) = daemon_inv d"
  "daemon_inv (d\<lparr>next_device_poll := n\<rparr>) = daemon_inv d"
  "daemon_inv (d\<lparr>retry_at := n\<rparr>) = daemon_inv d"
  "daemon_inv (d\<lparr>metrics := m\<rparr>) = daemon_inv d"
  "daemon_inv (d\<lparr>input := a\<rparr>) = daemon_inv d"
  by (simp_all add: daemon_inv_def capture_agrees_def split: option.split)

lemma start_session_ok:
  assumes "start_session env cfg d = (d', res)" and "daemon_inv d"
  shows "daemon_inv d' \<and> (case res of
      Inr _ \<Rightarrow> session d' = Some cfg \<and> session d = None
    | Inl e \<Rightarrow> session d' = session d \<and>
        (d' = d \<or> session d = None \<and> health (machine d') = Failed))"
proof (cases "session d")
  case (Some c)
  then show ?thesis using assms by (auto simp: start_session_def daemon_inv_def)
next
  case None
  then have idle: "pipeline d = None" "sidecar_state (machine d) = Idle" "capture_agrees d"
      "\<not> has_handle (capture d)"
    using assms(2) by (auto simp: daemon_inv_def)
  show ?thesis
  proof (cases "session_validate cfg")
    case (Inl e)
    then show ?thesis using assms idle None by (auto simp: start_session_def split: sum.splits)
  next
    case (Inr u)
    then have valid: "session_validate cfg = Inr ()" by simp
    obtain rtcp listen where ports: "resolved_rtcp_port cfg = Inr rtcp"
        "resolved_rtcp_listen_port cfg = Inr listen"
      using valid by (auto simp: session_validate_ok_iff is_ok_def split: sum.splits)
    define d1 where "d1 = emit_state (d\<lparr>machine := (machine d)\<lparr>sidecar_state := Starting\<rparr>\<rparr>)"
    have d1: "capture_agrees d1" "sidecar_state (machine d1) = Starting" "pipeline d1 = None"
        "session d1 = None" "\<not> has_handle (capture d1)"
      using idle None by (simp_all add: d1_def capture_agrees_def)
    have tr: "sidecar_transition Starting (machine d) = Inr ((machine d)\<lparr>sidecar_state := Starting\<rparr>)"
      using idle by (simp add: sidecar_transition_def)
    show ?thesis
    proof (cases "pipeline_start env cfg")
      case (Inl e)
      then show ?thesis
        using assms(1) idle None d1 valid
        by (auto simp: start_session_def tr Let_def d1_def [symmetric] daemon_inv_def
            try_transition_state failed_def)
    next
      case (Inr p)
      define d3 where "d3 = (emit_event (SessionStarted (session_id cfg) (offsets p)
          (webrtc_dsp_enabled p) rtcp listen) d1)\<lparr>pipeline := Some p, session := Some cfg\<rparr>"
      have d3: "open_state d3" "session d3 = Some cfg" "pipeline d3 = Some p"
        using d1 by (simp_all add: d3_def open_state_def)
      obtain d4 r4 where re: "restart_capture env cfg d3 = (d4, r4)" by fastforce
      note ok = restart_capture_ok [OF re d3(1)]
      have "start_session env cfg d = (case r4 of Inr _ \<Rightarrow> (d4, Inr ())
          | Inl e \<Rightarrow> (emit_state (set_machine (failed e) (stop_session d4)),
              Inl (''microphone capture failed to start: '' @ e)))"
        using idle valid Inr ports re
        by (simp add: start_session_def tr Let_def d1_def [symmetric] d3_def [symmetric] split: sum.split)
      note out = trans [OF assms(1) [symmetric] this]
      show ?thesis
        using ok out d3 valid None stop_session_ok [of d4]
        by (cases r4) (auto simp: daemon_inv_def failed_def)
    qed
  qed
qed

lemma capture_failed_inv: "daemon_inv d \<Longrightarrow> daemon_inv (capture_failed env e d)"
  by (cases "session d")
     (auto simp: capture_failed_def Let_def daemon_inv_def try_transition_state capture_stop_def)

lemma drain_signals_inv:
  assumes "daemon_inv d"
  shows "daemon_inv (drain_signals env d)"
proof -
  have "daemon_inv e \<Longrightarrow> daemon_inv (fold (capture_failed env) q e)" for q e
    by (induction q arbitrary: e) (auto intro: capture_failed_inv)
  then show ?thesis using assms by (simp add: drain_signals_def)
qed

lemma poll_pipeline_inv: "daemon_inv d \<Longrightarrow> daemon_inv (poll_pipeline env d)"
  by (auto simp: poll_pipeline_def split: option.split)

lemma daemon_inv_observed [simp]:
  "daemon_inv (d\<lparr>capture_nonzero_observed := n\<rparr>) = daemon_inv d"
  "daemon_inv (d\<lparr>capture_last_nonzero_at := x\<rparr>) = daemon_inv d"
  by (simp_all add: daemon_inv_def capture_agrees_def split: option.split)

lemma daemon_inv_silence:
  "daemon_inv d \<Longrightarrow> (b \<longrightarrow> capture_started_at d \<noteq> None) \<Longrightarrow>
   daemon_inv (d\<lparr>capture_silence_degraded := b\<rparr>)"
  by (auto simp: daemon_inv_def capture_agrees_def split: option.splits)

lemma update_capture_health_inv: "daemon_inv d \<Longrightarrow> daemon_inv (update_capture_health t d)"
  by (simp add: update_capture_health_def Let_def daemon_inv_silence split: option.split)

lemma update_capture_health_session [simp]:
  "session (update_capture_health t d) = session d"
  by (simp add: update_capture_health_def Let_def split: option.split)

lemma watch_device_inv:
  assumes "daemon_inv d" and "session d = Some c"
  shows "daemon_inv (watch_device env cfg d)"
proof -
  let ?d = "update_capture_health (now_ms env) d"
  let ?e = "?d\<lparr>next_device_poll := now_ms env + DEVICE_POLL_INTERVAL\<rparr>"
  have inv: "daemon_inv ?d" "session ?d = Some c"
    using assms by (simp_all add: update_capture_health_inv)
  have "daemon_inv (fst (restart_capture env cfg x))" if "daemon_inv x" "session x = Some c" for x
    using restart_capture_inv [of env cfg x, OF _ that] by (metis prod.collapse)
  from this [of ?d] this [of "emit_event (DeviceChangeDetected (selected_device_id ?e)) ?e"] inv
  show ?thesis by (simp add: watch_device_def Let_def)
qed

lemma daemon_tick_inv:
  assumes "daemon_inv d"
  shows "daemon_inv (daemon_tick env d)"
proof -
  let ?d = "poll_pipeline env (drain_signals env d)"
  have inv: "daemon_inv ?d" using assms by (intro poll_pipeline_inv drain_signals_inv)
  then show ?thesis
    using watch_device_inv [OF inv] by (auto simp: daemon_tick_def Let_def split: option.split)
qed

lemma session_validate_bitrate:
  "session_validate c = Inr () \<Longrightarrow> bitrate_ok b \<Longrightarrow> session_validate (c\<lparr>bitrate := b\<rparr>) = Inr ()"
  by (auto simp: session_validate_ok_iff resolved_rtcp_port_def resolved_rtcp_listen_port_def
      split: option.splits)

lemma set_bitrate_inv:
  assumes "daemon_inv d" and "set_bitrate b d = (d', res)"
  shows "daemon_inv d'"
proof (cases "bitrate_ok b")
  case True
  then have d': "d' = emit_event (BitrateChanged b)
      (d\<lparr>pipeline := map_option (opus_bitrate_update (\<lambda>_. b)) (pipeline d),
         session := map_option (bitrate_update (\<lambda>_. b)) (session d)\<rparr>)"
    using assms(2) by (simp add: set_bitrate_def Let_def)
  show ?thesis
  proof (cases "session d")
    case None
    then show ?thesis using assms(1) by (simp add: d' daemon_inv_def)
  next
    case (Some c)
    then show ?thesis
      using assms(1) session_validate_bitrate [OF _ True, of c]
      by (simp add: d' daemon_inv_def)
  qed
next
  case False
  then show ?thesis using assms by (simp add: set_bitrate_def)
qed

lemma select_device_inv:
  assumes "daemon_inv d" and "select_device env i d = (d', res)"
  shows "daemon_inv d'"
proof (cases "session d")
  case None
  then show ?thesis using assms by (auto simp: select_device_def Let_def)
next
  case (Some c)
  let ?e = "emit_event (DeviceSelected (chosen_device i)) (d\<lparr>selected_device_id := chosen_device i\<rparr>)"
  have "daemon_inv ?e" "session ?e = Some c" using assms(1) Some by simp_all
  then show ?thesis
    using assms(2) Some restart_capture_inv [of env c ?e d' res]
    by (auto simp: select_device_def Let_def split: if_splits)
qed

lemma run_command_inv:
  assumes "daemon_inv d" and "cmd \<noteq> ShutdownCmd" and "run_command env cmd d = (d', res)"
  shows "daemon_inv d'"
  using assms stop_session_inv [OF assms(1)] select_device_inv [OF assms(1)] set_bitrate_inv [OF assms(1)]
    start_session_ok [OF _ assms(1)]
  by (cases cmd) (auto simp: Let_def split: prod.splits sum.splits)

section \<open>Reachable states\<close>

text \<open>
  The daemon between two turns of \<^verbatim>\<open>run_daemon\<close>: requests and ticks, in an environment that
  may be different each time, and the capture and sender threads, which change the counters,
  the shared ring and the queue of error signals at any time.
\<close>

inductive mic_reachable :: "daemon \<Rightarrow> bool" where
  start: "mic_reachable (daemon_new t)"
| request: "mic_reachable d \<Longrightarrow> cmd \<noteq> ShutdownCmd \<Longrightarrow> mic_reachable (handle_request env i cmd d)"
| invalid: "mic_reachable d \<Longrightarrow> mic_reachable (d\<lparr>log := log d @ [Response i (Inl e)]\<rparr>)"
| tick: "mic_reachable d \<Longrightarrow> mic_reachable (daemon_tick env d)"
| signal: "mic_reachable d \<Longrightarrow> mic_reachable (d\<lparr>capture_rx := capture_rx d @ [e]\<rparr>)"
| threads: "mic_reachable d \<Longrightarrow> mic_reachable (d\<lparr>metrics := m, input := a\<rparr>)"

lemma mic_reachable_inv: "mic_reachable d \<Longrightarrow> daemon_inv d"
proof (induction rule: mic_reachable.induct)
  case (start t)
  show ?case
    by (simp add: daemon_inv_def capture_agrees_def daemon_new_def default_machine_def)
next
  case (request d cmd env i)
  then show ?case
    using run_command_inv [of d cmd env] by (auto simp: handle_request_def split: prod.split)
qed (auto intro: daemon_tick_inv)

section \<open>Properties\<close>

text \<open>An environment with one working device, for the witnesses.\<close>

definition demo_config :: session_config where
  "demo_config = \<lparr>session_id = ''s'', host = ''h'', rtp_port = 5004, rtcp_port = None,
     rtcp_listen_port = 0, bitrate = 32000, frame_ms = 10, fec = False, packet_loss_percent = 5,
     dtx = False, ssrc = None, sequence_offset = None, timestamp_offset = None,
     source = Microphone\<rparr>"

definition demo_env :: mic_env where
  "demo_env = \<lparr>now_ms = 0, unix_ms = 0,
     gst_start = (\<lambda>c. Inr \<lparr>offsets = \<lparr>off_ssrc = 1, off_sequence = 1, off_timestamp = 1\<rparr>,
       webrtc_dsp_enabled = False, opus_bitrate = bitrate c\<rparr>),
     open_capture = (\<lambda>src dev g. Inr (\<lparr>input_ring = demo_ring, sample_rate = 48000, generation = g\<rparr>,
       \<lparr>started_device_id = ''mic'', started_device_name = ''Mic'', started_sample_rate = 48000,
        started_backend = Cpal, used_fallback = False\<rparr>)),
     enumerate_devices = Inr [], bus_error = None\<rparr>"

definition demo_running :: daemon where
  "demo_running = handle_request demo_env ''1'' (StartSession demo_config) (daemon_new 0)"

lemma demo_running_reachable: "mic_reachable demo_running"
  unfolding demo_running_def by (intro mic_reachable.request mic_reachable.start) simp

lemma demo_config_valid: "session_validate demo_config = Inr ()"
proof -
  have "\<not> is_blank ''s''" "\<not> is_blank ''h''"
    by code_simp+
  then show ?thesis
    by (simp add: session_validate_ok_iff demo_config_def resolved_rtcp_port_def
        resolved_rtcp_listen_port_def checked_add16_def bitrate_ok_def)
qed

text \<open>C29: whatever requests, device failures and thread activity happened, the daemon is in one
  of two situations: no session, state Idle, nothing captured; or one session with a valid
  configuration and a running sender, whose state is Recovering, or Running with an open
  capture. Starting and Stopping are never visible between turns.\<close>

theorem sidecar_session_consistent:
  assumes "mic_reachable d"
  shows "(session d = None \<and> pipeline d = None \<and> sidecar_state (machine d) = Idle
      \<and> \<not> has_handle (capture d) \<and> active_device_id d = None)
    \<or> (\<exists>c. session d = Some c \<and> pipeline d \<noteq> None \<and> session_validate c = Inr ()
      \<and> (sidecar_state (machine d) = Recovering
         \<or> sidecar_state (machine d) = Running \<and> has_handle (capture d))
      \<and> controller_device_id (capture d) = active_device_id d
      \<and> has_handle (capture d) = (active_device_id d \<noteq> None))"
  using mic_reachable_inv [OF assms]
  by (auto simp: daemon_inv_def capture_agrees_def split: option.splits)

theorem sidecar_session_consistent_witness:
  "session demo_running = Some demo_config \<and> sidecar_state (machine demo_running) = Running
   \<and> pipeline demo_running \<noteq> None \<and> has_handle (capture demo_running)"
proof -
  have run: "session demo_running = Some demo_config" "sidecar_state (machine demo_running) = Running"
    using demo_config_valid
    by (simp_all add: demo_running_def handle_request_def start_session_def daemon_new_def
        default_machine_def sidecar_transition_def pipeline_start_def demo_env_def restart_capture_def
        capture_start_def try_transition_state Let_def resolved_rtcp_port_def
        resolved_rtcp_listen_port_def checked_add16_def demo_config_def)
  then show ?thesis using sidecar_session_consistent [OF demo_running_reachable] by auto
qed

text \<open>C30: starting a session is all or nothing: it succeeds only when none was active and leaves
  exactly the requested one; when it fails, no session is left behind, and either nothing at all
  changed or the failure is reported in the health.\<close>

theorem start_session_all_or_nothing:
  assumes "mic_reachable d" and "start_session env cfg d = (d', res)"
  shows "case res of
      Inr _ \<Rightarrow> session d = None \<and> session d' = Some cfg \<and> pipeline d' \<noteq> None
        \<and> (sidecar_state (machine d') = Running \<and> has_handle (capture d')
           \<or> sidecar_state (machine d') = Recovering)
    | Inl e \<Rightarrow> session d' = session d \<and> (d' = d \<or> session d' = None \<and> pipeline d' = None
        \<and> sidecar_state (machine d') = Idle \<and> health (machine d') = Failed)"
  using start_session_ok [OF assms(2) mic_reachable_inv [OF assms(1)]]
  by (auto simp: daemon_inv_def split: sum.splits option.splits)

theorem start_session_all_or_nothing_witness:
  "fst (start_session demo_env demo_config demo_running) = demo_running
    \<or> health (machine (fst (start_session demo_env demo_config demo_running))) = Failed"
proof -
  have act: "start_session demo_env demo_config demo_running
      = (demo_running, Inl ''a session is already active'')"
    using demo_config_valid
    by (simp add: demo_running_def handle_request_def start_session_def daemon_new_def
        default_machine_def sidecar_transition_def pipeline_start_def demo_env_def restart_capture_def
        capture_start_def Let_def resolved_rtcp_port_def
        resolved_rtcp_listen_port_def checked_add16_def demo_config_def)
  show ?thesis
    using start_session_all_or_nothing [OF demo_running_reachable act] act by auto
qed

text \<open>Shutting down ends in state Shutdown with no session, no sender and no capture.\<close>

theorem shutdown_releases_everything:
  assumes "mic_reachable d"
  shows "sidecar_state (machine (shutdown d)) = Shutdown \<and> session (shutdown d) = None
    \<and> pipeline (shutdown d) = None \<and> \<not> has_handle (capture (shutdown d))"
  using stop_session_inv [OF mic_reachable_inv [OF assms]]
  by (auto simp: shutdown_def daemon_inv_def try_transition_state)

theorem shutdown_releases_everything_witness:
  "sidecar_state (machine (shutdown demo_running)) = Shutdown \<and> pipeline (shutdown demo_running) = None"
  using shutdown_releases_everything [OF demo_running_reachable] by simp

end
