(* ===== verification/State_Core.thy ===== *)
theory State_Core
  imports Prelude
begin

text \<open>
  What the crates of the state agent share (\<^verbatim>\<open>noland-state-core\<close>): its error type, the chunk
  reference of the manifests, the storage constants, 64-bit sizes. Sizes are natural numbers;
  \<^verbatim>\<open>checked_add\<close> and \<^verbatim>\<open>saturating_add\<close> write out the bound of \<^verbatim>\<open>u64\<close>.
\<close>

datatype state_error =
    Message string
  | NotFound string
  | Invalid string
  | Conflict string
  | UnsafePath string
  | Integrity string
  | Crypto string
  | Storage string
  | Io
  | JsonError
  | Database string
  | Operation string string
  | SealRequired
  | IncompleteCommit

record chunk_ref =
  chunk_hash :: string
  chunk_size :: nat

definition checked_add64 :: "nat \<Rightarrow> nat \<Rightarrow> nat option" where
  "checked_add64 a b = (if a + b < 2 ^ 64 then Some (a + b) else None)"

definition saturating_add64 :: "nat \<Rightarrow> nat \<Rightarrow> nat" where
  "saturating_add64 a b = min (a + b) (2 ^ 64 - 1)"

definition FASTCDC_MIN :: nat where "FASTCDC_MIN = 1024 * 1024"
definition FASTCDC_AVG :: nat where "FASTCDC_AVG = 4 * 1024 * 1024"
definition FASTCDC_MAX :: nat where "FASTCDC_MAX = 8 * 1024 * 1024"
definition PACK_TARGET :: nat where "PACK_TARGET = 512 * 1024 * 1024"
definition PACK_MAX :: nat where "PACK_MAX = 1024 * 1024 * 1024"

text \<open>The bound checks of the packers: \<^verbatim>\<open>checked_add(..).is_none_or(|bytes| bytes > max)\<close>.\<close>

definition exceeds :: "nat \<Rightarrow> nat \<Rightarrow> nat \<Rightarrow> bool" where
  "exceeds a b mx = (case checked_add64 a b of None \<Rightarrow> True | Some n \<Rightarrow> n > mx)"

lemma exceeds_iff: "mx < 2 ^ 64 \<Longrightarrow> exceeds a b mx \<longleftrightarrow> a + b > mx"
  by (auto simp: exceeds_def checked_add64_def)

lemma not_exceeds: "\<not> exceeds a b mx \<Longrightarrow> a + b \<le> mx"
  by (auto simp: exceeds_def checked_add64_def split: if_splits)

text \<open>Content addresses: BLAKE3 as hexadecimal text is a parameter.\<close>

definition blake3_hex :: "(bytes \<Rightarrow> string) \<Rightarrow> bytes \<Rightarrow> string" where
  "blake3_hex blake3 xs = ''blake3:'' @ blake3 xs"

section \<open>Fallible operations on a state\<close>

text \<open>
  An operation that changes a state and may fail returns its result and the state it leaves, also when it
  fails. \<open>sbind\<close> is the \<^verbatim>\<open>?\<close> operator between two of them; \<open>keeps\<close> says that an operation
  preserves a predicate whatever its outcome, and \<open>leaves\<close> that it relates the states before and after.
\<close>

type_synonym ('s, 'a) sop = "'s \<Rightarrow> (state_error, 'a) result \<times> 's"

named_theorems keeps_rules \<open>how invariants pass through compound operations\<close>

definition sret :: "'a \<Rightarrow> ('s, 'a) sop" where
  "sret x s = (Inr x, s)"

definition sfail :: "state_error \<Rightarrow> ('s, 'a) sop" where
  "sfail e s = (Inl e, s)"

definition slift :: "(state_error, 'a) result \<Rightarrow> ('s, 'a) sop" where
  "slift r s = (r, s)"

definition sbind :: "('s, 'a) sop \<Rightarrow> ('a \<Rightarrow> ('s, 'b) sop) \<Rightarrow> ('s, 'b) sop" where
  "sbind m f s = (case m s of (Inl e, s') \<Rightarrow> (Inl e, s') | (Inr x, s') \<Rightarrow> f x s')"

text \<open>\<^verbatim>\<open>let _ = ..\<close>: the outcome is dropped, the state is kept.\<close>

definition sdrop :: "('s, 'a) sop \<Rightarrow> ('s, unit) sop" where
  "sdrop m s = (Inr (), snd (m s))"

fun seach :: "('a \<Rightarrow> ('s, unit) sop) \<Rightarrow> 'a list \<Rightarrow> ('s, unit) sop" where
  "seach f [] = sret ()"
| "seach f (x # xs) = sbind (f x) (\<lambda>_. seach f xs)"

lemma sbind_simps [simp]:
  "m s = (Inl e, s') \<Longrightarrow> sbind m f s = (Inl e, s')"
  "m s = (Inr x, s') \<Longrightarrow> sbind m f s = f x s'"
  by (simp_all add: sbind_def)

lemma sret_apply [simp]: "sret x s = (Inr x, s)" by (simp add: sret_def)
lemma sfail_apply [simp]: "sfail e s = (Inl e, s)" by (simp add: sfail_def)
lemma slift_apply [simp]: "slift r s = (r, s)" by (simp add: slift_def)

lemma sbind_InrE:
  assumes "sbind m f s = (Inr y, s'')"
  obtains x s' where "m s = (Inr x, s')" and "f x s' = (Inr y, s'')"
  using assms by (auto simp: sbind_def split: prod.splits sum.splits)

lemma sbind_cases:
  assumes "sbind m f s = (r, s'')"
  obtains (failed) e where "m s = (Inl e, s'')" and "r = Inl e"
  | (went) x s' where "m s = (Inr x, s')" and "f x s' = (r, s'')"
  using assms by (auto simp: sbind_def split: prod.splits sum.splits)

definition leaves :: "('s \<Rightarrow> 's \<Rightarrow> bool) \<Rightarrow> ('s, 'a) sop \<Rightarrow> bool" where
  "leaves R m \<longleftrightarrow> (\<forall>s. R s (snd (m s)))"

definition keeps :: "('s \<Rightarrow> bool) \<Rightarrow> ('s, 'a) sop \<Rightarrow> bool" where
  "keeps I m \<longleftrightarrow> leaves (\<lambda>s s'. I s \<longrightarrow> I s') m"

lemma leavesD: "leaves R m \<Longrightarrow> m s = (r, s') \<Longrightarrow> R s s'"
  unfolding leaves_def by (metis snd_conv)

lemma kept: "keeps I m \<Longrightarrow> m s = (r, s') \<Longrightarrow> I s \<Longrightarrow> I s'"
  unfolding keeps_def by (drule (1) leavesD) simp

lemma keeps_snd: "keeps I m \<Longrightarrow> I s \<Longrightarrow> I (snd (m s))"
  by (simp add: keeps_def leaves_def)

lemma leaves_sret: "(\<And>s. R s s) \<Longrightarrow> leaves R (sret x)"
  by (simp add: leaves_def)

lemma leaves_sfail: "(\<And>s. R s s) \<Longrightarrow> leaves R (sfail e)"
  by (simp add: leaves_def)

lemma leaves_slift: "(\<And>s. R s s) \<Longrightarrow> leaves R (slift r)"
  by (simp add: leaves_def)

lemma leaves_sdrop: "leaves R m \<Longrightarrow> leaves R (sdrop m)"
  by (simp add: leaves_def sdrop_def)

lemma leaves_sbind:
  assumes trans: "\<And>s t u. R s t \<Longrightarrow> R t u \<Longrightarrow> R s u" and "leaves R m" "\<And>x. leaves R (f x)"
  shows "leaves R (sbind m f)"
  unfolding leaves_def
proof
  fix s
  obtain r s' where m: "m s = (r, s')" by fastforce
  show "R s (snd (sbind m f s))"
    using leavesD [OF assms(2) m] assms(3) trans m by (cases r) (auto simp: leaves_def)
qed

lemma leaves_seach:
  assumes "\<And>s. R s s" "\<And>s t u. R s t \<Longrightarrow> R t u \<Longrightarrow> R s u" "\<And>x. x \<in> set xs \<Longrightarrow> leaves R (f x)"
  shows "leaves R (seach f xs)"
  using assms(3) by (induction xs) (auto intro: leaves_sret leaves_sbind assms(1,2))

lemma keeps_intros [keeps_rules]:
  "keeps I (sret x)" "keeps I (sfail e)" "keeps I (slift r)"
  "keeps I m \<Longrightarrow> keeps I (sdrop m)"
  "keeps I m \<Longrightarrow> (\<And>x. keeps I (f x)) \<Longrightarrow> keeps I (sbind m f)"
  "(\<And>x. x \<in> set xs \<Longrightarrow> keeps I (g x)) \<Longrightarrow> keeps I (seach g xs)"
  unfolding keeps_def
  by (auto intro!: leaves_sret leaves_sfail leaves_slift leaves_sdrop intro: leaves_sbind leaves_seach)

lemma keeps_choice [keeps_rules]: "keeps I m \<Longrightarrow> keeps I n \<Longrightarrow> keeps I (if b then m else n)"
  by simp

end
