(* ===== verification/Chunking.thy ===== *)
theory Chunking
  imports State_Core
begin

text \<open>
  Content-defined chunking of backups (\<^verbatim>\<open>noland-cas/src/lib.rs\<close>): the gear hash, cutting a byte
  string held in memory and cutting a stream read in pieces of any size. BLAKE3 (as hexadecimal
  text) is a parameter. The loops may run forever for sizes the entry points reject, so they
  return \<open>None\<close> when they do.
\<close>

unbundle bit_operations_syntax

section \<open>The gear hash\<close>

definition gear :: "byte \<Rightarrow> u64" where
  "gear b =
     (let z0 = ucast b + 0x9E3779B97F4A7C15;
          z1 = (z0 XOR drop_bit 30 z0) * 0xBF58476D1CE4E5B9;
          z2 = (z1 XOR drop_bit 27 z1) * 0x94D049BB133111EB
      in z2 XOR drop_bit 31 z2)"

fun ilog2 :: "nat \<Rightarrow> nat" where
  "ilog2 n = (if n < 2 then 0 else Suc (ilog2 (n div 2)))"

declare ilog2.simps [simp del]

definition mask_for :: "nat \<Rightarrow> u64" where
  "mask_for avg = push_bit (min (ilog2 (max avg 2)) 31) 1 - 1"

text \<open>The scan over the rest of a window; \<open>i\<close> is the position of its next byte.\<close>

fun gear_scan :: "u64 \<Rightarrow> u64 \<Rightarrow> nat \<Rightarrow> bytes \<Rightarrow> nat" where
  "gear_scan msk h i [] = i"
| "gear_scan msk h i (b # bs) =
     (let h' = push_bit 1 h + gear b in
      if h' AND msk = 0 then i + 1 else gear_scan msk h' (i + 1) bs)"

definition window_cut :: "nat \<Rightarrow> nat \<Rightarrow> u64 \<Rightarrow> bytes \<Rightarrow> nat" where
  "window_cut mn mx msk xs =
     (let window_end = min (length xs) mx; i = min mn window_end
      in gear_scan msk 0 i (drop i (take window_end xs)))"

text \<open>The same scan as the in-memory cutter writes it, with its redundant guard \<open>i \<ge> min\<close>.\<close>

fun offline_scan :: "nat \<Rightarrow> u64 \<Rightarrow> u64 \<Rightarrow> nat \<Rightarrow> bytes \<Rightarrow> nat" where
  "offline_scan mn msk h i [] = i"
| "offline_scan mn msk h i (b # bs) =
     (let h' = push_bit 1 h + gear b in
      if mn \<le> i \<and> h' AND msk = 0 then i + 1 else offline_scan mn msk h' (i + 1) bs)"

definition offline_cut :: "nat \<Rightarrow> nat \<Rightarrow> u64 \<Rightarrow> bytes \<Rightarrow> nat" where
  "offline_cut mn mx msk xs =
     (let window_end = min (length xs) mx; i = min mn window_end
      in offline_scan mn msk 0 i (drop i (take window_end xs)))"

section \<open>In memory\<close>

record file_chunks =
  file_hash :: string
  file_size :: nat
  chunks :: "chunk_ref list"
  payloads :: "bytes list"

definition ref_of :: "(bytes \<Rightarrow> string) \<Rightarrow> bytes \<Rightarrow> chunk_ref" where
  "ref_of blake3 xs = \<lparr>chunk_hash = blake3_hex blake3 xs, chunk_size = length xs\<rparr>"

partial_function (option) offsets_loop ::
  "nat \<Rightarrow> nat \<Rightarrow> u64 \<Rightarrow> bytes \<Rightarrow> nat \<Rightarrow> nat list \<Rightarrow> nat list option" where
  "offsets_loop mn mx msk data pos offsets =
     (if pos < length data then
        if length data - pos \<le> mn then Some (offsets @ [length data])
        else
          let cut = offline_cut mn mx msk (drop pos data)
          in offsets_loop mn mx msk data (pos + cut) (offsets @ [pos + cut])
      else Some offsets)"

definition fastcdc_offsets :: "bytes \<Rightarrow> nat \<Rightarrow> nat \<Rightarrow> nat \<Rightarrow> nat list option" where
  "fastcdc_offsets data mn avg mx =
     (if data = [] then Some []
      else map_option (\<lambda>os. if os = [] \<or> List.last os \<noteq> length data then os @ [length data] else os)
        (offsets_loop mn mx (mask_for avg) data 0 []))"

fun pieces :: "bytes \<Rightarrow> nat \<Rightarrow> nat list \<Rightarrow> bytes list" where
  "pieces data start [] = []"
| "pieces data start (e # es) = take (e - start) (drop start data) # pieces data e es"

definition chunk_bytes_with :: "(bytes \<Rightarrow> string) \<Rightarrow> bytes \<Rightarrow> nat \<Rightarrow> nat \<Rightarrow> nat \<Rightarrow> file_chunks option" where
  "chunk_bytes_with blake3 data mn avg mx =
     (let h = blake3_hex blake3 data in
      if data = [] then Some \<lparr>file_hash = h, file_size = 0, chunks = [], payloads = []\<rparr>
      else if length data \<le> mn
      then Some \<lparr>file_hash = h, file_size = length data, chunks = [ref_of blake3 data], payloads = [data]\<rparr>
      else map_option (\<lambda>cuts.
          \<lparr>file_hash = h, file_size = length data, chunks = map (ref_of blake3) (pieces data 0 cuts),
           payloads = pieces data 0 cuts\<rparr>)
        (fastcdc_offsets data mn avg mx))"

section \<open>Streaming\<close>

text \<open>
  A reader: \<open>read_size k\<close> bounds what the \<open>k\<close>-th call returns (at least one byte while there is
  any), \<open>read_fails k\<close> makes it an error.
\<close>

record reader =
  read_size :: "nat \<Rightarrow> nat"
  read_fails :: "nat \<Rightarrow> bool"

function fill_buffer ::
  "reader \<Rightarrow> nat \<Rightarrow> nat \<Rightarrow> bytes \<Rightarrow> bytes \<Rightarrow> bool \<Rightarrow> (state_error, nat \<times> bytes \<times> bytes \<times> bool) result" where
  "fill_buffer rd k mx buf src eof =
     (if length buf < mx \<and> \<not> eof then
        if read_fails rd k then Inl Io
        else if src = [] then Inr (k + 1, buf, src, True)
        else
          let n = max 1 (min (read_size rd k) (min (mx - length buf) (length src)))
          in fill_buffer rd (k + 1) mx (buf @ take n src) (drop n src) False
      else Inr (k, buf, src, eof))"
  by pat_completeness auto
termination
  by (relation "measure (\<lambda>(_, _, _, _, src, _). length src)") auto

declare fill_buffer.simps [simp del]

definition streaming_cut :: "bytes \<Rightarrow> nat \<Rightarrow> nat \<Rightarrow> u64 \<Rightarrow> bool \<Rightarrow> nat" where
  "streaming_cut xs mn mx msk eof = (if eof \<and> length xs \<le> mn then length xs else window_cut mn mx msk xs)"

record stream_result =
  stream_hash :: string
  stream_size :: nat
  stream_chunks :: "chunk_ref list"

text \<open>\<open>hashed\<close> is what the file hasher has consumed, \<open>c\<close> the state of the callback.\<close>

partial_function (option) stream_loop ::
  "(bytes \<Rightarrow> string) \<Rightarrow> reader \<Rightarrow> (chunk_ref \<Rightarrow> bytes \<Rightarrow> 'c \<Rightarrow> state_error option \<times> 'c) \<Rightarrow> nat \<Rightarrow> nat \<Rightarrow> u64 \<Rightarrow> nat \<Rightarrow> bytes \<Rightarrow> bytes
    \<Rightarrow> bool \<Rightarrow> bytes \<Rightarrow> nat \<Rightarrow> chunk_ref list \<Rightarrow> 'c \<Rightarrow> ((state_error, stream_result) result \<times> 'c) option" where
  "stream_loop blake3 rd on_chunk mn mx msk k buf src eof hashed sz cs c =
     (case fill_buffer rd k mx buf src eof of
        Inl e \<Rightarrow> Some (Inl e, c)
      | Inr (k', buf', src', eof') \<Rightarrow>
        let hashed' = hashed @ drop (length buf) buf' in
        if buf' = []
        then Some (Inr \<lparr>stream_hash = blake3_hex blake3 hashed', stream_size = sz, stream_chunks = cs\<rparr>, c)
        else
          let cut = streaming_cut buf' mn mx msk eof'; payload = take cut buf'; chunk = ref_of blake3 payload in
          (case on_chunk chunk payload c of
             (err, c') \<Rightarrow>
               if err \<noteq> None then Some (Inl (the err), c')
               else stream_loop blake3 rd on_chunk mn mx msk k' (drop cut buf') src' eof' hashed'
                 (sz + cut) (cs @ [chunk]) c'))"

definition chunk_sizes_error :: string where
  "chunk_sizes_error = ''FastCDC sizes must satisfy 0 < min <= avg <= max''"

definition validate_chunk_sizes :: "nat \<Rightarrow> nat \<Rightarrow> nat \<Rightarrow> bool" where
  "validate_chunk_sizes mn avg mx \<longleftrightarrow> \<not> (mn = 0 \<or> mn > avg \<or> avg > mx)"

definition chunk_reader_with ::
  "(bytes \<Rightarrow> string) \<Rightarrow> reader \<Rightarrow> (chunk_ref \<Rightarrow> bytes \<Rightarrow> 'c \<Rightarrow> state_error option \<times> 'c) \<Rightarrow> nat \<Rightarrow> nat \<Rightarrow> nat \<Rightarrow> bytes \<Rightarrow> 'c
    \<Rightarrow> ((state_error, stream_result) result \<times> 'c) option" where
  "chunk_reader_with blake3 rd on_chunk mn avg mx src c =
     (if \<not> validate_chunk_sizes mn avg mx then Some (Inl (Invalid chunk_sizes_error), c)
      else stream_loop blake3 rd on_chunk mn mx (mask_for avg) 0 [] src False [] 0 [] c)"

text \<open>\<^verbatim>\<open>chunk_file\<close>: the callback collects the payloads.\<close>

definition collect :: "chunk_ref \<Rightarrow> bytes \<Rightarrow> bytes list \<Rightarrow> state_error option \<times> bytes list" where
  "collect r p ps = (None, ps @ [p])"

definition chunk_file_with ::
  "(bytes \<Rightarrow> string) \<Rightarrow> reader \<Rightarrow> nat \<Rightarrow> nat \<Rightarrow> nat \<Rightarrow> bytes \<Rightarrow> (state_error, file_chunks) result option" where
  "chunk_file_with blake3 rd mn avg mx src =
     map_option (\<lambda>(r, ps). case r of
         Inl e \<Rightarrow> Inl e
       | Inr s \<Rightarrow> Inr \<lparr>file_hash = stream_hash s, file_size = stream_size s, chunks = stream_chunks s, payloads = ps\<rparr>)
       (chunk_reader_with blake3 rd collect mn avg mx src [])"

section \<open>The backup's parameters and advice on files\<close>

definition chunk_bytes :: "(bytes \<Rightarrow> string) \<Rightarrow> bytes \<Rightarrow> file_chunks option" where
  "chunk_bytes blake3 data = chunk_bytes_with blake3 data FASTCDC_MIN FASTCDC_AVG FASTCDC_MAX"

definition chunk_reader ::
  "(bytes \<Rightarrow> string) \<Rightarrow> reader \<Rightarrow> (chunk_ref \<Rightarrow> bytes \<Rightarrow> 'c \<Rightarrow> state_error option \<times> 'c) \<Rightarrow> bytes \<Rightarrow> 'c
    \<Rightarrow> ((state_error, stream_result) result \<times> 'c) option" where
  "chunk_reader blake3 rd on_chunk src c = chunk_reader_with blake3 rd on_chunk FASTCDC_MIN FASTCDC_AVG FASTCDC_MAX src c"

definition chunk_file :: "(bytes \<Rightarrow> string) \<Rightarrow> reader \<Rightarrow> bytes \<Rightarrow> (state_error, file_chunks) result option" where
  "chunk_file blake3 rd src = chunk_file_with blake3 rd FASTCDC_MIN FASTCDC_AVG FASTCDC_MAX src"

definition SMALL_FILE_THRESHOLD :: nat where "SMALL_FILE_THRESHOLD = 256 * 1024"

datatype small_file_bucket = UpTo4KiB | UpTo64KiB | UpTo256KiB

definition is_small_file :: "nat \<Rightarrow> bool" where
  "is_small_file n \<longleftrightarrow> n \<le> SMALL_FILE_THRESHOLD"

definition small_file_bucket :: "nat \<Rightarrow> small_file_bucket option" where
  "small_file_bucket n =
     (if n \<le> 4096 then Some UpTo4KiB
      else if n \<le> 65536 then Some UpTo64KiB
      else if n \<le> SMALL_FILE_THRESHOLD then Some UpTo256KiB
      else None)"

lemma small_file_has_bucket: "is_small_file n \<longleftrightarrow> small_file_bucket n \<noteq> None"
  by (simp add: is_small_file_def small_file_bucket_def SMALL_FILE_THRESHOLD_def)

datatype compression_reason = TooSmall | AlreadyCompressed | HighEntropy | LikelyCompressible

record compression_hint =
  should_compress :: bool
  reason :: compression_reason
  sampled_bytes :: nat

definition has_compressed_magic :: "bytes \<Rightarrow> bool" where
  "has_compressed_magic data \<longleftrightarrow>
     prefix [0x1f, 0x8b] data \<or> prefix [0x28, 0xb5, 0x2f, 0xfd] data \<or>
     prefix [0x50, 0x4b, 0x03, 0x04] data \<or> prefix [0x89, 0x50, 0x4e, 0x47] data \<or>
     prefix [0xff, 0xd8, 0xff] data"

text \<open>
  \<open>low_entropy\<close> stands for \<^verbatim>\<open>byte_entropy(sample) < 7.5\<close>, which is computed in floating point; the
  entropy itself, carried along for reports, is left out of the record.
\<close>

definition hint_for :: "(bytes \<Rightarrow> bool) \<Rightarrow> bytes \<Rightarrow> compression_hint" where
  "hint_for low_entropy data =
     (let sample = take (64 * 1024) data in
      if length data < 1024
      then \<lparr>should_compress = False, reason = TooSmall, sampled_bytes = length sample\<rparr>
      else if has_compressed_magic data
      then \<lparr>should_compress = False, reason = AlreadyCompressed, sampled_bytes = length sample\<rparr>
      else \<lparr>should_compress = low_entropy sample,
            reason = (if low_entropy sample then LikelyCompressible else HighEntropy),
            sampled_bytes = length sample\<rparr>)"

section \<open>The cuts\<close>

lemma gear_scan_bounds:
  "i \<le> gear_scan msk h i bs \<and> gear_scan msk h i bs \<le> i + length bs"
  by (induction msk h i bs rule: gear_scan.induct) (auto simp: Let_def)

lemma offline_scan_eq: "mn \<le> i \<Longrightarrow> offline_scan mn msk h i bs = gear_scan msk h i bs"
  by (induction mn msk h i bs rule: offline_scan.induct) (auto simp: Let_def)

lemma offline_cut_eq: "offline_cut mn mx msk xs = window_cut mn mx msk xs"
proof (cases "mn \<le> min (length xs) mx")
  case False
  then have "min mn (min (length xs) mx) = min (length xs) mx" by linarith
  then show ?thesis by (simp add: offline_cut_def window_cut_def Let_def)
qed (simp add: offline_cut_def window_cut_def Let_def offline_scan_eq)

lemma window_cut_le: "window_cut mn mx msk xs \<le> min (length xs) mx"
proof -
  let ?e = "min (length xs) mx" let ?i = "min mn ?e"
  have "gear_scan msk 0 ?i (drop ?i (take ?e xs)) \<le> ?i + length (drop ?i (take ?e xs))"
    using gear_scan_bounds by blast
  also have "length (drop ?i (take ?e xs)) = ?e - ?i" by simp
  finally show ?thesis by (simp only: window_cut_def Let_def) linarith
qed

lemma window_cut_ge: "min mn (min (length xs) mx) \<le> window_cut mn mx msk xs"
  by (simp add: window_cut_def Let_def gear_scan_bounds)

text \<open>A window never looks past its maximal size.\<close>

lemma window_cut_take:
  assumes "mx \<le> length ys"
  shows "window_cut mn mx msk (ys @ zs) = window_cut mn mx msk ys"
  using assms by (simp add: window_cut_def Let_def min_absorb2)

definition cdc_cut :: "nat \<Rightarrow> nat \<Rightarrow> u64 \<Rightarrow> bytes \<Rightarrow> nat" where
  "cdc_cut mn mx msk xs = (if length xs \<le> mn then length xs else window_cut mn mx msk xs)"

text \<open>The reference: cut, and go on with the rest.\<close>

function cdc_chunks :: "nat \<Rightarrow> nat \<Rightarrow> u64 \<Rightarrow> bytes \<Rightarrow> bytes list" where
  "cdc_chunks mn mx msk xs =
     (if xs = [] then []
      else let cut = max 1 (cdc_cut mn mx msk xs) in take cut xs # cdc_chunks mn mx msk (drop cut xs))"
  by pat_completeness auto
termination
  by (relation "measure (\<lambda>(_, _, _, xs). length xs)") auto

declare cdc_chunks.simps [simp del]

lemma cdc_cut_bounds:
  assumes "0 < mn" "mn \<le> mx" "xs \<noteq> []"
  shows "0 < cdc_cut mn mx msk xs" "cdc_cut mn mx msk xs \<le> min (length xs) mx"
    "cdc_cut mn mx msk xs < mn \<Longrightarrow> cdc_cut mn mx msk xs = length xs"
  using assms window_cut_le [of mn mx msk xs] window_cut_ge [of mn xs mx msk]
  by (auto simp: cdc_cut_def)

lemma cdc_chunks_Nil [simp]: "cdc_chunks mn mx msk [] = []"
  by (simp add: cdc_chunks.simps)

lemma cdc_chunks_step:
  assumes "0 < mn" "mn \<le> mx" "xs \<noteq> []"
  shows "cdc_chunks mn mx msk xs =
    take (cdc_cut mn mx msk xs) xs # cdc_chunks mn mx msk (drop (cdc_cut mn mx msk xs) xs)"
proof -
  have "max 1 (cdc_cut mn mx msk xs) = cdc_cut mn mx msk xs"
    using cdc_cut_bounds(1) [OF assms, of msk] by simp
  then show ?thesis by (subst cdc_chunks.simps) (simp add: assms Let_def)
qed

lemma concat_cdc_chunks: "concat (cdc_chunks mn mx msk xs) = xs"
  by (induction mn mx msk xs rule: cdc_chunks.induct) (subst cdc_chunks.simps, auto simp: Let_def)

lemma cdc_chunks_sizes:
  assumes "0 < mn" "mn \<le> mx"
  shows "(\<forall>p \<in> set (cdc_chunks mn mx msk xs). p \<noteq> [] \<and> length p \<le> mx) \<and>
    (\<forall>p \<in> set (butlast (cdc_chunks mn mx msk xs)). mn \<le> length p)"
proof (induction xs rule: length_induct)
  case (1 xs)
  show ?case
  proof (cases "xs = []")
    case False
    let ?cut = "cdc_cut mn mx msk xs" and ?tl = "cdc_chunks mn mx msk (drop (cdc_cut mn mx msk xs) xs)"
    note cut = cdc_cut_bounds [OF assms False, of msk]
    have step: "cdc_chunks mn mx msk xs = take ?cut xs # ?tl"
      by (rule cdc_chunks_step [OF assms False])
    have ih: "(\<forall>p \<in> set ?tl. p \<noteq> [] \<and> length p \<le> mx) \<and> (\<forall>p \<in> set (butlast ?tl). mn \<le> length p)"
      by (rule 1 [rule_format]) (use cut(1) False in \<open>simp add: diff_less\<close>)
    have "?cut \<le> length xs" "?cut \<le> mx" using cut(2) by auto
    moreover have "mn \<le> ?cut" if "?tl \<noteq> []" using cut(3) that not_less by fastforce
    ultimately show ?thesis using ih cut(1) False by (auto simp: step min_absorb2)
  qed simp
qed

section \<open>The in-memory cutter\<close>

primrec ends :: "nat \<Rightarrow> bytes list \<Rightarrow> nat list" where
  "ends pos [] = []"
| "ends pos (p # ps) = (pos + length p) # ends (pos + length p) ps"

lemma pieces_ends: "concat ps = drop pos data \<Longrightarrow> pieces data pos (ends pos ps) = ps"
proof (induction ps arbitrary: pos)
  case (Cons p ps)
  have d: "drop pos data = p @ concat ps" using Cons.prems by simp
  have "drop (pos + length p) data = drop (length p) (drop pos data)" by (simp add: add.commute)
  then have "concat ps = drop (pos + length p) data" by (simp add: d)
  then show ?case using Cons.IH d by simp
qed simp

lemma last_ends: "ps \<noteq> [] \<Longrightarrow> List.last (ends pos ps) = pos + length (concat ps)"
proof (induction ps arbitrary: pos)
  case (Cons p ps)
  then show ?case by (cases ps) auto
qed simp

lemma ends_Nil_iff [simp]: "ends pos ps = [] \<longleftrightarrow> ps = []"
  by (cases ps) auto

lemma offsets_loop_ends:
  assumes "0 < mn" "mn \<le> mx" "pos \<le> length data"
  shows "offsets_loop mn mx msk data pos offs = Some (offs @ ends pos (cdc_chunks mn mx msk (drop pos data)))"
  using assms(3)
proof (induction "length data - pos" arbitrary: pos offs rule: less_induct)
  case less
  let ?xs = "drop pos data"
  show ?case
  proof (cases "pos < length data")
    case True
    then have ne: "?xs \<noteq> []" by simp
    note cut = cdc_cut_bounds [OF assms(1,2) ne, of msk]
    note step = cdc_chunks_step [OF assms(1,2) ne, of msk]
    show ?thesis
    proof (cases "length data - pos \<le> mn")
      case True
      then show ?thesis using \<open>pos < length data\<close>
        by (subst offsets_loop.simps) (simp add: step cdc_cut_def)
    next
      case False
      let ?c = "window_cut mn mx msk ?xs"
      have c: "cdc_cut mn mx msk ?xs = ?c" using False by (simp add: cdc_cut_def)
      have le: "0 < ?c" "pos + ?c \<le> length data" using cut c by auto
      have dd: "drop ?c ?xs = drop (pos + ?c) data" by (simp add: add.commute)
      have "offsets_loop mn mx msk data (pos + ?c) (offs @ [pos + ?c]) =
          Some ((offs @ [pos + ?c]) @ ends (pos + ?c) (cdc_chunks mn mx msk (drop (pos + ?c) data)))"
        using le True by (intro less) auto
      then show ?thesis using True False le
        by (subst offsets_loop.simps) (simp add: step c dd offline_cut_eq Let_def min_absorb2 add.commute)
    qed
  qed (simp add: offsets_loop.simps)
qed

lemma fastcdc_offsets_ends:
  assumes "0 < mn" "mn \<le> mx"
  shows "fastcdc_offsets data mn avg mx = Some (ends 0 (cdc_chunks mn mx (mask_for avg) data))"
proof (cases "data = []")
  case False
  have "cdc_chunks mn mx (mask_for avg) data \<noteq> []"
    using cdc_chunks_step [OF assms False] by simp
  then show ?thesis using False offsets_loop_ends [OF assms, of 0 data "mask_for avg" "[]"]
    by (simp add: fastcdc_offsets_def last_ends concat_cdc_chunks)
qed (simp add: fastcdc_offsets_def)

definition cut_up :: "(bytes \<Rightarrow> string) \<Rightarrow> bytes \<Rightarrow> bytes list \<Rightarrow> file_chunks" where
  "cut_up blake3 data ps =
     \<lparr>file_hash = blake3_hex blake3 data, file_size = length data, chunks = map (ref_of blake3) ps, payloads = ps\<rparr>"

lemma chunk_bytes_with_eq:
  assumes "0 < mn" "mn \<le> mx"
  shows "chunk_bytes_with blake3 data mn avg mx =
    Some (cut_up blake3 data (cdc_chunks mn mx (mask_for avg) data))"
proof -
  have one: "cdc_chunks mn mx (mask_for avg) data = [data]" if "data \<noteq> []" "length data \<le> mn"
    using cdc_chunks_step [OF assms that(1)] that(2) by (simp add: cdc_cut_def)
  show ?thesis
    by (cases "data = []"; cases "length data \<le> mn")
      (auto simp: chunk_bytes_with_def cut_up_def Let_def one fastcdc_offsets_ends [OF assms]
        pieces_ends concat_cdc_chunks)
qed

section \<open>The streaming cutter\<close>

lemma fill_buffer_clean:
  assumes "\<And>k. \<not> read_fails rd k" "eof \<Longrightarrow> src = []" "length buf \<le> mx"
  shows "\<exists>k' new src' eof'. fill_buffer rd k mx buf src eof = Inr (k', buf @ new, src', eof') \<and>
    src = new @ src' \<and> length (buf @ new) \<le> mx \<and> (if eof' then src' = [] else length (buf @ new) = mx)"
  using assms
proof (induction rd k mx buf src eof rule: fill_buffer.induct)
  case (1 rd k mx buf src eof)
  show ?case
  proof (cases "length buf < mx \<and> \<not> eof \<and> src \<noteq> []")
    case True
    define n where "n = max 1 (min (read_size rd k) (min (mx - length buf) (length src)))"
    have n: "n \<le> mx - length buf" "n \<le> length src" using True by (auto simp: n_def Suc_le_eq)
    have "\<exists>k' new src' eof'. fill_buffer rd (k + 1) mx (buf @ take n src) (drop n src) False =
        Inr (k', (buf @ take n src) @ new, src', eof') \<and> drop n src = new @ src' \<and>
        length ((buf @ take n src) @ new) \<le> mx \<and>
        (if eof' then src' = [] else length ((buf @ take n src) @ new) = mx)"
    proof (rule "1.IH")
      show "length (buf @ take n src) \<le> mx" using n True by (simp add: le_diff_conv2)
    qed (use True 1(2) in \<open>auto simp: n_def\<close>)
    moreover have "fill_buffer rd k mx buf src eof =
        fill_buffer rd (k + 1) mx (buf @ take n src) (drop n src) False"
      using True 1(2) by (subst fill_buffer.simps) (simp add: n_def Let_def)
    ultimately show ?thesis by (metis append.assoc append_take_drop_id)
  next
    case False
    then show ?thesis using 1(2-)
      by (cases "length buf < mx \<and> \<not> eof") (auto simp: fill_buffer.simps)
  qed
qed

lemma streaming_cut_eq:
  assumes "0 < mn" "mn \<le> mx" "if eof then src = [] else length buf = mx" "length buf \<le> mx"
  shows "streaming_cut buf mn mx msk eof = cdc_cut mn mx msk (buf @ src)"
proof (cases eof)
  case False
  then have len: "length buf = mx" using assms(3) by simp
  show ?thesis
  proof (cases "length (buf @ src) \<le> mn")
    case True
    then have "length src = 0 \<and> mn = mx" using len assms(2) unfolding length_append by linarith
    then have "src = []" "mn = mx" by simp_all
    then show ?thesis using False len window_cut_ge [of mn buf mx msk] window_cut_le [of mn mx msk buf]
      by (simp add: streaming_cut_def cdc_cut_def)
  qed (use False len in \<open>simp add: streaming_cut_def cdc_cut_def window_cut_take\<close>)
qed (use assms in \<open>simp add: streaming_cut_def cdc_cut_def\<close>)

lemma stream_loop_clean:
  assumes "\<And>k. \<not> read_fails rd k" "0 < mn" "mn \<le> mx" "eof \<Longrightarrow> src = []" "length buf \<le> mx"
  shows "stream_loop blake3 rd collect mn mx msk k buf src eof hashed sz cs ps =
    Some (Inr \<lparr>stream_hash = blake3_hex blake3 (hashed @ src), stream_size = sz + length (buf @ src),
        stream_chunks = cs @ map (ref_of blake3) (cdc_chunks mn mx msk (buf @ src))\<rparr>,
      ps @ cdc_chunks mn mx msk (buf @ src))"
  using assms(4,5)
proof (induction "length (buf @ src)" arbitrary: k buf src eof hashed sz cs ps rule: less_induct)
  case less
  obtain k' new src' eof' where fill: "fill_buffer rd k mx buf src eof = Inr (k', buf @ new, src', eof')"
    "src = new @ src'" "length (buf @ new) \<le> mx" "if eof' then src' = [] else length (buf @ new) = mx"
    using fill_buffer_clean [where k = k, OF assms(1) less(2,3)] by blast
  define B where "B = buf @ new"
  have xs: "buf @ src = B @ src'" "drop (length buf) B = new" using fill(2) by (simp_all add: B_def)
  show ?case
  proof (cases "B = []")
    case True
    then have "src' = []" using fill(4) assms(2,3) by (auto simp: B_def split: if_splits)
    then show ?thesis using True fill(1,2) by (subst stream_loop.simps) (simp add: B_def Let_def)
  next
    case False
    define cut where "cut = cdc_cut mn mx msk (B @ src')"
    have ne: "B @ src' \<noteq> []" using False by simp
    note bounds = cdc_cut_bounds [OF assms(2,3) ne, of msk, folded cut_def]
    have sc: "streaming_cut B mn mx msk eof' = cut"
      unfolding B_def cut_def using streaming_cut_eq [OF assms(2,3) fill(4,3)] .
    have le: "cut \<le> length B" using bounds(2) fill(4) by (auto simp: B_def split: if_splits)
    have shorter: "length (drop cut B @ src') < length (buf @ src)"
      unfolding xs(1) length_append length_drop using bounds(1) le False by simp
    have "stream_loop blake3 rd collect mn mx msk k buf src eof hashed sz cs ps =
        stream_loop blake3 rd collect mn mx msk k' (drop cut B) src' eof' (hashed @ new) (sz + cut)
          (cs @ [ref_of blake3 (take cut B)]) (ps @ [take cut B])"
      using False fill(1) by (subst stream_loop.simps) (simp add: B_def [symmetric] sc xs(2) collect_def Let_def)
    also have "\<dots> = Some (Inr \<lparr>stream_hash = blake3_hex blake3 ((hashed @ new) @ src'),
          stream_size = sz + cut + length (drop cut B @ src'),
          stream_chunks = (cs @ [ref_of blake3 (take cut B)]) @
            map (ref_of blake3) (cdc_chunks mn mx msk (drop cut B @ src'))\<rparr>,
        (ps @ [take cut B]) @ cdc_chunks mn mx msk (drop cut B @ src'))"
      using fill(3,4) by (intro less(1) [OF shorter]) (auto simp: B_def split: if_splits)
    finally show ?thesis
      unfolding xs(1) using le cdc_chunks_step [OF assms(2,3) ne, of msk, folded cut_def] by (simp add: fill(2))
  qed
qed

lemma chunk_file_with_eq:
  assumes "\<And>k. \<not> read_fails rd k" "validate_chunk_sizes mn avg mx"
  shows "chunk_file_with blake3 rd mn avg mx data = Some (Inr (cut_up blake3 data (cdc_chunks mn mx (mask_for avg) data)))"
  using assms stream_loop_clean [OF assms(1), of mn mx False data "[]"]
  by (auto simp: chunk_file_with_def chunk_reader_with_def validate_chunk_sizes_def cut_up_def)

section \<open>Properties\<close>

text \<open>C17: the streaming chunker cuts every file exactly where the in-memory chunker does. For sizes it
  accepts and a reader that never fails, whatever the sizes of the reads, the streaming chunker returns, and its
  file hash, size, chunk list and payloads are those of the in-memory chunker on the whole content.\<close>

theorem streaming_equals_offline:
  assumes "\<And>k. \<not> read_fails rd k" "validate_chunk_sizes mn avg mx"
  shows "\<exists>fc. chunk_file_with blake3 rd mn avg mx data = Some (Inr fc) \<and>
    chunk_bytes_with blake3 data mn avg mx = Some fc"
  using assms chunk_file_with_eq [OF assms, of blake3 data] chunk_bytes_with_eq [of mn mx blake3 data avg]
  by (simp add: validate_chunk_sizes_def)

text \<open>C18: chunking loses nothing and keeps its size bounds. For accepted sizes the chunker returns,
  the payloads put together again are the input, every chunk reference is the hash and size of its
  payload, no payload is empty or longer than the maximum, and only the last is shorter than the
  minimum.\<close>

theorem chunks_reassemble:
  assumes "validate_chunk_sizes mn avg mx"
  shows "\<exists>fc. chunk_bytes_with blake3 data mn avg mx = Some fc \<and> concat (payloads fc) = data \<and>
    file_hash fc = blake3_hex blake3 data \<and> file_size fc = length data \<and>
    chunks fc = map (ref_of blake3) (payloads fc) \<and>
    (\<forall>p \<in> set (payloads fc). p \<noteq> [] \<and> length p \<le> mx) \<and>
    (\<forall>p \<in> set (butlast (payloads fc)). mn \<le> length p)"
proof -
  have sizes: "0 < mn" "mn \<le> mx" using assms by (auto simp: validate_chunk_sizes_def)
  show ?thesis
    using chunk_bytes_with_eq [OF sizes] cdc_chunks_sizes [OF sizes]
    by (simp add: cut_up_def concat_cdc_chunks)
qed

section \<open>Witnesses\<close>

definition dribble :: reader where
  "dribble = \<lparr>read_size = \<lambda>k. if even k then 1 else 3, read_fails = \<lambda>_. False\<rparr>"

definition sample_bytes :: bytes where
  "sample_bytes = [7, 9, 200, 14, 3, 3, 3, 81, 7, 0, 255, 17]"

definition no_hash :: "bytes \<Rightarrow> string" where
  "no_hash xs = replicate (length xs) CHR ''a''"

theorem streaming_equals_offline_witness:
  "(\<forall>k. \<not> read_fails dribble k) \<and> validate_chunk_sizes 2 4 6 \<and>
   (\<exists>fc. chunk_file_with no_hash dribble 2 4 6 sample_bytes = Some (Inr fc) \<and>
     chunk_bytes_with no_hash sample_bytes 2 4 6 = Some fc \<and> 2 \<le> length (payloads fc))"
proof -
  have h: "\<And>k. \<not> read_fails dribble k" "validate_chunk_sizes 2 4 6"
    by (simp_all add: dribble_def validate_chunk_sizes_def)
  have big: "12 \<le> length (payloads fc) * 6"
    if "concat (payloads fc) = sample_bytes" "\<forall>p \<in> set (payloads fc). length p \<le> 6" for fc :: file_chunks
  proof -
    have "length (concat ps) \<le> length ps * 6" if "\<forall>p \<in> set ps. length p \<le> 6" for ps :: "bytes list"
      using that by (induction ps) auto
    from this [OF that(2)] show ?thesis unfolding that(1) by (simp add: sample_bytes_def)
  qed
  have "chunk_bytes_with no_hash sample_bytes 2 4 6 = Some (cut_up no_hash sample_bytes (cdc_chunks 2 6 (mask_for 4) sample_bytes))"
    by (rule chunk_bytes_with_eq) simp_all
  moreover have "2 \<le> length (payloads (cut_up no_hash sample_bytes (cdc_chunks 2 6 (mask_for 4) sample_bytes)))"
    using big [of "cut_up no_hash sample_bytes (cdc_chunks 2 6 (mask_for 4) sample_bytes)"]
      cdc_chunks_sizes [of 2 6 "mask_for 4" sample_bytes]
    by (simp add: cut_up_def concat_cdc_chunks)
  ultimately show ?thesis
    using h streaming_equals_offline [OF h, of no_hash sample_bytes] by auto
qed

theorem chunks_reassemble_witness:
  "validate_chunk_sizes 2 4 6 \<and>
   (\<exists>fc. chunk_bytes_with no_hash sample_bytes 2 4 6 = Some fc \<and> concat (payloads fc) = sample_bytes)"
  using chunks_reassemble [of 2 4 6 no_hash sample_bytes] by (auto simp: validate_chunk_sizes_def)

end
