(* ===== verification/Pack.thy ===== *)
theory Pack
  imports Chunking
begin

text \<open>
  Encrypted pack files of backups: the envelope of \<^verbatim>\<open>noland-crypto/src/lib.rs\<close> and the writer,
  the size-limited packers and the reader of \<^verbatim>\<open>noland-pack/src/lib.rs\<close>. XChaCha20-Poly1305, HKDF,
  zstd, BLAKE3, UUIDs, the random numbers and the outcome of every write are parameters.
\<close>

section \<open>Encryption\<close>

record crypto =
  aead_seal :: "bytes \<Rightarrow> bytes \<Rightarrow> bytes \<Rightarrow> bytes \<Rightarrow> bytes option"
  aead_open :: "bytes \<Rightarrow> bytes \<Rightarrow> bytes \<Rightarrow> bytes \<Rightarrow> bytes option"
  hkdf :: "bytes \<Rightarrow> bytes \<Rightarrow> bytes \<Rightarrow> bytes"
  zstd_compress :: "bytes \<Rightarrow> bytes option"
  zstd_decompress :: "bytes \<Rightarrow> nat \<Rightarrow> bytes option"
  low_entropy :: "bytes \<Rightarrow> bool"
  blake3 :: "bytes \<Rightarrow> string"
  random_nonce :: "nat \<Rightarrow> bytes"
  new_uuid :: "nat \<Rightarrow> string"
  uuid_bytes :: "string \<Rightarrow> bytes"

definition NONCE_LEN :: nat where "NONCE_LEN = 24"

definition derive :: "crypto \<Rightarrow> bytes \<Rightarrow> bytes \<Rightarrow> bytes \<Rightarrow> bytes" where
  "derive cr master info salt = hkdf cr salt master info"

definition pack_key :: "crypto \<Rightarrow> bytes \<Rightarrow> string \<Rightarrow> bytes" where
  "pack_key cr master pack_id = derive cr master (as_bytes ''noland-pack-v1'') (as_bytes pack_id)"

record derived_keys =
  catalog_key :: bytes
  manifest_key :: bytes

definition derive_keys :: "crypto \<Rightarrow> bytes \<Rightarrow> derived_keys" where
  "derive_keys cr master =
     \<lparr>catalog_key = derive cr master (as_bytes ''noland-catalog-v1'') [],
      manifest_key = derive cr master (as_bytes ''noland-manifest-v1'') []\<rparr>"

record encrypted_blob =
  blob_nonce :: bytes
  ciphertext :: bytes

text \<open>\<open>n\<close> counts the draws from the random generator.\<close>

definition encrypt :: "crypto \<Rightarrow> nat \<Rightarrow> bytes \<Rightarrow> bytes \<Rightarrow> bytes \<Rightarrow> (state_error, encrypted_blob) result" where
  "encrypt cr n key aad plaintext =
     (let nonce = random_nonce cr n in
      case aead_seal cr key nonce aad plaintext of
        None \<Rightarrow> Inl (Crypto ''encrypt failed'')
      | Some c \<Rightarrow> Inr \<lparr>blob_nonce = nonce, ciphertext = c\<rparr>)"

definition decrypt :: "crypto \<Rightarrow> bytes \<Rightarrow> bytes \<Rightarrow> encrypted_blob \<Rightarrow> (state_error, bytes) result" where
  "decrypt cr key aad blob =
     ok_or (Integrity ''decrypt/authenticate failed'') (aead_open cr key (blob_nonce blob) aad (ciphertext blob))"

definition wrap_envelope :: "crypto \<Rightarrow> nat \<Rightarrow> bytes \<Rightarrow> bytes \<Rightarrow> bytes \<Rightarrow> (state_error, bytes) result" where
  "wrap_envelope cr n key aad plaintext =
     res_bind (encrypt cr n key aad plaintext)
       (\<lambda>blob. Inr (as_bytes ''NLNE'' @ blob_nonce blob @ ciphertext blob))"

definition unwrap_envelope :: "crypto \<Rightarrow> bytes \<Rightarrow> bytes \<Rightarrow> bytes \<Rightarrow> (state_error, bytes) result" where
  "unwrap_envelope cr key aad bs =
     (if length bs < 4 + NONCE_LEN + 16 \<or> take 4 bs \<noteq> as_bytes ''NLNE'' then Inl (Integrity ''invalid envelope'')
      else decrypt cr key aad
        \<lparr>blob_nonce = take NONCE_LEN (drop 4 bs), ciphertext = drop (4 + NONCE_LEN) bs\<rparr>)"

section \<open>The writer\<close>

definition VERSION :: u32 where "VERSION = 2"
definition PACK_HEADER_LEN :: nat where "PACK_HEADER_LEN = 4 + 4 + 16"
definition RECORD_HEADER_LEN :: nat where "RECORD_HEADER_LEN = 4 + 4 + 4 + NONCE_LEN"
definition AEAD_TAG_LEN :: nat where "AEAD_TAG_LEN = 16"

datatype pack_compression = CompNone | CompZstd

record pack_index_entry =
  entry_hash :: string
  entry_pack :: string
  offset :: nat
  ciphertext_len :: u32
  plaintext_len :: u32
  compression :: pack_compression
  entry_nonce :: bytes

record built_pack =
  built_id :: string
  built_path :: string
  built_bytes :: nat
  built_entries :: "pack_index_entry list"

text \<open>
  The directory of packs, the draws and the writes so far. \<open>write_fault k\<close> makes the \<open>k\<close>-th call
  that writes fail after that many bytes; opening a file for writing and removing one are such calls too.
\<close>

record disk =
  packs :: "string \<rightharpoonup> bytes"
  draws :: nat
  ids :: nat
  writes :: nat

record pack_writer =
  pack_id :: string
  path :: string
  key :: bytes
  written :: nat
  entries :: "pack_index_entry list"

definition write_all :: "(nat \<Rightarrow> nat option) \<Rightarrow> string \<Rightarrow> bytes \<Rightarrow> disk \<Rightarrow> (state_error, unit) result \<times> disk" where
  "write_all write_fault p bs d =
     (let old = (case packs d p of None \<Rightarrow> [] | Some f \<Rightarrow> f); d' = d\<lparr>writes := writes d + 1\<rparr> in
      case write_fault (writes d) of
        None \<Rightarrow> (Inr (), d'\<lparr>packs := (packs d)(p \<mapsto> old @ bs)\<rparr>)
      | Some n \<Rightarrow> (Inl Io, d'\<lparr>packs := (packs d)(p \<mapsto> old @ take n bs)\<rparr>))"

fun write_each :: "(nat \<Rightarrow> nat option) \<Rightarrow> string \<Rightarrow> bytes list \<Rightarrow> disk \<Rightarrow> (state_error, unit) result \<times> disk" where
  "write_each write_fault p [] d = (Inr (), d)"
| "write_each write_fault p (b # bs) d =
     (case write_all write_fault p b d of
        (Inl e, d') \<Rightarrow> (Inl e, d')
      | (Inr _, d') \<Rightarrow> write_each write_fault p bs d')"

text \<open>A failure while the header is written returns before there is a writer to drop.\<close>

definition create :: "crypto \<Rightarrow> (nat \<Rightarrow> nat option) \<Rightarrow> bytes \<Rightarrow> disk \<Rightarrow> (state_error, pack_writer) result \<times> disk" where
  "create cr write_fault master d =
     (let pid = new_uuid cr (ids d); k = pack_key cr master pid; p = pid @ ''.pack'';
          d1 = d\<lparr>ids := ids d + 1, writes := writes d + 1\<rparr> in
      if write_fault (writes d) \<noteq> None then (Inl Io, d1)
      else
        case write_each write_fault p [as_bytes ''NLPK'', u32_to_le VERSION, uuid_bytes cr pid]
            (d1\<lparr>packs := (packs d)(p \<mapsto> [])\<rparr>) of
          (Inl e, d2) \<Rightarrow> (Inl e, d2)
        | (Inr _, d2) \<Rightarrow>
            (Inr \<lparr>pack_id = pid, path = p, key = k, written = PACK_HEADER_LEN, entries = []\<rparr>, d2))"

definition compress_chunk :: "crypto \<Rightarrow> bytes \<Rightarrow> (state_error, pack_compression \<times> bytes) result" where
  "compress_chunk cr plaintext =
     (if \<not> should_compress (hint_for (low_entropy cr) plaintext) then Inr (CompNone, plaintext)
      else case zstd_compress cr plaintext of
        None \<Rightarrow> Inl (Message ''chunk compression failed'')
      | Some c \<Rightarrow> if length c \<ge> length plaintext then Inr (CompNone, plaintext) else Inr (CompZstd, c))"

definition record_bytes :: "u32 \<Rightarrow> u32 \<Rightarrow> encrypted_blob \<Rightarrow> bytes list" where
  "record_bytes plen clen blob =
     [as_bytes ''NLCH'', u32_to_le plen, u32_to_le clen, blob_nonce blob, ciphertext blob]"

definition write_chunk ::
  "crypto \<Rightarrow> (nat \<Rightarrow> nat option) \<Rightarrow> string \<Rightarrow> bytes \<Rightarrow> pack_writer \<Rightarrow> disk \<Rightarrow> (state_error, pack_writer) result \<times> disk" where
  "write_chunk cr write_fault hash plaintext w d =
     (if length plaintext \<ge> 2 ^ 32 then (Inl (Message ''chunk plaintext length exceeds pack format''), d)
      else case compress_chunk cr plaintext of
        Inl e \<Rightarrow> (Inl e, d)
      | Inr (meth, stored) \<Rightarrow>
          let d1 = d\<lparr>draws := draws d + 1\<rparr> in
          case encrypt cr (draws d) (key w) (as_bytes hash) stored of
            Inl e \<Rightarrow> (Inl e, d1)
          | Inr blob \<Rightarrow>
              if length (ciphertext blob) \<ge> 2 ^ 32
              then (Inl (Message ''chunk ciphertext length exceeds pack format''), d1)
              else
                let plen = of_nat (length plaintext); clen = of_nat (length (ciphertext blob)) in
                case write_each write_fault (path w) (record_bytes plen clen blob) d1 of
                  (Inl e, d2) \<Rightarrow> (Inl e, d2)
                | (Inr _, d2) \<Rightarrow>
                    (Inr (w\<lparr>written := written w + RECORD_HEADER_LEN + unat clen,
                        entries := entries w @
                          [\<lparr>entry_hash = hash, entry_pack = pack_id w, offset = written w, ciphertext_len = clen,
                            plaintext_len = plen, compression = meth, entry_nonce = blob_nonce blob\<rparr>]\<rparr>), d2))"

definition finish :: "pack_writer \<Rightarrow> built_pack" where
  "finish w = \<lparr>built_id = pack_id w, built_path = path w, built_bytes = written w, built_entries = entries w\<rparr>"

text \<open>\<^verbatim>\<open>Drop\<close> of a writer that was not finished: the outcome of removing its file is ignored.\<close>

definition drop_writer :: "(nat \<Rightarrow> nat option) \<Rightarrow> pack_writer option \<Rightarrow> disk \<Rightarrow> disk" where
  "drop_writer write_fault cur d =
     (case cur of
        None \<Rightarrow> d
      | Some w \<Rightarrow>
          let d' = d\<lparr>writes := writes d + 1\<rparr> in
          case write_fault (writes d) of None \<Rightarrow> d'\<lparr>packs := (packs d)(path w := None)\<rparr> | Some _ \<Rightarrow> d')"

section \<open>The packers\<close>

text \<open>The writer for the next record: the current pack is sealed when it is full.\<close>

definition writer_for ::
  "crypto \<Rightarrow> (nat \<Rightarrow> nat option) \<Rightarrow> bytes \<Rightarrow> nat \<Rightarrow> nat \<Rightarrow> nat \<Rightarrow> pack_writer option \<Rightarrow> built_pack list \<Rightarrow> disk
    \<Rightarrow> (state_error, pack_writer) result \<times> built_pack list \<times> disk" where
  "writer_for cr write_fault master target mx record_len cur out d =
     (let should_seal = (case cur of None \<Rightarrow> False | Some w \<Rightarrow> written w \<ge> target \<or> exceeds (written w) record_len mx);
          out' = (if should_seal then out @ [finish (the cur)] else out);
          cur' = (if should_seal then None else cur)
      in case cur' of
           Some w \<Rightarrow> (Inr w, out', d)
         | None \<Rightarrow> (case create cr write_fault master d of (r, d') \<Rightarrow> (r, out', d')))"

definition record_len_of :: "bytes \<Rightarrow> nat option" where
  "record_len_of payload =
     Option.bind (checked_add64 (length payload) AEAD_TAG_LEN) (checked_add64 RECORD_HEADER_LEN)"

fun pack_loop ::
  "crypto \<Rightarrow> (nat \<Rightarrow> nat option) \<Rightarrow> (string \<Rightarrow> bool) \<Rightarrow> (string \<rightharpoonup> bytes) \<Rightarrow> bytes \<Rightarrow> nat \<Rightarrow> nat
    \<Rightarrow> (string \<times> string) list \<Rightarrow> pack_writer option \<Rightarrow> built_pack list \<Rightarrow> disk
    \<Rightarrow> (state_error, built_pack list) result \<times> disk" where
  "pack_loop cr write_fault known files master target mx [] cur out d =
     (Inr (case cur of None \<Rightarrow> out | Some w \<Rightarrow> out @ [finish w]), d)"
| "pack_loop cr write_fault known files master target mx ((hash, src) # cs) cur out d =
     (if known hash then pack_loop cr write_fault known files master target mx cs cur out d
      else case files src of
        None \<Rightarrow> (Inl Io, drop_writer write_fault cur d)
      | Some payload \<Rightarrow>
        (case record_len_of payload of
           None \<Rightarrow> (Inl (Message ''chunk length exceeds pack format''), drop_writer write_fault cur d)
         | Some record_len \<Rightarrow>
           if exceeds PACK_HEADER_LEN record_len mx
           then (Inl (Message ''chunk exceeds pack hard maximum''), drop_writer write_fault cur d)
           else
             (case writer_for cr write_fault master target mx record_len cur out d of
                (Inl e, out', d1) \<Rightarrow> (Inl e, d1)
              | (Inr w, out', d1) \<Rightarrow>
                (case write_chunk cr write_fault hash payload w d1 of
                   (Inl e, d2) \<Rightarrow> (Inl e, drop_writer write_fault (Some w) d2)
                 | (Inr w', d2) \<Rightarrow>
                     pack_loop cr write_fault known files master target mx cs (Some w') out' d2))))"

definition pack_chunk_files_with_limits ::
  "crypto \<Rightarrow> (nat \<Rightarrow> nat option) \<Rightarrow> (string \<Rightarrow> bool) \<Rightarrow> (string \<rightharpoonup> bytes) \<Rightarrow> bytes \<Rightarrow> (string \<times> string) list \<Rightarrow> nat \<Rightarrow> nat
    \<Rightarrow> disk \<Rightarrow> (state_error, built_pack list) result \<times> disk" where
  "pack_chunk_files_with_limits cr write_fault known files master cs target mx d =
     (if target = 0 \<or> target > mx \<or> mx < PACK_HEADER_LEN then (Inl (Message ''invalid pack size limits''), d)
      else pack_loop cr write_fault known files master target mx cs None [] d)"

section \<open>The reader\<close>

definition read_exact :: "nat \<Rightarrow> nat \<Rightarrow> bytes \<Rightarrow> (state_error, bytes) result" where
  "read_exact off n f = (if off + n \<le> length f then Inr (take n (drop off f)) else Inl Io)"

text \<open>The two halves of \<^verbatim>\<open>extract_chunk\<close>: the checks of the file's header, and the record.\<close>

definition check_header :: "bytes \<Rightarrow> (state_error, unit) result" where
  "check_header head =
     (if take 4 head \<noteq> as_bytes ''NLPK'' then Inl (Integrity ''bad pack header'')
      else
        let version = u32_from_le (drop 4 head) in
        if \<not> (1 \<le> version \<and> version \<le> VERSION) then Inl (Integrity ''unsupported pack version'') else Inr ())"

definition open_record :: "crypto \<Rightarrow> pack_index_entry \<Rightarrow> bytes \<Rightarrow> bytes \<Rightarrow> (state_error, bytes) result" where
  "open_record cr e master buf =
     (if take 4 buf \<noteq> as_bytes ''NLCH'' then Inl (Integrity ''bad pack record'')
      else
        let k = pack_key cr master (entry_pack e);
            blob = \<lparr>blob_nonce = take NONCE_LEN (drop 12 buf), ciphertext = drop (12 + NONCE_LEN) buf\<rparr> in
        res_bind (decrypt cr k (as_bytes (entry_hash e)) blob) (\<lambda>stored.
        res_bind (case compression e of
            CompNone \<Rightarrow> Inr stored
          | CompZstd \<Rightarrow> ok_or (Integrity ''chunk decompression failed'')
              (zstd_decompress cr stored (unat (plaintext_len e)))) (\<lambda>plain.
        if length plain \<noteq> unat (plaintext_len e) \<or> blake3_hex (blake3 cr) plain \<noteq> entry_hash e
        then Inl (Integrity ''chunk hash or length mismatch'')
        else Inr plain)))"

definition extract_chunk :: "crypto \<Rightarrow> bytes option \<Rightarrow> pack_index_entry \<Rightarrow> bytes \<Rightarrow> (state_error, bytes) result" where
  "extract_chunk cr file e master =
     res_bind (ok_or Io file) (\<lambda>f.
     res_bind (read_exact 0 8 f) (\<lambda>head.
     res_bind (check_header head) (\<lambda>_.
     res_bind (read_exact (offset e) (unat (ciphertext_len e) + 4 + 4 + 4 + NONCE_LEN) f)
       (open_record cr e master))))"

definition index_by_hash :: "pack_index_entry list \<Rightarrow> (string \<rightharpoonup> pack_index_entry)" where
  "index_by_hash es = foldl (\<lambda>m e. m(entry_hash e \<mapsto> e)) Map.empty es"

section \<open>What the writer needs of the libraries\<close>

definition crypto_laws :: "crypto \<Rightarrow> bool" where
  "crypto_laws cr \<longleftrightarrow>
     (\<forall>k n a m c. aead_seal cr k n a m = Some c \<longrightarrow> aead_open cr k n a c = Some m \<and> length c = length m + AEAD_TAG_LEN) \<and>
     (\<forall>m c. zstd_compress cr m = Some c \<longrightarrow> zstd_decompress cr c (length m) = Some m) \<and>
     (\<forall>n. length (random_nonce cr n) = NONCE_LEN) \<and>
     (\<forall>n. length (uuid_bytes cr (new_uuid cr n)) = 16) \<and>
     inj (new_uuid cr)"

lemma crypto_lawsD:
  assumes "crypto_laws cr"
  shows "aead_seal cr k n a m = Some c \<Longrightarrow> aead_open cr k n a c = Some m"
    "aead_seal cr k n a m = Some c \<Longrightarrow> length c = length m + AEAD_TAG_LEN"
    "zstd_compress cr m = Some z \<Longrightarrow> zstd_decompress cr z (length m) = Some m"
    "length (random_nonce cr i) = NONCE_LEN"
    "length (uuid_bytes cr (new_uuid cr i)) = 16"
    "new_uuid cr i = new_uuid cr j \<longleftrightarrow> i = j"
  using assms by (auto simp: crypto_laws_def inj_eq)

lemma blob_eta [simp]: "\<lparr>blob_nonce = blob_nonce b, ciphertext = ciphertext b\<rparr> = b"
  for b :: encrypted_blob
  by simp

lemma encrypt_decrypt:
  assumes "crypto_laws cr" "encrypt cr n k aad m = Inr blob"
  shows "decrypt cr k aad blob = Inr m" "length (blob_nonce blob) = NONCE_LEN"
    "length (ciphertext blob) = length m + AEAD_TAG_LEN"
  using assms(2) crypto_lawsD [OF assms(1)]
  by (auto simp: encrypt_def decrypt_def Let_def split: option.splits)

lemma envelope_round_trip:
  assumes "crypto_laws cr" "wrap_envelope cr n k aad m = Inr env"
  shows "unwrap_envelope cr k aad env = Inr m"
proof -
  obtain blob where blob: "encrypt cr n k aad m = Inr blob"
    and env: "env = as_bytes ''NLNE'' @ blob_nonce blob @ ciphertext blob"
    using assms(2) by (auto simp: wrap_envelope_def elim!: res_bind_InrE)
  note laws = encrypt_decrypt [OF assms(1) blob]
  have "take NONCE_LEN (drop 4 env) = blob_nonce blob" "drop (4 + NONCE_LEN) env = ciphertext blob"
    using laws by (simp_all add: env as_bytes_def NONCE_LEN_def)
  then show ?thesis using laws
    by (simp add: unwrap_envelope_def env as_bytes_def AEAD_TAG_LEN_def)
qed

section \<open>Writing\<close>

lemma write_each_frame:
  assumes "write_each write_fault p bs d = (r, d')"
  shows "draws d' = draws d \<and> ids d' = ids d \<and> (\<forall>q. q \<noteq> p \<longrightarrow> packs d' q = packs d q)"
  using assms
proof (induction bs arbitrary: d)
  case (Cons b bs)
  then show ?case
    by (cases "write_fault (writes d)") (auto simp: write_all_def Let_def)
qed simp

lemma write_each_ok:
  assumes "write_each write_fault p bs d = (Inr u, d')" "packs d p = Some f"
  shows "packs d' p = Some (f @ concat bs)"
  using assms
proof (induction bs arbitrary: d f)
  case (Cons b bs)
  then show ?case
    by (cases "write_fault (writes d)") (auto simp: write_all_def Let_def)
qed simp

definition header :: "crypto \<Rightarrow> string \<Rightarrow> bytes" where
  "header cr pid = as_bytes ''NLPK'' @ u32_to_le VERSION @ uuid_bytes cr pid"

lemma create_ok:
  assumes "create cr write_fault master d = (Inr w, d')"
  shows "w = \<lparr>pack_id = new_uuid cr (ids d), path = new_uuid cr (ids d) @ ''.pack'',
      key = pack_key cr master (new_uuid cr (ids d)), written = PACK_HEADER_LEN, entries = []\<rparr>"
    "packs d' (path w) = Some (header cr (pack_id w))" "ids d' = ids d + 1"
    "q \<noteq> path w \<Longrightarrow> packs d' q = packs d q"
proof -
  let ?p = "new_uuid cr (ids d) @ ''.pack''"
  let ?d1 = "d\<lparr>ids := ids d + 1, writes := writes d + 1, packs := (packs d)(?p \<mapsto> [])\<rparr>"
  let ?bs = "[as_bytes ''NLPK'', u32_to_le VERSION, uuid_bytes cr (new_uuid cr (ids d))]"
  obtain u where w: "write_each write_fault ?p ?bs ?d1 = (Inr u, d')"
    and eq: "w = \<lparr>pack_id = new_uuid cr (ids d), path = ?p,
      key = pack_key cr master (new_uuid cr (ids d)), written = PACK_HEADER_LEN, entries = []\<rparr>"
    using assms by (auto simp: create_def Let_def split: if_splits prod.splits sum.splits)
  show "w = \<lparr>pack_id = new_uuid cr (ids d), path = ?p,
      key = pack_key cr master (new_uuid cr (ids d)), written = PACK_HEADER_LEN, entries = []\<rparr>"
    by (rule eq)
  show "packs d' (path w) = Some (header cr (pack_id w))"
    using write_each_ok [OF w, of "[]"] by (simp add: eq header_def)
  show "ids d' = ids d + 1" "q \<noteq> path w \<Longrightarrow> packs d' q = packs d q"
    using write_each_frame [OF w] by (simp_all add: eq)
qed

lemma compress_chunk_stored:
  assumes "crypto_laws cr" "compress_chunk cr m = Inr (meth, stored)"
  shows "length stored \<le> length m"
    "(case meth of CompNone \<Rightarrow> Inr stored | CompZstd \<Rightarrow> ok_or er (zstd_decompress cr stored (length m))) = Inr m"
  using assms(2) crypto_lawsD(3) [OF assms(1)]
  by (auto simp: compress_chunk_def split: if_splits option.splits)

lemma read_exact_append: "read_exact off n f = Inr b \<Longrightarrow> read_exact off n (f @ g) = Inr b"
  by (auto simp: read_exact_def split: if_splits)

text \<open>What a pack already holds stays readable while it grows.\<close>

lemma extract_chunk_append:
  assumes "extract_chunk cr (Some f) e master = Inr m"
  shows "extract_chunk cr (Some (f @ g)) e master = Inr m"
proof -
  let ?n = "unat (ciphertext_len e) + 4 + 4 + 4 + NONCE_LEN"
  obtain hd buf where "read_exact 0 8 f = Inr hd" "check_header hd = Inr ()"
    "read_exact (offset e) ?n f = Inr buf" "open_record cr e master buf = Inr m"
    using assms by (auto simp: extract_chunk_def elim!: res_bind_InrE)
  then show ?thesis
    using read_exact_append [of 0 8 f hd g] read_exact_append [of "offset e" ?n f buf g]
    by (simp add: extract_chunk_def)
qed

lemma u32_length: "n < 2 ^ 32 \<Longrightarrow> unat (of_nat n :: u32) = n"
  by (simp add: unat_of_nat)

lemma extract_written:
  assumes laws: "crypto_laws cr" and comp: "compress_chunk cr m = Inr (meth, stored)"
    and enc: "encrypt cr n (pack_key cr master pid) (as_bytes hash) stored = Inr blob"
    and m32: "length m < 2 ^ 32" and c32: "length (ciphertext blob) < 2 ^ 32"
    and hash: "blake3_hex (blake3 cr) m = hash"
    and head: "8 \<le> length f" "take 8 f = as_bytes ''NLPK'' @ u32_to_le VERSION"
  shows "extract_chunk cr (Some (f @ concat (record_bytes (of_nat (length m)) (of_nat (length (ciphertext blob))) blob)))
    \<lparr>entry_hash = hash, entry_pack = pid, offset = length f, ciphertext_len = of_nat (length (ciphertext blob)),
     plaintext_len = of_nat (length m), compression = meth, entry_nonce = nc\<rparr> master = Inr m"
proof -
  let ?plen = "of_nat (length m) :: u32" and ?clen = "of_nat (length (ciphertext blob)) :: u32"
  let ?rec = "concat (record_bytes ?plen ?clen blob)"
  note enc' = encrypt_decrypt [OF laws enc]
  have len: "length ?rec = unat ?clen + 4 + 4 + 4 + NONCE_LEN"
    using enc'(2) by (simp add: record_bytes_def as_bytes_def u32_length [OF c32])
  have rec: "take 4 ?rec = as_bytes ''NLCH''" "take NONCE_LEN (drop 12 ?rec) = blob_nonce blob"
    "drop (12 + NONCE_LEN) ?rec = ciphertext blob"
    using enc'(2) by (simp_all add: record_bytes_def as_bytes_def NONCE_LEN_def)
  have "read_exact 0 8 (f @ ?rec) = Inr (as_bytes ''NLPK'' @ u32_to_le VERSION)"
    using head by (simp add: read_exact_def)
  moreover have "check_header (as_bytes ''NLPK'' @ u32_to_le VERSION) = Inr ()"
    by (simp add: check_header_def as_bytes_def VERSION_def)
  moreover have "read_exact (length f) (unat ?clen + 4 + 4 + 4 + NONCE_LEN) (f @ ?rec) = Inr ?rec"
    using len by (simp add: read_exact_def)
  ultimately show ?thesis
    using rec enc'(1) compress_chunk_stored(2) [OF laws comp, of "Integrity ''chunk decompression failed''"] hash
    by (cases meth) (simp_all add: extract_chunk_def open_record_def Let_def u32_length [OF m32])
qed

text \<open>One chunk: the record is appended, and reads back.\<close>

lemma write_chunk_frame:
  assumes "write_chunk cr write_fault hash m w d = (r, d')"
  shows "ids d' = ids d" "q \<noteq> path w \<Longrightarrow> packs d' q = packs d q"
  using assms
  by (auto simp: write_chunk_def Let_def dest!: write_each_frame split: if_splits sum.splits prod.splits)

lemma write_chunk_ok:
  assumes laws: "crypto_laws cr" and run: "write_chunk cr write_fault hash m w d = (Inr w', d')"
    and cont: "packs d (path w) = Some f" "written w = length f"
    and head: "8 \<le> length f" "take 8 f = as_bytes ''NLPK'' @ u32_to_le VERSION"
    and key: "key w = pack_key cr master (pack_id w)" and hash: "blake3_hex (blake3 cr) m = hash"
  shows "\<exists>e g. packs d' (path w) = Some (f @ g) \<and> entry_hash e = hash \<and>
    extract_chunk cr (Some (f @ g)) e master = Inr m \<and> length g \<le> RECORD_HEADER_LEN + (length m + AEAD_TAG_LEN) \<and>
    w' = w\<lparr>written := length (f @ g), entries := entries w @ [e]\<rparr>"
proof -
  let ?d1 = "d\<lparr>draws := draws d + 1\<rparr>"
  obtain meth stored blob u where m32: "length m < 2 ^ 32" and comp: "compress_chunk cr m = Inr (meth, stored)"
    and enc: "encrypt cr (draws d) (key w) (as_bytes hash) stored = Inr blob"
    and c32: "length (ciphertext blob) < 2 ^ 32"
    and wr: "write_each write_fault (path w)
      (record_bytes (of_nat (length m)) (of_nat (length (ciphertext blob))) blob) ?d1 = (Inr u, d')"
    and w': "w' = w\<lparr>written := written w + RECORD_HEADER_LEN + unat (of_nat (length (ciphertext blob)) :: u32),
      entries := entries w @ [\<lparr>entry_hash = hash, entry_pack = pack_id w, offset = written w,
        ciphertext_len = of_nat (length (ciphertext blob)), plaintext_len = of_nat (length m),
        compression = meth, entry_nonce = blob_nonce blob\<rparr>]\<rparr>"
    using run by (auto simp: write_chunk_def Let_def split: if_splits sum.splits prod.splits)
  let ?g = "concat (record_bytes (of_nat (length m)) (of_nat (length (ciphertext blob))) blob)"
  note enc' = encrypt_decrypt [OF laws enc]
  have g: "length ?g = RECORD_HEADER_LEN + length (ciphertext blob)"
    using enc'(2) by (simp add: record_bytes_def as_bytes_def RECORD_HEADER_LEN_def)
  have "packs d' (path w) = Some (f @ ?g)" using write_each_ok [OF wr, of f] cont by simp
  moreover note extract_written [OF laws comp enc [unfolded key] m32 c32 hash head, of "blob_nonce blob"]
  moreover have "length ?g \<le> RECORD_HEADER_LEN + (length m + AEAD_TAG_LEN)"
    using g enc'(3) compress_chunk_stored(1) [OF laws comp] by simp
  ultimately show ?thesis
    using g cont(2) w' by (intro exI conjI) (auto simp: u32_length [OF c32])
qed

section \<open>Packing\<close>

text \<open>
  A pack is good when its file has the recorded length, is within the limit, and every index entry
  reads back the payload of its chunk.
\<close>

definition good_pack ::
  "crypto \<Rightarrow> bytes \<Rightarrow> (string \<times> string) list \<Rightarrow> (string \<rightharpoonup> bytes) \<Rightarrow> nat \<Rightarrow> disk \<Rightarrow> built_pack \<Rightarrow> bool" where
  "good_pack cr master cs files mx d b \<longleftrightarrow>
     (\<exists>f. packs d (built_path b) = Some f \<and> length f = built_bytes b \<and> length f \<le> mx \<and>
       8 \<le> length f \<and> take 8 f = as_bytes ''NLPK'' @ u32_to_le VERSION \<and>
       (\<forall>e \<in> set (built_entries b). \<exists>src m. (entry_hash e, src) \<in> set cs \<and> files src = Some m \<and>
         extract_chunk cr (Some f) e master = Inr m))"

definition open_packs :: "pack_writer option \<Rightarrow> built_pack list" where
  "open_packs cur = (case cur of None \<Rightarrow> [] | Some w \<Rightarrow> [finish w])"

definition packs_inv ::
  "crypto \<Rightarrow> bytes \<Rightarrow> (string \<times> string) list \<Rightarrow> (string \<rightharpoonup> bytes) \<Rightarrow> nat \<Rightarrow> pack_writer option \<Rightarrow> built_pack list
    \<Rightarrow> disk \<Rightarrow> bool" where
  "packs_inv cr master cs files mx cur out d \<longleftrightarrow>
     (\<forall>b \<in> set (out @ open_packs cur). good_pack cr master cs files mx d b \<and>
       (\<exists>i < ids d. built_path b = new_uuid cr i @ ''.pack'')) \<and>
     distinct (map built_path (out @ open_packs cur)) \<and>
     (\<forall>w. cur = Some w \<longrightarrow> key w = pack_key cr master (pack_id w))"

lemma good_pack_frame:
  assumes "good_pack cr master cs files mx d b" "packs d' (built_path b) = packs d (built_path b)"
  shows "good_pack cr master cs files mx d' b"
  using assms by (simp add: good_pack_def)

lemma packs_inv_out: "packs_inv cr master cs files mx cur out d \<Longrightarrow> b \<in> set out \<Longrightarrow> good_pack cr master cs files mx d b"
  by (simp add: packs_inv_def)

lemma packs_inv_seal: "packs_inv cr master cs files mx (Some w) out d \<Longrightarrow>
    packs_inv cr master cs files mx None (out @ [finish w]) d"
  by (simp add: packs_inv_def open_packs_def)

lemma packs_inv_create:
  assumes laws: "crypto_laws cr" and inv: "packs_inv cr master cs files mx None out d"
    and mx: "PACK_HEADER_LEN \<le> mx" and run: "create cr write_fault master d = (Inr w, d')"
  shows "packs_inv cr master cs files mx (Some w) out d'" "written w = PACK_HEADER_LEN" "entries w = []"
proof -
  note c = create_ok [OF run]
  show "written w = PACK_HEADER_LEN" "entries w = []" by (simp_all add: c(1))
  have fresh: "built_path b \<noteq> path w" if b: "b \<in> set out" for b
  proof -
    obtain i where "i < ids d" "built_path b = new_uuid cr i @ ''.pack''"
      using inv b by (auto simp: packs_inv_def open_packs_def)
    then show ?thesis using crypto_lawsD(6) [OF laws, of i "ids d"] by (simp add: c(1))
  qed
  have "good_pack cr master cs files mx d' (finish w)"
    using c(2) mx crypto_lawsD(5) [OF laws]
    by (simp add: good_pack_def finish_def c(1) header_def PACK_HEADER_LEN_def as_bytes_def)
  moreover have "good_pack cr master cs files mx d' b" if "b \<in> set out" for b
    by (rule good_pack_frame [OF packs_inv_out [OF inv that] c(4)]) (rule fresh [OF that])
  moreover have "built_path (finish w) = new_uuid cr (ids d) @ ''.pack''" by (simp add: finish_def c(1))
  ultimately show "packs_inv cr master cs files mx (Some w) out d'"
    using inv fresh by (auto simp: packs_inv_def open_packs_def c(3) c(1) finish_def less_Suc_eq)
qed

lemma packs_inv_write:
  assumes laws: "crypto_laws cr" and inv: "packs_inv cr master cs files mx (Some w) out d"
    and run: "write_chunk cr write_fault hash m w d = (Inr w', d')"
    and chunk: "(hash, src) \<in> set cs" "files src = Some m" "blake3_hex (blake3 cr) m = hash"
    and fits: "written w + (RECORD_HEADER_LEN + (length m + AEAD_TAG_LEN)) \<le> mx"
  shows "packs_inv cr master cs files mx (Some w') out d'" "map entry_hash (entries w') = map entry_hash (entries w) @ [hash]"
proof -
  have gw: "good_pack cr master cs files mx d (finish w)" using inv by (simp add: packs_inv_def open_packs_def)
  then obtain f where f: "packs d (path w) = Some f" "written w = length f" "8 \<le> length f"
    "take 8 f = as_bytes ''NLPK'' @ u32_to_le VERSION"
    and old: "\<And>e. e \<in> set (entries w) \<Longrightarrow> \<exists>src m. (entry_hash e, src) \<in> set cs \<and> files src = Some m \<and>
      extract_chunk cr (Some f) e master = Inr m"
    by (auto simp: good_pack_def finish_def)
  have key: "key w = pack_key cr master (pack_id w)" using inv by (simp add: packs_inv_def)
  obtain e g where g: "packs d' (path w) = Some (f @ g)" "entry_hash e = hash"
    "extract_chunk cr (Some (f @ g)) e master = Inr m" "length g \<le> RECORD_HEADER_LEN + (length m + AEAD_TAG_LEN)"
    and w': "w' = w\<lparr>written := length (f @ g), entries := entries w @ [e]\<rparr>"
    using write_chunk_ok [OF laws run f key chunk(3)] by blast
  note frame = write_chunk_frame [OF run]
  have same: "built_path (finish w') = path w" "path w \<notin> built_path ` set out"
    using inv by (auto simp: packs_inv_def open_packs_def finish_def w')
  have "good_pack cr master cs files mx d' (finish w')"
    unfolding good_pack_def
    using g f(2-) fits chunk extract_chunk_append [of cr f _ master _ g]
    by (intro exI [of _ "f @ g"]) (auto simp: finish_def w' dest!: old)
  moreover have "good_pack cr master cs files mx d' b" if "b \<in> set out" for b
    by (rule good_pack_frame [OF packs_inv_out [OF inv that] frame(2)]) (use same(2) that in \<open>metis imageI\<close>)
  ultimately show "packs_inv cr master cs files mx (Some w') out d'"
    using inv same frame(1) key by (auto simp: packs_inv_def open_packs_def finish_def w')
  show "map entry_hash (entries w') = map entry_hash (entries w) @ [hash]" by (simp add: w' g(2))
qed

lemma record_len_of_Some: "record_len_of m = Some n \<Longrightarrow> n = RECORD_HEADER_LEN + (length m + AEAD_TAG_LEN)"
  by (auto simp: record_len_of_def checked_add64_def bind_eq_Some_conv split: if_splits)

definition hashes_of :: "built_pack list \<Rightarrow> string list" where
  "hashes_of bs = map entry_hash (concat (map built_entries bs))"

lemma hashes_of_append [simp]: "hashes_of (bs @ cs) = hashes_of bs @ hashes_of cs"
  by (simp add: hashes_of_def)

lemma writer_for_ok:
  assumes laws: "crypto_laws cr" and inv: "packs_inv cr master cs files mx cur out d"
    and run: "writer_for cr write_fault master target mx n cur out d = (Inr w, out', d')"
    and fits: "\<not> exceeds PACK_HEADER_LEN n mx"
  shows "packs_inv cr master cs files mx (Some w) out' d' \<and> written w + n \<le> mx \<and>
    hashes_of (out' @ open_packs (Some w)) = hashes_of (out @ open_packs cur)"
proof -
  have mx: "PACK_HEADER_LEN + n \<le> mx" by (rule not_exceeds [OF fits])
  have fresh: ?thesis
    if "packs_inv cr master cs files mx None out' d" "create cr write_fault master d = (Inr w, d')"
      "hashes_of out' = hashes_of (out @ open_packs cur)"
    using packs_inv_create [OF laws that(1) _ that(2)] that(3) mx
    by (simp add: open_packs_def finish_def hashes_of_def)
  show ?thesis
  proof (cases cur)
    case None
    then show ?thesis using run inv
      by (intro fresh) (auto simp: writer_for_def open_packs_def split: prod.splits)
  next
    case (Some w0)
    show ?thesis
    proof (cases "written w0 \<ge> target \<or> exceeds (written w0) n mx")
      case True
      then show ?thesis using run inv packs_inv_seal [of cr master cs files mx w0 out d]
        by (intro fresh) (auto simp: Some writer_for_def open_packs_def split: prod.splits)
    next
      case False
      then show ?thesis using run inv not_exceeds [of "written w0" n mx]
        by (auto simp: Some writer_for_def)
    qed
  qed
qed

definition unknown :: "(string \<Rightarrow> bool) \<Rightarrow> (string \<times> string) list \<Rightarrow> string list" where
  "unknown known cs = map fst (filter (\<lambda>c. \<not> known (fst c)) cs)"

lemma pack_loop_ok:
  assumes laws: "crypto_laws cr"
    and named: "\<And>h src m. (h, src) \<in> set all \<Longrightarrow> files src = Some m \<Longrightarrow> blake3_hex (blake3 cr) m = h"
    and run: "pack_loop cr write_fault known files master target mx cs cur out d = (Inr bs, d')"
    and inv: "packs_inv cr master all files mx cur out d" and sub: "set cs \<subseteq> set all"
  shows "packs_inv cr master all files mx None bs d' \<and>
    hashes_of bs = hashes_of (out @ open_packs cur) @ unknown known cs"
  using run inv sub
proof (induction cs arbitrary: cur out d)
  case Nil
  then show ?case by (cases cur) (auto simp: packs_inv_seal open_packs_def unknown_def)
next
  case (Cons c cs)
  obtain hash src where c: "c = (hash, src)" by fastforce
  show ?case
  proof (cases "known hash")
    case True
    then show ?thesis using Cons by (simp add: c unknown_def)
  next
    case False
    obtain m n w out1 d1 w' d2 where m: "files src = Some m" and n: "record_len_of m = Some n"
      and fits: "\<not> exceeds PACK_HEADER_LEN n mx"
      and wf: "writer_for cr write_fault master target mx n cur out d = (Inr w, out1, d1)"
      and wc: "write_chunk cr write_fault hash m w d1 = (Inr w', d2)"
      and rest: "pack_loop cr write_fault known files master target mx cs (Some w') out1 d2 = (Inr bs, d')"
      using Cons.prems(1) False by (auto simp: c split: if_splits option.splits prod.splits sum.splits)
    note w = writer_for_ok [OF laws Cons.prems(2) wf fits]
    have chunk: "(hash, src) \<in> set all" using Cons.prems(3) by (simp add: c)
    note wr = packs_inv_write [OF laws conjunct1 [OF w] wc chunk m named [OF chunk m]]
    have inv2: "packs_inv cr master all files mx (Some w') out1 d2"
      and hs: "map entry_hash (entries w') = map entry_hash (entries w) @ [hash]"
      using wr w record_len_of_Some [OF n] by simp_all
    show ?thesis using Cons.IH [OF rest inv2] Cons.prems(3) w hs False
      by (simp add: c unknown_def open_packs_def finish_def hashes_of_def)
  qed
qed

section \<open>Packing succeeds\<close>

definition crypto_total :: "crypto \<Rightarrow> bool" where
  "crypto_total cr \<longleftrightarrow>
     (\<forall>k n a m. length m < 2 ^ 32 \<longrightarrow> aead_seal cr k n a m \<noteq> None) \<and> (\<forall>m. zstd_compress cr m \<noteq> None)"

definition no_fault :: "nat \<Rightarrow> nat option" where
  "no_fault k = None"

lemma write_each_total: "\<exists>d'. write_each no_fault p bs d = (Inr (), d')"
  by (induction bs arbitrary: d) (auto simp: write_all_def Let_def no_fault_def)

lemma create_total: "\<exists>w d'. create cr no_fault master d = (Inr w, d')"
proof -
  obtain d' where "write_each no_fault (new_uuid cr (ids d) @ ''.pack'')
      [as_bytes ''NLPK'', u32_to_le VERSION, uuid_bytes cr (new_uuid cr (ids d))]
      (d\<lparr>ids := ids d + 1, writes := writes d + 1, packs := (packs d)(new_uuid cr (ids d) @ ''.pack'' \<mapsto> [])\<rparr>) = (Inr (), d')"
    using write_each_total by blast
  then show ?thesis by (auto simp: create_def Let_def no_fault_def)
qed

lemma write_chunk_total:
  assumes "crypto_laws cr" "crypto_total cr" "length m + AEAD_TAG_LEN < 2 ^ 32"
  shows "\<exists>w' d'. write_chunk cr no_fault hash m w d = (Inr w', d')"
proof -
  obtain z where "zstd_compress cr m = Some z" using assms(2) unfolding crypto_total_def by blast
  then have "\<exists>meth stored. compress_chunk cr m = Inr (meth, stored)" by (simp add: compress_chunk_def)
  then obtain meth stored where comp: "compress_chunk cr m = Inr (meth, stored)" by blast
  have len: "length stored + AEAD_TAG_LEN < 2 ^ 32"
    using compress_chunk_stored(1) [OF assms(1) comp] assms(3) by linarith
  then obtain c where "aead_seal cr (key w) (random_nonce cr (draws d)) (as_bytes hash) stored = Some c"
    using assms(2) by (fastforce simp: crypto_total_def)
  then obtain blob where enc: "encrypt cr (draws d) (key w) (as_bytes hash) stored = Inr blob"
    by (simp add: encrypt_def Let_def)
  then have c32: "length (ciphertext blob) < 2 ^ 32" using encrypt_decrypt(3) [OF assms(1) enc] len by simp
  obtain d' where "write_each no_fault (path w)
      (record_bytes (of_nat (length m)) (of_nat (length (ciphertext blob))) blob) (d\<lparr>draws := draws d + 1\<rparr>) = (Inr (), d')"
    using write_each_total by blast
  then show ?thesis using comp enc c32 assms(3) by (simp add: write_chunk_def Let_def)
qed

lemma writer_for_total: "\<exists>w out' d'. writer_for cr no_fault master target mx n cur out d = (Inr w, out', d')"
  using create_total [of cr master d]
  by (auto simp: writer_for_def Let_def split: option.splits)

definition packable :: "(string \<rightharpoonup> bytes) \<Rightarrow> nat \<Rightarrow> string \<Rightarrow> bool" where
  "packable files mx src \<longleftrightarrow>
     (case files src of None \<Rightarrow> False
      | Some m \<Rightarrow> length m + AEAD_TAG_LEN < 2 ^ 32 \<and>
          PACK_HEADER_LEN + (RECORD_HEADER_LEN + (length m + AEAD_TAG_LEN)) \<le> mx)"

lemma pack_loop_total:
  assumes "crypto_laws cr" "crypto_total cr"
    and "\<forall>c \<in> set cs. packable files mx (snd c)"
  shows "\<exists>bs d'. pack_loop cr no_fault known files master target mx cs cur out d = (Inr bs, d')"
  using assms(3)
proof (induction cs arbitrary: cur out d)
  case (Cons c cs)
  obtain hash src where c: "c = (hash, src)" by fastforce
  obtain m where m: "files src = Some m" "length m + AEAD_TAG_LEN < 2 ^ 32"
    "PACK_HEADER_LEN + (RECORD_HEADER_LEN + (length m + AEAD_TAG_LEN)) \<le> mx"
    using Cons.prems by (auto simp: c packable_def split: option.splits)
  let ?n = "RECORD_HEADER_LEN + (length m + AEAD_TAG_LEN)"
  have n: "record_len_of m = Some ?n" "\<not> exceeds PACK_HEADER_LEN ?n mx"
    using m(2,3) by (simp_all add: record_len_of_def exceeds_def checked_add64_def RECORD_HEADER_LEN_def NONCE_LEN_def PACK_HEADER_LEN_def)
  obtain w out1 d1 where "writer_for cr no_fault master target mx ?n cur out d = (Inr w, out1, d1)"
    using writer_for_total by blast
  moreover obtain w' d2 where "write_chunk cr no_fault hash m w d1 = (Inr w', d2)"
    using write_chunk_total [OF assms(1,2) m(2)] by blast
  ultimately show ?case using Cons.IH Cons.prems m(1) n by (simp add: c)
qed simp

section \<open>What a failure leaves behind\<close>


definition new_name :: "crypto \<Rightarrow> nat \<Rightarrow> string \<Rightarrow> bool" where
  "new_name cr n p \<longleftrightarrow> (\<exists>i \<ge> n. p = new_uuid cr i @ ''.pack'')"

definition changes :: "crypto \<Rightarrow> disk \<Rightarrow> pack_writer option \<Rightarrow> built_pack list \<Rightarrow> disk \<Rightarrow> bool" where
  "changes cr d0 cur out d \<longleftrightarrow> ids d0 \<le> ids d \<and>
     (\<forall>b \<in> set (out @ open_packs cur). new_name cr (ids d0) (built_path b)) \<and>
     (\<forall>w. cur = Some w \<longrightarrow> path w = new_uuid cr (ids d - 1) @ ''.pack'') \<and>
     (\<forall>p. packs d p \<noteq> packs d0 p \<longrightarrow> p \<in> built_path ` set (out @ open_packs cur))"















section \<open>Properties\<close>

definition named_by_content :: "crypto \<Rightarrow> (string \<rightharpoonup> bytes) \<Rightarrow> (string \<times> string) list \<Rightarrow> bool" where
  "named_by_content cr files cs \<longleftrightarrow>
     (\<forall>c \<in> set cs. \<forall>m. files (snd c) = Some m \<longrightarrow> blake3_hex (blake3 cr) m = fst c)"

lemma named_by_contentD:
  "named_by_content cr files cs \<Longrightarrow> (h, src) \<in> set cs \<Longrightarrow> files src = Some m \<Longrightarrow> blake3_hex (blake3 cr) m = h"
  by (force simp: named_by_content_def)

lemma packs_inv_start: "packs_inv cr master cs files mx None [] d" "changes cr d None [] d"
  by (simp_all add: packs_inv_def open_packs_def changes_def)

text \<open>C12: what is packed can be read back. If the chunk files exist, are named by their content and fit,
  and nothing fails to be written, packing returns; the index entries of its packs name exactly the
  chunks that were not already known, in order, each once per occurrence; and extracting an entry from
  its pack file with the same master key gives the bytes of its chunk file. This rests on
  decryption and decompression inverting encryption and compression, and on fresh pack ids.\<close>

theorem packed_chunks_extract:
  assumes "crypto_laws cr" "crypto_total cr" "named_by_content cr files cs"
    and "\<forall>c \<in> set cs. packable files mx (snd c)" "0 < target" "target \<le> mx" "PACK_HEADER_LEN \<le> mx"
  shows "\<exists>bs d'. pack_chunk_files_with_limits cr no_fault known files master cs target mx d = (Inr bs, d') \<and>
    hashes_of bs = unknown known cs \<and>
    (\<forall>b \<in> set bs. \<forall>e \<in> set (built_entries b). \<exists>src m. (entry_hash e, src) \<in> set cs \<and> files src = Some m \<and>
      extract_chunk cr (packs d' (built_path b)) e master = Inr m)"
proof -
  obtain bs d' where run: "pack_loop cr no_fault known files master target mx cs None [] d = (Inr bs, d')"
    using pack_loop_total [OF assms(1,2,4)] by blast
  have ok: "packs_inv cr master cs files mx None bs d'" "hashes_of bs = unknown known cs"
    using pack_loop_ok [OF assms(1) named_by_contentD [OF assms(3)] run packs_inv_start(1)]
    by (simp_all add: hashes_of_def open_packs_def)
  have "\<exists>src m. (entry_hash e, src) \<in> set cs \<and> files src = Some m \<and>
      extract_chunk cr (packs d' (built_path b)) e master = Inr m"
    if "b \<in> set bs" "e \<in> set (built_entries b)" for b e
    using packs_inv_out [OF ok(1) that(1)] that(2) by (auto simp: good_pack_def)
  then show ?thesis using run ok(2) assms(5-7) by (simp add: pack_chunk_files_with_limits_def)
qed

text \<open>Packs keep to the hard maximum. Whatever fails to be written, whenever packing returns packs,
  each has its own file, the file is as long as the pack records, and it is not longer than the
  maximum: the size estimate made before a chunk is compressed and encrypted is an upper bound.\<close>

theorem packs_within_limits:
  assumes "crypto_laws cr" "named_by_content cr files cs"
    and "pack_chunk_files_with_limits cr write_fault known files master cs target mx d = (Inr bs, d')"
  shows "distinct (map built_path bs) \<and>
    (\<forall>b \<in> set bs. \<exists>f. packs d' (built_path b) = Some f \<and> length f = built_bytes b \<and> built_bytes b \<le> mx)"
proof -
  have "pack_loop cr write_fault known files master target mx cs None [] d = (Inr bs, d')"
    using assms(3) by (simp add: pack_chunk_files_with_limits_def split: if_splits)
  then have inv: "packs_inv cr master cs files mx None bs d'"
    using pack_loop_ok [OF assms(1) named_by_contentD [OF assms(2)] _ packs_inv_start(1)] by simp
  then show ?thesis using packs_inv_out [OF inv]
    by (fastforce simp: packs_inv_def good_pack_def open_packs_def)
qed


section \<open>Witnesses\<close>

definition plain_crypto :: crypto where
  "plain_crypto = \<lparr>aead_seal = \<lambda>k n a m. Some (m @ replicate 16 0), aead_open = \<lambda>k n a c. Some (take (length c - 16) c),
     hkdf = \<lambda>s m i. [], zstd_compress = \<lambda>m. Some m, zstd_decompress = \<lambda>c n. Some c, low_entropy = \<lambda>_. True,
     blake3 = \<lambda>m. map (char_of \<circ> unat) m, random_nonce = \<lambda>n. replicate 24 0,
     new_uuid = \<lambda>n. replicate n CHR ''a'', uuid_bytes = \<lambda>_. replicate 16 0\<rparr>"

definition two_files :: "string \<rightharpoonup> bytes" where
  "two_files = [''x'' \<mapsto> [65, 66], ''y'' \<mapsto> [67]]"

definition two_chunks :: "(string \<times> string) list" where
  "two_chunks = [(''blake3:AB'', ''x''), (''blake3:C'', ''y'')]"

definition empty_disk :: disk where
  "empty_disk = \<lparr>packs = Map.empty, draws = 0, ids = 0, writes = 0\<rparr>"

lemma plain_crypto_laws: "crypto_laws plain_crypto" "crypto_total plain_crypto"
  by (auto simp: crypto_laws_def crypto_total_def plain_crypto_def AEAD_TAG_LEN_def NONCE_LEN_def intro!: injI)

lemma two_chunks_named: "named_by_content plain_crypto two_files two_chunks"
proof -
  have "char_of (65 :: nat) = CHR ''A''" "char_of (66 :: nat) = CHR ''B''" "char_of (67 :: nat) = CHR ''C''"
    by code_simp+
  then show ?thesis
    by (simp add: named_by_content_def two_chunks_def two_files_def plain_crypto_def blake3_hex_def)
qed

lemma two_chunks_fit: "\<forall>c \<in> set two_chunks. packable two_files 100 (snd c)"
  by (simp add: two_chunks_def two_files_def packable_def AEAD_TAG_LEN_def RECORD_HEADER_LEN_def NONCE_LEN_def PACK_HEADER_LEN_def)

theorem packed_chunks_extract_witness:
  "crypto_laws plain_crypto \<and> named_by_content plain_crypto two_files two_chunks \<and>
   (\<exists>bs d'. pack_chunk_files_with_limits plain_crypto no_fault (\<lambda>_. False) two_files [] two_chunks 80 100 empty_disk = (Inr bs, d') \<and>
     hashes_of bs = [''blake3:AB'', ''blake3:C''])"
proof -
  from packed_chunks_extract [OF plain_crypto_laws two_chunks_named two_chunks_fit, of 80 "\<lambda>_. False" "[]" empty_disk]
  show ?thesis using plain_crypto_laws(1) two_chunks_named
    by (auto simp: PACK_HEADER_LEN_def unknown_def two_chunks_def)
qed

theorem packs_within_limits_witness:
  "crypto_laws plain_crypto \<and> named_by_content plain_crypto two_files two_chunks \<and>
   (\<exists>bs d'. pack_chunk_files_with_limits plain_crypto no_fault (\<lambda>_. False) two_files [] two_chunks 80 100 empty_disk = (Inr bs, d') \<and>
     hashes_of bs = [''blake3:AB'', ''blake3:C''] \<and> distinct (map built_path bs) \<and> (\<forall>b \<in> set bs. built_bytes b \<le> 100))"
proof -
  obtain bs d' where loop: "pack_loop plain_crypto no_fault (\<lambda>_. False) two_files [] 80 100 two_chunks None [] empty_disk = (Inr bs, d')"
    using pack_loop_total [OF plain_crypto_laws two_chunks_fit] by blast
  then have run: "pack_chunk_files_with_limits plain_crypto no_fault (\<lambda>_. False) two_files [] two_chunks 80 100 empty_disk = (Inr bs, d')"
    by (simp add: pack_chunk_files_with_limits_def PACK_HEADER_LEN_def)
  have "hashes_of bs = unknown (\<lambda>_. False) two_chunks"
    using pack_loop_ok [OF plain_crypto_laws(1) named_by_contentD [OF two_chunks_named] loop packs_inv_start(1)]
    by (simp add: hashes_of_def open_packs_def)
  then show ?thesis
    using packs_within_limits [OF plain_crypto_laws(1) two_chunks_named run] run plain_crypto_laws(1) two_chunks_named
    by (fastforce simp: unknown_def two_chunks_def)
qed



end
