(* ===== verification/Backup_Packs.thy ===== *)
theory Backup_Packs
  imports Pack "HOL-Library.Char_ord" "HOL-Library.List_Lexorder"
begin

text \<open>
  How a backup turns its new chunks into packs (\<^verbatim>\<open>noland-state-agent/src/backup.rs\<close>): the planner that
  groups them, and the single-threaded path of \<^verbatim>\<open>build_packs_parallel\<close>. The planner works on the sizes
  of the chunk files alone, before compression; the worker threads keep only the last pack that
  packing a plan returns, so each plan has to fit in one pack.
\<close>

section \<open>The planner\<close>

definition PACK_HEADER_BYTES :: nat where "PACK_HEADER_BYTES = 24"
definition RECORD_OVERHEAD_BYTES :: nat where "RECORD_OVERHEAD_BYTES = 52"

fun plan_loop ::
  "(string \<rightharpoonup> bytes) \<Rightarrow> nat \<Rightarrow> nat \<Rightarrow> (string \<times> string) list \<Rightarrow> (string \<times> string) list list \<Rightarrow> (string \<times> string) list \<Rightarrow> nat
    \<Rightarrow> (state_error, (string \<times> string) list list) result" where
  "plan_loop files target mx [] plans cur cur_bytes = Inr (if cur = [] then plans else plans @ [cur])"
| "plan_loop files target mx ((hash, src) # cs) plans cur cur_bytes =
     (case files src of
        None \<Rightarrow> Inl Io
      | Some payload \<Rightarrow>
        (case checked_add64 RECORD_OVERHEAD_BYTES (length payload) of
           None \<Rightarrow> Inl (Message ''chunk length exceeds pack format'')
         | Some n \<Rightarrow>
           if exceeds PACK_HEADER_BYTES n mx then Inl (Message ''chunk exceeds pack hard maximum'')
           else if cur \<noteq> [] \<and> (cur_bytes \<ge> target \<or> exceeds cur_bytes n mx)
           then plan_loop files target mx cs (plans @ [cur]) [(hash, src)] (PACK_HEADER_BYTES + n)
           else plan_loop files target mx cs plans (cur @ [(hash, src)]) (cur_bytes + n)))"

definition plan_pack_chunks ::
  "(string \<rightharpoonup> bytes) \<Rightarrow> (string \<times> string) list \<Rightarrow> nat \<Rightarrow> nat \<Rightarrow> (state_error, (string \<times> string) list list) result" where
  "plan_pack_chunks files cs target mx =
     (if target = 0 \<or> target > mx then Inl (Invalid ''invalid pack size limits'')
      else plan_loop files target mx (sort_key fst cs) [] [] PACK_HEADER_BYTES)"

section \<open>Building, one plan after the other\<close>

definition cancellation_error :: state_error where
  "cancellation_error = Invalid ''backup cancellation requested''"

text \<open>\<open>cancelled k\<close> answers the \<open>k\<close>-th cancellation check.\<close>

fun build_each ::
  "crypto \<Rightarrow> (nat \<Rightarrow> nat option) \<Rightarrow> (string \<rightharpoonup> bytes) \<Rightarrow> bytes \<Rightarrow> nat \<Rightarrow> nat \<Rightarrow> (nat \<Rightarrow> bool) \<Rightarrow> nat
    \<Rightarrow> (string \<times> string) list list \<Rightarrow> built_pack list \<Rightarrow> disk \<Rightarrow> (state_error, built_pack list) result \<times> disk" where
  "build_each cr write_fault files master target mx cancelled k [] built d = (Inr built, d)"
| "build_each cr write_fault files master target mx cancelled k (plan # plans) built d =
     (if cancelled k then (Inl cancellation_error, d)
      else case pack_chunk_files_with_limits cr write_fault (\<lambda>_. False) files master plan target mx d of
        (Inl e, d') \<Rightarrow> (Inl e, d')
      | (Inr bs, d') \<Rightarrow>
          build_each cr write_fault files master target mx cancelled (k + 1) plans (built @ bs) d')"

definition build_packs_one_worker ::
  "crypto \<Rightarrow> (nat \<Rightarrow> nat option) \<Rightarrow> (string \<rightharpoonup> bytes) \<Rightarrow> bytes \<Rightarrow> (string \<times> string) list \<Rightarrow> nat \<Rightarrow> nat \<Rightarrow> (nat \<Rightarrow> bool)
    \<Rightarrow> disk \<Rightarrow> (state_error, built_pack list) result \<times> disk" where
  "build_packs_one_worker cr write_fault files master cs target mx cancelled d =
     (case plan_pack_chunks files cs target mx of
        Inl e \<Rightarrow> (Inl e, d)
      | Inr plans \<Rightarrow>
          if plans = [] then (Inr [], d)
          else build_each cr write_fault files master target mx cancelled 0 plans [] d)"

text \<open>What a worker thread makes of one plan: it pops the last pack.\<close>

definition worker_pack ::
  "crypto \<Rightarrow> (nat \<Rightarrow> nat option) \<Rightarrow> (string \<rightharpoonup> bytes) \<Rightarrow> bytes \<Rightarrow> nat \<Rightarrow> nat \<Rightarrow> (string \<times> string) list \<Rightarrow> disk
    \<Rightarrow> (state_error, built_pack) result \<times> disk" where
  "worker_pack cr write_fault files master target mx plan d =
     (case pack_chunk_files_with_limits cr write_fault (\<lambda>_. False) files master plan target mx d of
        (Inl e, d') \<Rightarrow> (Inl e, d')
      | (Inr bs, d') \<Rightarrow> (if bs = [] then Inl (Message ''pack plan produced no pack'') else Inr (List.last bs), d'))"

section \<open>A plan is one pack\<close>

definition record_estimate :: "(string \<rightharpoonup> bytes) \<Rightarrow> string \<times> string \<Rightarrow> nat" where
  "record_estimate files c = RECORD_OVERHEAD_BYTES + (case files (snd c) of None \<Rightarrow> 0 | Some m \<Rightarrow> length m)"

definition estimate :: "(string \<rightharpoonup> bytes) \<Rightarrow> (string \<times> string) list \<Rightarrow> nat" where
  "estimate files cs = PACK_HEADER_BYTES + sum_list (map (record_estimate files) cs)"

text \<open>The chunks \<open>cs\<close> can be added to a pack of at most \<open>n\<close> bytes without sealing it.\<close>

fun fits :: "(string \<rightharpoonup> bytes) \<Rightarrow> nat \<Rightarrow> nat \<Rightarrow> nat \<Rightarrow> (string \<times> string) list \<Rightarrow> bool" where
  "fits files target mx n [] \<longleftrightarrow> True"
| "fits files target mx n (c # cs) \<longleftrightarrow>
     n < target \<and> n + record_estimate files c \<le> mx \<and> fits files target mx (n + record_estimate files c) cs"

lemma fits_snoc:
  "fits files target mx n (cs @ [c]) \<longleftrightarrow> fits files target mx n cs \<and>
     n + sum_list (map (record_estimate files) cs) < target \<and>
     n + sum_list (map (record_estimate files) cs) + record_estimate files c \<le> mx"
  by (induction cs arbitrary: n) (auto simp: add.assoc)

fun one_pack :: "(string \<rightharpoonup> bytes) \<Rightarrow> nat \<Rightarrow> nat \<Rightarrow> (string \<times> string) list \<Rightarrow> bool" where
  "one_pack files target mx [] \<longleftrightarrow> False"
| "one_pack files target mx (c # cs) \<longleftrightarrow> fits files target mx (estimate files [c]) cs"

lemma one_pack_snoc:
  "cs \<noteq> [] \<Longrightarrow> one_pack files target mx (cs @ [c]) \<longleftrightarrow> one_pack files target mx cs \<and>
     estimate files cs < target \<and> estimate files cs + record_estimate files c \<le> mx"
  by (cases cs) (auto simp: fits_snoc estimate_def add.assoc)

lemma one_pack_single [simp]: "one_pack files target mx [c]"
  by simp

lemma plan_loop_sound:
  assumes "plan_loop files target mx cs plans cur n = Inr ps" "n = estimate files cur"
    and "\<forall>p \<in> set plans. one_pack files target mx p" "cur \<noteq> [] \<Longrightarrow> one_pack files target mx cur"
  shows "concat ps = concat plans @ cur @ cs \<and> (\<forall>p \<in> set ps. one_pack files target mx p)"
  using assms
proof (induction files target mx cs plans cur n rule: plan_loop.induct)
  case (2 files target mx hash src cs plans cur n)
  obtain m where m: "files src = Some m" "checked_add64 RECORD_OVERHEAD_BYTES (length m) = Some (RECORD_OVERHEAD_BYTES + length m)"
    using 2(3) by (auto simp: checked_add64_def split: option.splits if_splits)
  let ?k = "RECORD_OVERHEAD_BYTES + length m"
  have k: "record_estimate files (hash, src) = ?k" by (simp add: record_estimate_def m)
  have fit: "\<not> exceeds PACK_HEADER_BYTES ?k mx" using 2(3) m by (auto split: if_splits)
  show ?case
  proof (cases "cur \<noteq> [] \<and> (n \<ge> target \<or> exceeds n ?k mx)")
    case True
    have "plan_loop files target mx cs (plans @ [cur]) [(hash, src)] (PACK_HEADER_BYTES + ?k) = Inr ps"
      using 2(3) m fit True by simp
    from 2(1) [OF m fit True this] show ?thesis using 2(5,6) True by (simp add: estimate_def k)
  next
    case False
    have "one_pack files target mx (cur @ [(hash, src)])"
    proof (cases "cur = []")
      case ne: False
      then show ?thesis using False 2(4,6) not_exceeds [of n ?k mx] by (auto simp: one_pack_snoc k)
    qed simp
    moreover have "plan_loop files target mx cs plans (cur @ [(hash, src)]) (n + ?k) = Inr ps"
      using 2(3) m fit False by (simp del: de_Morgan_conj)
    ultimately show ?thesis using 2(2) [OF m fit False] 2(4,5) by (simp add: estimate_def k)
  qed
qed (auto split: if_splits)

section \<open>Packing a plan\<close>

lemma write_chunk_size:
  assumes "crypto_laws cr" "write_chunk cr write_fault hash m w d = (Inr w', d')"
  shows "written w' \<le> written w + (RECORD_OVERHEAD_BYTES + length m)"
proof -
  obtain meth stored blob where comp: "compress_chunk cr m = Inr (meth, stored)"
    and enc: "encrypt cr (draws d) (key w) (as_bytes hash) stored = Inr blob" "length (ciphertext blob) < 2 ^ 32"
    and w': "written w' = written w + RECORD_HEADER_LEN + unat (of_nat (length (ciphertext blob)) :: u32)"
    using assms(2) by (auto simp: write_chunk_def Let_def split: if_splits sum.splits prod.splits)
  have "length (ciphertext blob) \<le> length m + AEAD_TAG_LEN"
    using encrypt_decrypt(3) [OF assms(1) enc(1)] compress_chunk_stored(1) [OF assms(1) comp] by simp
  then show ?thesis
    unfolding w' u32_length [OF enc(2)]
    by (simp add: RECORD_HEADER_LEN_def RECORD_OVERHEAD_BYTES_def NONCE_LEN_def AEAD_TAG_LEN_def)
qed

text \<open>A writer that is not larger than planned is never sealed before the end of the plan.\<close>

lemma pack_loop_unsealed:
  assumes laws: "crypto_laws cr" and mx: "mx < 2 ^ 64"
    and run: "pack_loop cr write_fault (\<lambda>_. False) files master target mx cs (Some w) out d = (Inr bs, d')"
    and "fits files target mx n cs" "written w \<le> n"
  shows "\<exists>w'. bs = out @ [finish w']"
  using assms(3-)
proof (induction cs arbitrary: w d n)
  case (Cons c cs)
  obtain hash src where c: "c = (hash, src)" by fastforce
  obtain m k where m: "files src = Some m" "record_len_of m = Some k" "\<not> exceeds PACK_HEADER_LEN k mx"
    using Cons.prems(1) by (auto simp: c split: option.splits if_splits)
  have k: "k = record_estimate files c"
    using record_len_of_Some [OF m(2)] m(1)
    by (simp add: c record_estimate_def RECORD_HEADER_LEN_def RECORD_OVERHEAD_BYTES_def NONCE_LEN_def AEAD_TAG_LEN_def)
  have "\<not> (written w \<ge> target \<or> exceeds (written w) k mx)"
    using Cons.prems(2,3) mx by (auto simp: k exceeds_iff)
  then have "writer_for cr write_fault master target mx k (Some w) out d = (Inr w, out, d)"
    by (simp add: writer_for_def)
  then obtain w' d2 where wc: "write_chunk cr write_fault hash m w d = (Inr w', d2)"
    and rest: "pack_loop cr write_fault (\<lambda>_. False) files master target mx cs (Some w') out d2 = (Inr bs, d')"
    using Cons.prems(1) m by (auto simp: c split: prod.splits sum.splits)
  have "written w' \<le> n + record_estimate files c"
    using write_chunk_size [OF laws wc] Cons.prems(3) m(1) by (simp add: c record_estimate_def)
  then show ?case using Cons.IH [OF rest, of "n + record_estimate files c"] Cons.prems(2) by simp
qed auto

lemma one_pack_packed:
  assumes laws: "crypto_laws cr" and mx: "mx < 2 ^ 64" and plan: "one_pack files target mx plan"
    and run: "pack_chunk_files_with_limits cr write_fault (\<lambda>_. False) files master plan target mx d = (Inr bs, d')"
  shows "\<exists>b. bs = [b]"
proof -
  obtain hash src cs where p: "plan = (hash, src) # cs" "fits files target mx (estimate files [(hash, src)]) cs"
    using plan by (cases plan) auto
  have loop: "pack_loop cr write_fault (\<lambda>_. False) files master target mx plan None [] d = (Inr bs, d')"
    using run by (simp add: pack_chunk_files_with_limits_def split: if_splits)
  then obtain m k w d1 w' d2 where m: "files src = Some m"
    and wf: "writer_for cr write_fault master target mx k None [] d = (Inr w, [], d1)"
    and wc: "write_chunk cr write_fault hash m w d1 = (Inr w', d2)"
    and rest: "pack_loop cr write_fault (\<lambda>_. False) files master target mx cs (Some w') [] d2 = (Inr bs, d')"
    by (auto simp: p(1) writer_for_def split: option.splits if_splits prod.splits sum.splits)
  have "create cr write_fault master d = (Inr w, d1)" using wf by (simp add: writer_for_def split: prod.splits)
  then have "written w = PACK_HEADER_LEN" using create_ok(1) by fastforce
  then have "written w' \<le> estimate files [(hash, src)]"
    using write_chunk_size [OF laws wc] m
    by (simp add: estimate_def record_estimate_def PACK_HEADER_LEN_def PACK_HEADER_BYTES_def)
  then show ?thesis using pack_loop_unsealed [OF laws mx rest p(2)] by auto
qed

lemma plan_loop_total:
  assumes "\<forall>c \<in> set cs. packable files mx (snd c)"
  shows "\<exists>ps. plan_loop files target mx cs plans cur n = Inr ps"
  using assms
proof (induction cs arbitrary: plans cur n)
  case (Cons c cs)
  obtain hash src where c: "c = (hash, src)" by fastforce
  obtain m where m: "files src = Some m" "length m + AEAD_TAG_LEN < 2 ^ 32"
    "PACK_HEADER_LEN + (RECORD_HEADER_LEN + (length m + AEAD_TAG_LEN)) \<le> mx"
    using Cons.prems by (auto simp: c packable_def split: option.splits)
  have "checked_add64 RECORD_OVERHEAD_BYTES (length m) = Some (RECORD_OVERHEAD_BYTES + length m)"
    "\<not> exceeds PACK_HEADER_BYTES (RECORD_OVERHEAD_BYTES + length m) mx"
    using m(2,3) by (simp_all add: exceeds_def checked_add64_def RECORD_OVERHEAD_BYTES_def PACK_HEADER_BYTES_def
        RECORD_HEADER_LEN_def AEAD_TAG_LEN_def NONCE_LEN_def PACK_HEADER_LEN_def)
  then show ?case using Cons m(1) by (simp add: c)
qed simp

text \<open>The worker's view of a plan that fits in one pack.\<close>

lemma worker_pack_whole:
  assumes laws: "crypto_laws cr" and mx: "mx < 2 ^ 64" and named: "named_by_content cr files cs"
    and plan: "one_pack files target mx plan" "set plan \<subseteq> set cs"
    and run: "worker_pack cr write_fault files master target mx plan d = (Inr b, d')"
  shows "map entry_hash (built_entries b) = map fst plan" "good_pack cr master cs files mx d' b"
proof -
  obtain bs where pk: "pack_chunk_files_with_limits cr write_fault (\<lambda>_. False) files master plan target mx d = (Inr bs, d')"
    and b: "b = List.last bs"
    using run by (auto simp: worker_pack_def split: prod.splits sum.splits if_splits)
  have bs: "bs = [b]" using one_pack_packed [OF laws mx plan(1) pk] b by auto
  have "pack_loop cr write_fault (\<lambda>_. False) files master target mx plan None [] d = (Inr bs, d')"
    using pk by (simp add: pack_chunk_files_with_limits_def split: if_splits)
  from pack_loop_ok [OF laws named_by_contentD [OF named] this packs_inv_start(1) plan(2)]
  show "map entry_hash (built_entries b) = map fst plan" "good_pack cr master cs files mx d' b"
    by (simp_all add: bs hashes_of_def open_packs_def unknown_def packs_inv_def)
qed

lemma worker_pack_total:
  assumes "crypto_laws cr" "crypto_total cr" "mx < 2 ^ 64" "one_pack files target mx plan"
    and "\<forall>c \<in> set plan. packable files mx (snd c)" "0 < target" "target \<le> mx" "PACK_HEADER_LEN \<le> mx"
  shows "\<exists>b d'. worker_pack cr no_fault files master target mx plan d = (Inr b, d')"
proof -
  obtain bs d' where "pack_chunk_files_with_limits cr no_fault (\<lambda>_. False) files master plan target mx d = (Inr bs, d')"
    using pack_loop_total [OF assms(1,2,5)] assms(6-8) by (fastforce simp: pack_chunk_files_with_limits_def)
  moreover from one_pack_packed [OF assms(1,3,4) this] have "bs \<noteq> []" by auto
  ultimately show ?thesis by (simp add: worker_pack_def)
qed

section \<open>Properties\<close>

text \<open>C11: planning loses nothing although each worker keeps a single pack of its plan. For chunk files that
  are named by their content and fit, the planner succeeds; its plans are the chunks in the order of
  their hashes; and packing a plan gives exactly one pack, whose index names exactly the chunks of
  the plan and whose entries read back, unless a write fails, which is reported. The planner's
  estimate ignores compression, so the writer never seals a pack earlier than planned.\<close>

theorem plans_lose_nothing:
  assumes "crypto_laws cr" "crypto_total cr" "named_by_content cr files cs"
    and "\<forall>c \<in> set cs. packable files mx (snd c)" "0 < target" "target \<le> mx" "PACK_HEADER_LEN \<le> mx" "mx < 2 ^ 64"
  shows "\<exists>plans. plan_pack_chunks files cs target mx = Inr plans \<and> concat plans = sort_key fst cs \<and>
    (\<forall>plan \<in> set plans. case worker_pack cr write_fault files master target mx plan d of
        (Inl e, d') \<Rightarrow> write_fault \<noteq> no_fault
      | (Inr b, d') \<Rightarrow> map entry_hash (built_entries b) = map fst plan \<and> good_pack cr master cs files mx d' b)"
proof -
  obtain plans where plans: "plan_loop files target mx (sort_key fst cs) [] [] PACK_HEADER_BYTES = Inr plans"
    using plan_loop_total [of "sort_key fst cs" files mx target "[]" "[]" PACK_HEADER_BYTES] assms(4) by auto
  have sound: "concat plans = sort_key fst cs" "\<forall>p \<in> set plans. one_pack files target mx p"
    using plan_loop_sound [OF plans] by (simp_all add: estimate_def)
  have sub: "set plan \<subseteq> set cs" if "plan \<in> set plans" for plan
    using that arg_cong [OF sound(1), of set] by auto
  have "case worker_pack cr write_fault files master target mx plan d of
        (Inl e, d') \<Rightarrow> write_fault \<noteq> no_fault
      | (Inr b, d') \<Rightarrow> map entry_hash (built_entries b) = map fst plan \<and> good_pack cr master cs files mx d' b"
    if p: "plan \<in> set plans" for plan
  proof -
    have one: "one_pack files target mx plan" using sound(2) p by blast
    have "\<exists>b d'. worker_pack cr no_fault files master target mx plan d = (Inr b, d')"
      using worker_pack_total [OF assms(1,2,8) one _ assms(5-7)] assms(4) sub [OF p] by blast
    then show ?thesis using worker_pack_whole [OF assms(1,8,3) one sub [OF p]]
      by (auto split: prod.splits sum.splits)
  qed
  then show ?thesis using plans sound(1) assms(5,6) by (auto simp: plan_pack_chunks_def)
qed

theorem plans_lose_nothing_witness:
  "crypto_laws plain_crypto \<and> named_by_content plain_crypto two_files two_chunks \<and>
   (\<exists>plans. plan_pack_chunks two_files two_chunks 80 100 = Inr plans \<and> concat plans = sort_key fst two_chunks \<and>
      (\<forall>plan \<in> set plans. \<exists>b d'. worker_pack plain_crypto no_fault two_files [] 80 100 plan empty_disk = (Inr b, d') \<and>
        map entry_hash (built_entries b) = map fst plan))"
proof -
  from plans_lose_nothing [OF plain_crypto_laws two_chunks_named two_chunks_fit, of 80 no_fault "[]" empty_disk]
  obtain plans where "plan_pack_chunks two_files two_chunks 80 100 = Inr plans" "concat plans = sort_key fst two_chunks"
    and each: "\<And>plan. plan \<in> set plans \<Longrightarrow> case worker_pack plain_crypto no_fault two_files [] 80 100 plan empty_disk of
        (Inl e, d') \<Rightarrow> no_fault \<noteq> no_fault
      | (Inr b, d') \<Rightarrow> map entry_hash (built_entries b) = map fst plan \<and> good_pack plain_crypto [] two_chunks two_files 100 d' b"
    by (auto simp: PACK_HEADER_LEN_def)
  moreover have "\<exists>b d'. worker_pack plain_crypto no_fault two_files [] 80 100 plan empty_disk = (Inr b, d') \<and>
      map entry_hash (built_entries b) = map fst plan" if "plan \<in> set plans" for plan
    using each [OF that] by (auto split: prod.splits sum.splits)
  ultimately show ?thesis using plain_crypto_laws(1) two_chunks_named by blast
qed

end
