(* ===== verification/Worker_Pools.thy ===== *)
theory Worker_Pools
  imports Backup_Packs "HOL-Library.Multiset"
begin

text \<open>
  The two thread pools of a backup (\<^verbatim>\<open>hash_files_parallel\<close> and \<^verbatim>\<open>build_packs_parallel\<close> of
  \<^verbatim>\<open>noland-state-agent/src/backup.rs\<close>): a feeder that sends jobs over a bounded channel, the workers, and
  the coordinator that collects the results and then joins the feeder. Every access to a channel,
  to \<^verbatim>\<open>stopped\<close> or to the cancellation flag is one step, and the steps of the threads interleave freely.
  \<open>work j\<close> is the outcome of job \<open>j\<close> in the run. The receiving end of the job channel lives in the frame of the
  coordinator, so a full channel blocks the feeder for as long as the function runs.
\<close>

section \<open>State\<close>

datatype 'j feeder = Feeding "'j list" | Sending 'j "'j list" | FeederDone

datatype ('j, 'r) worker =
    Idle
  | Received 'j
  | Working 'j
  | Finished "(state_error, 'r) result"
  | Computed "(state_error, 'r) result"
  | Deliver "(state_error, 'r) result"
  | Delivered bool
  | Exited

record ('j, 'r) pool =
  feeder :: "'j feeder"
  queue :: "'j list"
  crew :: "('j, 'r) worker list"
  outbox :: "(state_error, 'r) result list"
  stopped :: bool
  cancel :: bool
  collected :: "'r list"
  first_error :: "state_error option"
  returned :: bool

definition pool_start :: "nat \<Rightarrow> 'j list \<Rightarrow> ('j, 'r) pool" where
  "pool_start n jobs =
     \<lparr>feeder = Feeding jobs, queue = [], crew = replicate n Idle, outbox = [], stopped = False, cancel = False,
      collected = [], first_error = None, returned = False\<rparr>"

section \<open>The threads\<close>

text \<open>\<open>None\<close>: the thread is blocked, or has ended. Receiving fails once the feeder is gone and the channel empty.\<close>

definition receive :: "('j, 'r) pool \<Rightarrow> (('j, 'r) worker \<times> ('j, 'r) pool) option" where
  "receive s =
     (case queue s of
        j # q \<Rightarrow> Some (Received j, s\<lparr>queue := q\<rparr>)
      | [] \<Rightarrow> if feeder s = FeederDone then Some (Exited, s) else None)"

definition note_failure :: "(state_error, 'r) result \<Rightarrow> ('j, 'r) pool \<Rightarrow> ('j, 'r) pool" where
  "note_failure r s = (if is_ok r then s else s\<lparr>stopped := True\<rparr>)"

definition deliver :: "nat \<Rightarrow> (state_error, 'r) result \<Rightarrow> ('j, 'r) pool \<Rightarrow> (('j, 'r) worker \<times> ('j, 'r) pool) option" where
  "deliver cap r s =
     (if length (outbox s) < cap then Some (Delivered (\<not> is_ok r), s\<lparr>outbox := outbox s @ [r]\<rparr>) else None)"

fun hash_worker ::
  "('j \<Rightarrow> (state_error, 'r) result) \<Rightarrow> nat \<Rightarrow> ('j, 'r) worker \<Rightarrow> ('j, 'r) pool \<Rightarrow> (('j, 'r) worker \<times> ('j, 'r) pool) option" where
  "hash_worker work cap Idle s = receive s"
| "hash_worker work cap (Received j) s = Some (if stopped s then Exited else Working j, s)"
| "hash_worker work cap (Working j) s = Some (Computed (if cancel s then Inl cancellation_error else work j), s)"
| "hash_worker work cap (Finished r) s = Some (Computed r, s)"
| "hash_worker work cap (Computed r) s = Some (Deliver r, note_failure r s)"
| "hash_worker work cap (Deliver r) s = deliver cap r s"
| "hash_worker work cap (Delivered failed) s = Some (if failed \<or> cancel s then Exited else Idle, s)"
| "hash_worker work cap Exited s = None"

fun pack_worker ::
  "('j \<Rightarrow> (state_error, 'r) result) \<Rightarrow> nat \<Rightarrow> ('j, 'r) worker \<Rightarrow> ('j, 'r) pool \<Rightarrow> (('j, 'r) worker \<times> ('j, 'r) pool) option" where
  "pack_worker work cap Idle s = receive s"
| "pack_worker work cap (Received j) s =
     Some (if cancel s then Computed (Inl cancellation_error) else Working j, s)"
| "pack_worker work cap (Working j) s = Some (if stopped s then Exited else Finished (work j), s)"
| "pack_worker work cap (Finished r) s = Some (Computed (if cancel s then Inl cancellation_error else r), s)"
| "pack_worker work cap (Computed r) s = Some (Deliver r, note_failure r s)"
| "pack_worker work cap (Deliver r) s = deliver cap r s"
| "pack_worker work cap (Delivered failed) s = Some (if failed then Exited else Idle, s)"
| "pack_worker work cap Exited s = None"

definition feed :: "nat \<Rightarrow> ('j, 'r) pool \<Rightarrow> ('j, 'r) pool option" where
  "feed cap s =
     (case feeder s of
        FeederDone \<Rightarrow> None
      | Feeding [] \<Rightarrow> Some (s\<lparr>feeder := FeederDone\<rparr>)
      | Feeding (j # js) \<Rightarrow> Some (s\<lparr>feeder := if cancel s \<or> stopped s then FeederDone else Sending j js\<rparr>)
      | Sending j js \<Rightarrow>
          if length (queue s) < cap then Some (s\<lparr>feeder := Feeding js, queue := queue s @ [j]\<rparr>) else None)"

definition collect_result :: "('j, 'r) pool \<Rightarrow> ('j, 'r) pool option" where
  "collect_result s =
     (case outbox s of
        [] \<Rightarrow> None
      | Inr x # rs \<Rightarrow> Some (s\<lparr>outbox := rs, collected := collected s @ [x]\<rparr>)
      | Inl e # rs \<Rightarrow> Some (s\<lparr>outbox := rs, first_error := if first_error s = None then Some e else first_error s\<rparr>))"

text \<open>The results end when the last worker is gone; then the feeder is joined.\<close>

definition finish_pool :: "('j, 'r) pool \<Rightarrow> ('j, 'r) pool option" where
  "finish_pool s =
     (if \<not> returned s \<and> (\<forall>w \<in> set (crew s). w = Exited) \<and> outbox s = [] \<and> feeder s = FeederDone
      then Some (s\<lparr>returned := True\<rparr>) else None)"

datatype action = Feed | Work nat | Collect | Return | Cancel

fun act ::
  "(nat \<Rightarrow> ('j, 'r) worker \<Rightarrow> ('j, 'r) pool \<Rightarrow> (('j, 'r) worker \<times> ('j, 'r) pool) option) \<Rightarrow> nat \<Rightarrow> action
    \<Rightarrow> ('j, 'r) pool \<Rightarrow> ('j, 'r) pool option" where
  "act wstep cap Feed s = feed cap s"
| "act wstep cap (Work i) s =
     (if i < length (crew s)
      then map_option (\<lambda>(w, s'). s'\<lparr>crew := (crew s)[i := w]\<rparr>) (wstep cap (crew s ! i) s)
      else None)"
| "act wstep cap Collect s = collect_result s"
| "act wstep cap Return s = finish_pool s"
| "act wstep cap Cancel s = (if cancel s \<or> returned s then None else Some (s\<lparr>cancel := True\<rparr>))"

text \<open>What the function returns: the first error, or the results in a canonical order.\<close>

definition pool_result :: "('r \<Rightarrow> 'k :: linorder) \<Rightarrow> ('j, 'r) pool \<Rightarrow> (state_error, 'r list) result" where
  "pool_result ord s =
     (case first_error s of Some e \<Rightarrow> Inl e | None \<Rightarrow> Inr (sort_key ord (collected s)))"

inductive reachable ::
  "(nat \<Rightarrow> ('j, 'r) worker \<Rightarrow> ('j, 'r) pool \<Rightarrow> (('j, 'r) worker \<times> ('j, 'r) pool) option) \<Rightarrow> nat \<Rightarrow> ('j, 'r) pool \<Rightarrow> ('j, 'r) pool \<Rightarrow> bool"
  for wstep cap s0 where
  start: "reachable wstep cap s0 s0"
| step: "reachable wstep cap s0 s \<Longrightarrow> act wstep cap a s = Some s' \<Longrightarrow> reachable wstep cap s0 s'"

text \<open>A run given as a list of actions, for concrete schedules.\<close>

fun run :: "(nat \<Rightarrow> ('j, 'r) worker \<Rightarrow> ('j, 'r) pool \<Rightarrow> (('j, 'r) worker \<times> ('j, 'r) pool) option) \<Rightarrow> nat \<Rightarrow> action list
    \<Rightarrow> ('j, 'r) pool \<Rightarrow> ('j, 'r) pool option" where
  "run wstep cap [] s = Some s"
| "run wstep cap (a # as) s = Option.bind (act wstep cap a s) (run wstep cap as)"

lemma run_reachable_from: "reachable wstep cap s0 s \<Longrightarrow> run wstep cap as s = Some s' \<Longrightarrow> reachable wstep cap s0 s'"
  by (induction as arbitrary: s) (auto simp: bind_eq_Some_conv intro: reachable.step)

lemmas run_reachable = run_reachable_from [OF reachable.start]

definition stuck ::
  "(nat \<Rightarrow> ('j, 'r) worker \<Rightarrow> ('j, 'r) pool \<Rightarrow> (('j, 'r) worker \<times> ('j, 'r) pool) option) \<Rightarrow> nat \<Rightarrow> ('j, 'r) pool \<Rightarrow> bool" where
  "stuck wstep cap s \<longleftrightarrow> \<not> returned s \<and> (\<forall>a. act wstep cap a s = None)"

section \<open>The contract of a worker\<close>

fun jobs_of :: "('j, 'r) worker \<Rightarrow> 'j list" where
  "jobs_of (Received j) = [j]"
| "jobs_of (Working j) = [j]"
| "jobs_of _ = []"

fun results_of :: "('j, 'r) worker \<Rightarrow> (state_error, 'r) result list" where
  "results_of (Finished r) = [r]"
| "results_of (Computed r) = [r]"
| "results_of (Deliver r) = [r]"
| "results_of _ = []"

fun weight :: "('j, 'r) worker \<Rightarrow> nat" where
  "weight Idle = 1"
| "weight (Received _) = 13"
| "weight (Working _) = 12"
| "weight (Finished _) = 11"
| "weight (Computed _) = 10"
| "weight (Deliver _) = 9"
| "weight (Delivered _) = 2"
| "weight Exited = 0"

definition failing :: "(state_error, 'r) result list \<Rightarrow> bool" where
  "failing rs \<longleftrightarrow> (\<exists>r \<in> set rs. \<not> is_ok r)"

lemma failing_simps [simp]:
  "\<not> failing []" "failing (r # rs) \<longleftrightarrow> \<not> is_ok r \<or> failing rs" "failing (rs @ rs') \<longleftrightarrow> failing rs \<or> failing rs'"
  by (auto simp: failing_def)

fun feeder_jobs :: "'j feeder \<Rightarrow> 'j list" where
  "feeder_jobs (Feeding js) = js"
| "feeder_jobs (Sending j js) = j # js"
| "feeder_jobs FeederDone = []"

fun feeder_weight :: "'j feeder \<Rightarrow> nat" where
  "feeder_weight (Feeding js) = 1 + 17 * length js"
| "feeder_weight (Sending j js) = 17 + 17 * length js"
| "feeder_weight FeederDone = 0"

text \<open>Bounds the number of steps a pool can still make.\<close>

definition pool_measure :: "('j, 'r) pool \<Rightarrow> nat" where
  "pool_measure s = feeder_weight (feeder s) + 14 * length (queue s) + sum_list (map weight (crew s)) +
     5 * length (outbox s) + (if cancel s then 0 else 1) + (if returned s then 0 else 1)"

definition pool_results :: "('j, 'r) pool \<Rightarrow> (state_error, 'r) result list" where
  "pool_results s = concat (map results_of (crew s)) @ outbox s"

definition pool_jobs :: "('j, 'r) pool \<Rightarrow> 'j list" where
  "pool_jobs s = feeder_jobs (feeder s) @ queue s @ concat (map jobs_of (crew s))"

definition failed_pool :: "('j, 'r) pool \<Rightarrow> bool" where
  "failed_pool s \<longleftrightarrow> first_error s \<noteq> None \<or> failing (pool_results s)"

definition pool_inv :: "('j \<Rightarrow> (state_error, 'r) result) \<Rightarrow> 'j list \<Rightarrow> ('j, 'r) pool \<Rightarrow> bool" where
  "pool_inv work jobs s \<longleftrightarrow>
     (stopped s \<or> Delivered True \<in> set (crew s) \<longrightarrow> failed_pool s) \<and>
     (\<not> cancel s \<and> \<not> failed_pool s \<longrightarrow>
        mset (map work (pool_jobs s)) + mset (pool_results s) + mset (map Inr (collected s)) = mset (map work jobs) \<and>
        (Exited \<in> set (crew s) \<longrightarrow> queue s = [] \<and> feeder s = FeederDone))"

lemma pool_inv_start: "pool_inv work jobs (pool_start n jobs)"
proof -
  have "concat (map results_of (replicate n Idle)) = []" "concat (map jobs_of (replicate n Idle)) = []"
    by (induction n) auto
  then show ?thesis by (simp add: pool_inv_def pool_start_def pool_jobs_def pool_results_def failed_pool_def)
qed

lemma pool_inv_feed:
  assumes inv: "pool_inv work jobs s" and run: "feed cap s = Some s'"
  shows "pool_inv work jobs s'" "crew s' = crew s"
proof -
  obtain f q where s': "s' = s\<lparr>feeder := f, queue := q\<rparr>" and open_feeder: "feeder s \<noteq> FeederDone"
    and same: "\<not> cancel s \<Longrightarrow> \<not> stopped s \<Longrightarrow> mset (feeder_jobs f @ q) = mset (feeder_jobs (feeder s) @ queue s)"
  proof (cases "feeder s")
    case (Feeding js)
    then show ?thesis using run that [where f = "feeder s'" and q = "queue s"] by (cases js) (auto simp: feed_def)
  next
    case (Sending j js)
    then show ?thesis using run that [where f = "Feeding js" and q = "queue s @ [j]"] by (auto simp: feed_def split: if_splits)
  qed (use run in \<open>simp add: feed_def\<close>)
  have same_failed: "failed_pool s' = failed_pool s" by (simp add: s' failed_pool_def pool_results_def)
  show "crew s' = crew s" by (simp add: s')
  show "pool_inv work jobs s'"
  proof (cases "cancel s \<or> failed_pool s")
    case True
    then show ?thesis using inv same_failed by (auto simp: pool_inv_def s')
  next
    case False
    then have ok: "\<not> stopped s" "Exited \<notin> set (crew s)" using inv open_feeder by (auto simp: pool_inv_def)
    have "mset (pool_jobs s') = mset (pool_jobs s)"
      using same False ok(1) by (simp add: pool_jobs_def s')
    then have "mset (map work (pool_jobs s')) = mset (map work (pool_jobs s))" by simp
    then show ?thesis using inv False ok same_failed by (simp add: pool_inv_def s' pool_results_def)
  qed
qed

lemma pool_inv_collect:
  assumes inv: "pool_inv work jobs s" and run: "collect_result s = Some s'"
  shows "pool_inv work jobs s'" "crew s' = crew s"
proof -
  obtain r rs where o': "outbox s = r # rs" using run by (auto simp: collect_result_def split: list.splits)
  show "crew s' = crew s" using run by (auto simp: o' collect_result_def split: sum.splits)
  show "pool_inv work jobs s'"
  proof (cases r)
    case (Inl e)
    then have "failed_pool s'" using run by (auto simp: o' collect_result_def failed_pool_def)
    then show ?thesis by (simp add: pool_inv_def)
  next
    case (Inr x)
    then have s': "s' = s\<lparr>outbox := rs, collected := collected s @ [x]\<rparr>" using run by (simp add: o' collect_result_def)
    have "failed_pool s' = failed_pool s" by (simp add: s' failed_pool_def pool_results_def o' Inr)
    then show ?thesis using inv by (auto simp: pool_inv_def s' pool_jobs_def pool_results_def o' Inr)
  qed
qed

lemma pool_inv_flags:
  assumes "pool_inv work jobs s"
  shows "pool_inv work jobs (s\<lparr>returned := True\<rparr>)" "pool_inv work jobs (s\<lparr>cancel := True\<rparr>)"
  using assms by (simp_all add: pool_inv_def failed_pool_def pool_jobs_def pool_results_def)

locale worker_contract =
  fixes work :: "'j \<Rightarrow> (state_error, 'r) result"
    and wstep :: "nat \<Rightarrow> ('j, 'r) worker \<Rightarrow> ('j, 'r) pool \<Rightarrow> (('j, 'r) worker \<times> ('j, 'r) pool) option"
  assumes frame: "wstep cap w s = Some (w', s') \<Longrightarrow>
      feeder s' = feeder s \<and> crew s' = crew s \<and> collected s' = collected s \<and> first_error s' = first_error s \<and>
      cancel s' = cancel s \<and> returned s' = returned s \<and> suffix (queue s') (queue s)"
    and ended: "w = Exited \<Longrightarrow> wstep cap w s = None"
    and lighter: "wstep cap w s = Some (w', s') \<Longrightarrow>
      weight w' + 14 * length (queue s') + 5 * length (outbox s') < weight w + 14 * length (queue s) + 5 * length (outbox s)"
    and blocked: "wstep cap w s = None \<Longrightarrow>
      w = Exited \<or> w = Idle \<and> queue s = [] \<and> feeder s \<noteq> FeederDone \<or> (\<exists>r. w = Deliver r \<and> cap \<le> length (outbox s))"
    and accounts: "wstep cap w s = Some (w', s') \<Longrightarrow> \<not> cancel s \<Longrightarrow> \<not> stopped s \<Longrightarrow>
      mset (map work (jobs_of w' @ queue s')) + mset (results_of w' @ outbox s') =
      mset (map work (jobs_of w @ queue s)) + mset (results_of w @ outbox s)"
    and stops: "wstep cap w s = Some (w', s') \<Longrightarrow> stopped s' \<Longrightarrow> stopped s \<or> failing (results_of w')"
    and fails: "wstep cap w s = Some (w', s') \<Longrightarrow> failing (results_of w @ outbox s) \<Longrightarrow> failing (results_of w' @ outbox s')"
    and marks: "wstep cap w s = Some (Delivered True, s') \<Longrightarrow> failing (outbox s')"
    and exits: "wstep cap w s = Some (Exited, s') \<Longrightarrow> \<not> cancel s \<Longrightarrow> \<not> stopped s \<Longrightarrow>
      w = Delivered True \<or> queue s = [] \<and> feeder s = FeederDone"
begin

lemma act_WorkE:
  assumes "act wstep cap (Work i) s = Some s'"
  obtains pre w post w' t where "crew s = pre @ w # post" "wstep cap w s = Some (w', t)"
    "s' = t\<lparr>crew := pre @ w' # post\<rparr>" "i = length pre"
proof -
  obtain w' t where i: "i < length (crew s)" and t: "wstep cap (crew s ! i) s = Some (w', t)"
    "s' = t\<lparr>crew := (crew s)[i := w']\<rparr>"
    using assms by (auto split: if_splits)
  show thesis
    using that [of "take i (crew s)" "crew s ! i" "drop (Suc i) (crew s)" w' t] i t
    by (simp add: id_take_nth_drop [symmetric] upd_conv_take_nth_drop)
qed

lemma act_lighter:
  assumes "act wstep cap a s = Some s'"
  shows "pool_measure s' < pool_measure s"
proof (cases a)
  case (Work i)
  obtain pre w post w' t where crew: "crew s = pre @ w # post" and w: "wstep cap w s = Some (w', t)"
    and s': "s' = t\<lparr>crew := pre @ w' # post\<rparr>" by (rule act_WorkE [OF assms [unfolded Work]])
  show ?thesis using lighter [OF w] by (simp add: pool_measure_def crew s' frame [OF w])
qed (use assms in \<open>auto simp: pool_measure_def feed_def collect_result_def finish_pool_def
    split: feeder.splits list.splits sum.splits if_splits\<close>)

lemma pool_inv_work:
  assumes inv: "pool_inv work jobs s" and run: "act wstep cap (Work i) s = Some s'"
  shows "pool_inv work jobs s'"
proof -
  obtain pre w post w' t where crew: "crew s = pre @ w # post" and w: "wstep cap w s = Some (w', t)"
    and s': "s' = t\<lparr>crew := pre @ w' # post\<rparr>" by (rule act_WorkE [OF run])
  note fr = frame [OF w]
  let ?others = "concat (map results_of pre) @ concat (map results_of post)"
  have f: "failed_pool s \<longleftrightarrow> first_error s \<noteq> None \<or> failing ?others \<or> failing (results_of w @ outbox s)"
    "failed_pool s' \<longleftrightarrow> first_error s \<noteq> None \<or> failing ?others \<or> failing (results_of w' @ outbox t)"
    using fr by (auto simp: failed_pool_def pool_results_def crew s')
  have bad: "failed_pool s \<Longrightarrow> failed_pool s'" using f fails [OF w] by blast
  have stop: "failed_pool s'" if "stopped s' \<or> Delivered True \<in> set (crew s')"
  proof (cases "stopped s \<or> Delivered True \<in> set (crew s)")
    case True
    then show ?thesis using inv bad by (simp add: pool_inv_def)
  next
    case False
    then have "failing (results_of w') \<or> w' = Delivered True"
      using that stops [OF w] by (auto simp: s' crew)
    then show ?thesis using f(2) marks [of cap w s t] w by auto
  qed
  show ?thesis
  proof (cases "cancel s \<or> failed_pool s'")
    case True
    then show ?thesis using stop fr by (auto simp: pool_inv_def s')
  next
    case False
    then have ok: "\<not> cancel s" "\<not> failed_pool s" "\<not> stopped s" "Delivered True \<notin> set (crew s)"
      using bad inv by (auto simp: pool_inv_def)
    have sums: "mset (map work (pool_jobs s)) + mset (pool_results s) + mset (map Inr (collected s)) = mset (map work jobs)"
      and ex: "Exited \<in> set (crew s) \<Longrightarrow> queue s = [] \<and> feeder s = FeederDone"
      using inv ok by (auto simp: pool_inv_def)
    let ?rest = "mset (map work (feeder_jobs (feeder s) @ concat (map jobs_of pre) @ concat (map jobs_of post))) +
      mset ?others + mset (map Inr (collected s))"
    have "mset (map work (pool_jobs s)) + mset (pool_results s) + mset (map Inr (collected s)) =
        mset (map work (jobs_of w @ queue s)) + mset (results_of w @ outbox s) + ?rest"
      by (simp add: pool_jobs_def pool_results_def crew ac_simps)
    moreover have "mset (map work (pool_jobs s')) + mset (pool_results s') + mset (map Inr (collected s')) =
        mset (map work (jobs_of w' @ queue t)) + mset (results_of w' @ outbox t) + ?rest"
      using fr by (simp add: pool_jobs_def pool_results_def s' ac_simps)
    ultimately have "mset (map work (pool_jobs s')) + mset (pool_results s') + mset (map Inr (collected s')) = mset (map work jobs)"
      using sums accounts [OF w ok(1,3)] by metis
    moreover have "queue s' = [] \<and> feeder s' = FeederDone" if "Exited \<in> set (crew s')"
    proof -
      have "queue s = [] \<and> feeder s = FeederDone"
        using that ex exits [of cap w s t] w ok by (auto simp: s' crew)
      then show ?thesis using fr by (auto simp: s')
    qed
    ultimately show ?thesis using stop by (simp add: pool_inv_def)
  qed
qed

lemma pool_inv_reachable:
  assumes "reachable wstep cap (pool_start n jobs) s"
  shows "pool_inv work jobs s \<and> length (crew s) = n"
  using assms
proof induction
  case start
  show ?case using pool_inv_start by (simp add: pool_start_def)
next
  case (step s a s')
  then show ?case
  proof (cases a)
    case (Work i)
    then show ?thesis using step pool_inv_work [of jobs s cap i s'] by (auto split: if_splits dest!: frame)
  next
    case Feed
    then show ?thesis using step pool_inv_feed by fastforce
  next
    case Collect
    then show ?thesis using step pool_inv_collect by fastforce
  qed (use step pool_inv_flags in \<open>auto simp: finish_pool_def split: if_splits\<close>)
qed

lemma returned_shape:
  assumes "reachable wstep cap (pool_start n jobs) s" "returned s"
  shows "(\<forall>w \<in> set (crew s). w = Exited) \<and> outbox s = [] \<and> feeder s = FeederDone"
  using assms
proof induction
  case (step s a s')
  then show ?case
  proof (cases a)
    case (Work i)
    then obtain pre w post w' t where crew: "crew s = pre @ w # post" and w: "wstep cap w s = Some (w', t)"
      and s': "s' = t\<lparr>crew := pre @ w' # post\<rparr>" using step.hyps(2) act_WorkE by metis
    then have "w = Exited" using step.IH step.prems frame [OF w] by simp
    then show ?thesis using w ended by simp
  qed (auto simp: feed_def collect_result_def finish_pool_def split: feeder.splits list.splits sum.splits if_splits)
qed (simp add: pool_start_def)

text \<open>A pool that was not cancelled returns an error, or the result of every job.\<close>

lemma pool_complete:
  assumes reach: "reachable wstep cap (pool_start n jobs) s" and ret: "returned s" and nc: "\<not> cancel s"
    and n: "0 < n"
  shows "case first_error s of
      Some e \<Rightarrow> True
    | None \<Rightarrow> (\<forall>j \<in> set jobs. is_ok (work j)) \<and> mset (map Inr (collected s)) = mset (map work jobs)"
proof (cases "first_error s")
  case None
  note shape = returned_shape [OF reach ret]
  have inv: "pool_inv work jobs s" "length (crew s) = n" using pool_inv_reachable [OF reach] by auto
  have crew: "concat (map results_of (crew s)) = []" "concat (map jobs_of (crew s)) = []" "Exited \<in> set (crew s)"
    using shape inv(2) n by auto (cases "crew s"; simp)
  then have "\<not> failed_pool s" using None shape by (simp add: failed_pool_def pool_results_def failing_def)
  then have sums: "mset (map Inr (collected s)) = mset (map work jobs)"
    using inv(1) nc shape crew by (auto simp: pool_inv_def pool_jobs_def pool_results_def)
  have "is_ok (work j)" if "j \<in> set jobs" for j
  proof -
    have "work j \<in># mset (map work jobs)" using that by simp
    then have "work j \<in> set (map Inr (collected s))" unfolding sums [symmetric] by simp
    then show ?thesis by (auto simp: is_ok_def)
  qed
  then show ?thesis using sums None by simp
qed simp

lemma no_failure:
  assumes "reachable wstep cap (pool_start n jobs) s" "\<not> cancel s" and ok: "\<forall>j \<in> set jobs. is_ok (work j)"
  shows "\<not> failed_pool s"
  using assms(1,2)
proof induction
  case start
  have "concat (map results_of (replicate n Idle)) = []" by (induction n) auto
  then show ?case by (simp add: pool_start_def failed_pool_def pool_results_def)
next
  case (step s a s')
  show ?case
  proof (cases a)
    case (Work i)
    then obtain pre w post w' t where crew: "crew s = pre @ w # post" and w: "wstep cap w s = Some (w', t)"
      and s': "s' = t\<lparr>crew := pre @ w' # post\<rparr>" using step.hyps(2) act_WorkE by metis
    note fr = frame [OF w]
    have old: "\<not> failed_pool s" "\<not> cancel s" "\<not> stopped s"
      and sums: "mset (map work (pool_jobs s)) + mset (pool_results s) + mset (map Inr (collected s)) = mset (map work jobs)"
      using step s' fr pool_inv_reachable [OF step.hyps(1)] by (auto simp: pool_inv_def)
    have good: "is_ok r" if r: "r \<in># mset (map work (jobs_of w @ queue s)) + mset (results_of w @ outbox s)" for r
    proof -
      have "r \<in># mset (map work (pool_jobs s)) + mset (pool_results s) + mset (map Inr (collected s))"
        using r by (auto simp: pool_jobs_def pool_results_def crew)
      then show ?thesis unfolding sums using ok by auto
    qed
    have "is_ok r" if "r \<in> set (results_of w' @ outbox t)" for r
      by (rule good, subst accounts [OF w old(2,3), symmetric]) (use that in auto)
    then have "\<not> failing (results_of w' @ outbox t)" by (auto simp: failing_def)
    then show ?thesis using old(1) fr by (auto simp: failed_pool_def pool_results_def crew s')
  next
    case Feed
    then show ?thesis using step
      by (auto simp: feed_def failed_pool_def pool_results_def split: feeder.splits list.splits if_splits)
  next
    case Collect
    then show ?thesis using step
      by (auto simp: collect_result_def failed_pool_def pool_results_def split: list.splits sum.splits)
  next
    case Return
    then show ?thesis using step by (auto simp: finish_pool_def failed_pool_def pool_results_def split: if_splits)
  next
    case Cancel
    then show ?thesis using step by (auto split: if_splits)
  qed
qed

text \<open>Without failures and cancellation nothing blocks for good.\<close>

lemma pool_not_stuck:
  assumes reach: "reachable wstep cap (pool_start n jobs) s" and nc: "\<not> cancel s" "\<not> failed_pool s"
    and n: "0 < n" "0 < cap" and nr: "\<not> returned s"
  shows "\<exists>a s'. a \<noteq> Cancel \<and> act wstep cap a s = Some s'"
proof (rule ccontr)
  assume none: "\<not> (\<exists>a s'. a \<noteq> Cancel \<and> act wstep cap a s = Some s')"
  then have no: "act wstep cap a s = None" if "a \<noteq> Cancel" for a using that by (cases "act wstep cap a s") auto
  have inv: "pool_inv work jobs s" "length (crew s) = n" using pool_inv_reachable [OF reach] by auto
  have out: "outbox s = []"
    using no [of Collect] by (auto simp: collect_result_def split: list.splits sum.splits)
  have crew: "w = Exited \<or> w = Idle \<and> queue s = [] \<and> feeder s \<noteq> FeederDone" if w: "w \<in> set (crew s)" for w
  proof -
    obtain i where i: "i < length (crew s)" "crew s ! i = w" using w by (auto simp: in_set_conv_nth)
    then have "wstep cap w s = None" using no [of "Work i"] by simp
    then show ?thesis using blocked [of cap w s] out n(2) by auto
  qed
  obtain w where w: "w \<in> set (crew s)" using inv(2) n(1) by (cases "crew s") auto
  show False
  proof (cases "feeder s = FeederDone")
    case True
    then have "\<forall>w \<in> set (crew s). w = Exited" using crew by blast
    then show False using no [of Return] nr out True by (simp add: finish_pool_def)
  next
    case False
    then have "w \<noteq> Exited" using w inv(1) nc by (auto simp: pool_inv_def)
    then have "queue s = []" using crew [OF w] by blast
    then show False using False no [of Feed] n(2)
      by (cases "feeder s") (auto simp: feed_def split: list.splits)
  qed
qed

end

lemmas worker_simps = receive_def deliver_def note_failure_def

interpretation hash_pool: worker_contract work "hash_worker work" for work
  by (unfold_locales; case_tac w; auto simp: worker_simps intro: suffix_ConsI split: list.splits if_splits)

interpretation pack_pool: worker_contract work "pack_worker work" for work
  by (unfold_locales; case_tac w; auto simp: worker_simps intro: suffix_ConsI split: list.splits if_splits)

section \<open>Properties\<close>

definition pool_worker ::
  "('j \<Rightarrow> (state_error, 'r) result) \<Rightarrow> (nat \<Rightarrow> ('j, 'r) worker \<Rightarrow> ('j, 'r) pool \<Rightarrow> (('j, 'r) worker \<times> ('j, 'r) pool) option) \<Rightarrow> bool" where
  "pool_worker work wstep \<longleftrightarrow> wstep = hash_worker work \<or> wstep = pack_worker work"

lemma pool_worker_contract: "pool_worker work wstep \<Longrightarrow> worker_contract work wstep"
  using hash_pool.worker_contract_axioms pack_pool.worker_contract_axioms by (auto simp: pool_worker_def)

text \<open>C14: a pool that was not cancelled never drops a job silently. In every interleaving of the feeder, the
  workers and the coordinator, for both pools and any number of workers, when the function returns and
  cancellation was not requested, it returns an error, or exactly the results of all jobs, in the
  order of their keys, and every job succeeded.\<close>

theorem uncancelled_pool_complete:
  assumes "pool_worker work wstep" "0 < n" "reachable wstep cap (pool_start n jobs) s" "returned s" "\<not> cancel s"
  shows "case pool_result ord s of
      Inl e \<Rightarrow> True
    | Inr rs \<Rightarrow> (\<forall>j \<in> set jobs. is_ok (work j)) \<and> mset (map Inr rs) = mset (map work jobs) \<and> sorted (map ord rs)"
  using worker_contract.pool_complete [OF pool_worker_contract [OF assms(1)] assms(3-5,2)]
  by (auto simp: pool_result_def split: option.splits)

text \<open>C15: a pool whose jobs succeed finishes. Every step of every thread makes a fixed measure smaller, so a pool
  makes finitely many steps; and as long as cancellation is not requested and no job has
  failed, a pool that has not returned can make a step of one of its threads: with the theorem before,
  it returns the results of all jobs.\<close>

theorem successful_pool_finishes:
  assumes "pool_worker work wstep" "0 < n" "0 < cap" "\<forall>j \<in> set jobs. is_ok (work j)"
    and "reachable wstep cap (pool_start n jobs) s" "\<not> cancel s"
  shows "(\<forall>a s'. act wstep cap a s = Some s' \<longrightarrow> pool_measure s' < pool_measure s) \<and>
    (returned s \<or> (\<exists>a s'. a \<noteq> Cancel \<and> act wstep cap a s = Some s'))"
proof -
  note contract = pool_worker_contract [OF assms(1)]
  have "\<not> failed_pool s" by (rule worker_contract.no_failure [OF contract assms(5,6,4)])
  then show ?thesis
    using worker_contract.act_lighter [OF contract] worker_contract.pool_not_stuck [OF contract assms(5,6) _ assms(2,3)]
    by blast
qed

text \<open>The state a cancelled pool ends in: both workers gone, the channel full, the feeder waiting to send.\<close>

definition abandoned :: "nat list \<Rightarrow> state_error option \<Rightarrow> bool \<Rightarrow> (nat, nat) pool" where
  "abandoned rs err stop =
     \<lparr>feeder = Sending 6 [7], queue = [2, 3, 4, 5], crew = [Exited, Exited], outbox = [], stopped = stop, cancel = True,
      collected = rs, first_error = err, returned = False\<rparr>"

definition cancel_schedule :: "action list" where
  "cancel_schedule = replicate 4 Feed @ [Work 0, Work 1, Work 0, Work 1, Work 0, Work 1] @ replicate 9 Feed @ [Cancel] @
     [Work 0, Work 0, Work 0] @ [Work 1, Work 1, Work 1]"

lemma abandoned_stuck:
  "stuck (hash_worker work) 4 (abandoned rs err stop)" "stuck (pack_worker work) 4 (abandoned rs err stop)"
proof -
  have "act (hash_worker work) 4 a (abandoned rs err stop) = None" "act (pack_worker work) 4 a (abandoned rs err stop) = None" for a
    by (cases a; auto simp: abandoned_def feed_def collect_result_def finish_pool_def less_Suc_eq numeral_2_eq_2)+
  then show "stuck (hash_worker work) 4 (abandoned rs err stop)" "stuck (pack_worker work) 4 (abandoned rs err stop)"
    by (simp_all add: stuck_def abandoned_def)
qed

text \<open>C16: a cancelled backup can hang. Both pools, with two workers and eight jobs that all succeed, can reach a
  state in which no thread can make another step although the function has not returned:
  cancellation was requested while the channel was full, the workers have left, and the feeder waits
  to send on a channel nobody will read, while the coordinator waits for the feeder. In the hashing
  pool no error has been recorded either.\<close>

theorem cancelled_pool_deadlocks:
  "(\<exists>s. reachable (hash_worker Inr) 4 (pool_start 2 [0..<8]) s \<and> stuck (hash_worker Inr) 4 s \<and> first_error s = None) \<and>
   (\<exists>s. reachable (pack_worker Inr) 4 (pool_start 2 [0..<8]) s \<and> stuck (pack_worker Inr) 4 s)"
proof -
  have "run (hash_worker Inr) 4 (cancel_schedule @ [Collect, Collect]) (pool_start 2 [0..<8]) =
      Some (abandoned [0, 1] None False)"
    by code_simp
  moreover have "run (pack_worker Inr) 4 (cancel_schedule @ [Work 0, Work 1, Collect, Collect]) (pool_start 2 [0..<8]) =
      Some (abandoned [] (Some cancellation_error) True)"
    by code_simp
  ultimately show ?thesis
    using run_reachable abandoned_stuck [of Inr]
    by (intro conjI exI [of _ "abandoned [0, 1] None False"] exI [of _ "abandoned [] (Some cancellation_error) True"])
      (auto simp: abandoned_def)
qed

text \<open>
  A cancelled hashing pool can also return, without an error, with results missing: the workers
  leave after the jobs they are at, and the feeder sees the request.
\<close>

lemma cancelled_hashing_incomplete:
  "\<exists>s. reachable (hash_worker Inr) 2 (pool_start 1 [0, 1 :: nat]) s \<and> returned s \<and> pool_result id s = Inr [0]"
proof -
  let ?as = "[Feed, Feed, Work 0, Work 0, Work 0, Cancel, Work 0, Work 0, Work 0, Feed, Collect, Return]"
  have "map_option (\<lambda>s. (returned s, pool_result id s)) (run (hash_worker Inr) 2 ?as (pool_start 1 [0, 1 :: nat])) =
      Some (True, Inr [0])"
    by code_simp
  then show ?thesis using run_reachable by fastforce
qed

section \<open>Witnesses\<close>

definition work_two :: "nat \<Rightarrow> (state_error, nat) result" where
  "work_two j = Inr (10 * j)"

definition two_job_schedule :: "action list" where
  "two_job_schedule = replicate 5 Feed @ replicate 6 (Work 0) @ [Collect] @ replicate 7 (Work 0) @ [Collect, Return]"

theorem uncancelled_pool_complete_witness:
  "\<exists>s. reachable (hash_worker work_two) 2 (pool_start 1 [2, 1]) s \<and> returned s \<and> \<not> cancel s \<and>
     (case pool_result id s of Inl e \<Rightarrow> True | Inr rs \<Rightarrow> mset (map Inr rs) = mset (map work_two [2, 1]))"
proof -
  obtain s where s: "run (hash_worker work_two) 2 two_job_schedule (pool_start 1 [2, 1]) = Some s" "returned s" "\<not> cancel s"
  proof -
    have "map_option (\<lambda>s. returned s \<and> \<not> cancel s) (run (hash_worker work_two) 2 two_job_schedule (pool_start 1 [2, 1])) = Some True"
      by code_simp
    then show ?thesis using that by auto
  qed
  have "pool_worker work_two (hash_worker work_two)" by (simp add: pool_worker_def)
  from uncancelled_pool_complete [OF this _ run_reachable [OF s(1)] s(2,3), of id] show ?thesis
    using s run_reachable [OF s(1)] by (auto split: sum.splits)
qed

theorem successful_pool_finishes_witness:
  "pool_worker work_two (pack_worker work_two) \<and>
   (\<exists>a s'. a \<noteq> Cancel \<and> act (pack_worker work_two) 2 a (pool_start 1 [2, 1]) = Some s' \<and>
      pool_measure s' < pool_measure (pool_start 1 [2, 1] :: (nat, nat) pool))"
proof -
  have w: "pool_worker work_two (pack_worker work_two)" by (simp add: pool_worker_def)
  have "\<forall>j \<in> set [2, 1]. is_ok (work_two j)" by (simp add: work_two_def)
  from successful_pool_finishes [OF w _ _ this reachable.start, of 1 2] show ?thesis
    using w by (auto simp: pool_start_def)
qed

end
