(* ===== verification/Local_Cas.thy ===== *)
theory Local_Cas
  imports Chunking "HOL-Library.Char_ord" "HOL-Library.List_Lexorder" "HOL-Library.Product_Lexorder"
begin

text \<open>
  The local content-addressed cache (\<^verbatim>\<open>LocalCas\<close> of \<^verbatim>\<open>noland-cas/src/lib.rs\<close>): publishing, reading,
  pinning and evicting objects. The directory is a list of files in the order \<^verbatim>\<open>read_dir\<close> gives them.
  What other writers do between the check for an object and its publication, and the outcome of each
  file-system call, are parameters.
\<close>

section \<open>State\<close>

record cas_file =
  file_name :: string
  content :: bytes
  modified :: nat

record cas =
  dir :: "cas_file list"
  pin_markers :: "string list"

definition is_object_name :: "string \<Rightarrow> bool" where
  "is_object_name nm \<longleftrightarrow> length nm = 64 \<and>
     (\<forall>c \<in> set nm. let n = of_char c :: nat in 48 \<le> n \<and> n \<le> 57 \<or> 97 \<le> n \<and> n \<le> 102)"

definition object_name :: "string \<Rightarrow> (state_error, string) result" where
  "object_name hash =
     (case strip_prefix ''blake3:'' hash of
        None \<Rightarrow> Inl (Invalid ''invalid CAS hash'')
      | Some nm \<Rightarrow> if is_object_name nm then Inr nm else Inl (Invalid ''invalid CAS hash''))"

definition lookup :: "cas \<Rightarrow> string \<Rightarrow> bytes option" where
  "lookup c nm = map_option content (List.find (\<lambda>f. file_name f = nm) (dir c))"

section \<open>Reading and publishing\<close>

definition contains :: "cas \<Rightarrow> string \<Rightarrow> bool" where
  "contains c hash \<longleftrightarrow> (case object_name hash of Inl _ \<Rightarrow> False | Inr nm \<Rightarrow> lookup c nm \<noteq> None)"

definition read_object :: "cas \<Rightarrow> string \<Rightarrow> (state_error, bytes) result" where
  "read_object c hash = res_bind (object_name hash) (\<lambda>nm. ok_or (NotFound hash) (lookup c nm))"

record cas_put =
  put_hash :: string
  put_bytes :: nat
  reused :: bool

definition verify_object :: "(bytes \<Rightarrow> string) \<Rightarrow> string \<Rightarrow> bytes \<Rightarrow> (state_error, unit) result" where
  "verify_object blake3 hash f =
     (if blake3_hex blake3 f \<noteq> hash then Inl (Integrity ''existing CAS object does not match key'') else Inr ())"

text \<open>
  \<open>temp_fails\<close>: creating, writing or syncing the temporary file fails. \<open>others\<close>: what the other
  writers have done when the hard link is made. The temporary file has gone when the call returns.
\<close>

definition put_prehashed ::
  "(bytes \<Rightarrow> string) \<Rightarrow> bool \<Rightarrow> bool \<Rightarrow> (cas \<Rightarrow> cas) \<Rightarrow> nat \<Rightarrow> string \<Rightarrow> bytes \<Rightarrow> cas \<Rightarrow> (state_error, cas_put) result \<times> cas" where
  "put_prehashed blake3 temp_fails link_fails others t hash data c =
     (case object_name hash of
        Inl e \<Rightarrow> (Inl e, c)
      | Inr nm \<Rightarrow>
        (case lookup c nm of
           Some f \<Rightarrow>
             (res_bind (verify_object blake3 hash f)
               (\<lambda>_. Inr \<lparr>put_hash = hash, put_bytes = length data, reused = True\<rparr>), c)
         | None \<Rightarrow>
           let c1 = others c in
           if temp_fails then (Inl Io, c1)
           else
             case lookup c1 nm of
               Some f \<Rightarrow>
                 (res_bind (verify_object blake3 hash f)
                   (\<lambda>_. Inr \<lparr>put_hash = hash, put_bytes = length data, reused = False\<rparr>), c1)
             | None \<Rightarrow>
                 if link_fails then (Inl Io, c1)
                 else (Inr \<lparr>put_hash = hash, put_bytes = length data, reused = False\<rparr>,
                   c1\<lparr>dir := dir c1 @ [\<lparr>file_name = nm, content = data, modified = t\<rparr>]\<rparr>)))"

definition put_verified ::
  "(bytes \<Rightarrow> string) \<Rightarrow> bool \<Rightarrow> bool \<Rightarrow> (cas \<Rightarrow> cas) \<Rightarrow> nat \<Rightarrow> string \<Rightarrow> bytes \<Rightarrow> cas \<Rightarrow> (state_error, cas_put) result \<times> cas" where
  "put_verified blake3 temp_fails link_fails others t hash data c =
     (if blake3_hex blake3 data \<noteq> hash then (Inl (Integrity ''payload does not match CAS key''), c)
      else put_prehashed blake3 temp_fails link_fails others t hash data c)"

definition put ::
  "(bytes \<Rightarrow> string) \<Rightarrow> bool \<Rightarrow> bool \<Rightarrow> (cas \<Rightarrow> cas) \<Rightarrow> nat \<Rightarrow> bytes \<Rightarrow> cas \<Rightarrow> (state_error, cas_put) result \<times> cas" where
  "put blake3 temp_fails link_fails others t data c =
     put_verified blake3 temp_fails link_fails others t (blake3_hex blake3 data) data c"

text \<open>\<open>t k\<close> is the time of the \<open>k\<close>-th publication; nothing fails and no other writer interferes.\<close>

fun write_each_payload :: "(bytes \<Rightarrow> string) \<Rightarrow> nat \<Rightarrow> (chunk_ref \<times> bytes) list \<Rightarrow> cas \<Rightarrow> (state_error, unit) result \<times> cas" where
  "write_each_payload blake3 t [] c = (Inr (), c)"
| "write_each_payload blake3 t ((r, m) # rs) c =
     (case put_verified blake3 False False id t (chunk_hash r) m c of
        (Inl e, c') \<Rightarrow> (Inl e, c')
      | (Inr _, c') \<Rightarrow> write_each_payload blake3 (t + 1) rs c')"

definition write_chunk_payloads :: "(bytes \<Rightarrow> string) \<Rightarrow> nat \<Rightarrow> file_chunks \<Rightarrow> cas \<Rightarrow> (state_error, unit) result \<times> cas" where
  "write_chunk_payloads blake3 t fc c = write_each_payload blake3 t (zip (chunks fc) (payloads fc)) c"

section \<open>Pins\<close>

text \<open>\<open>io_fails\<close>: the marker cannot be created, or removed.\<close>

definition pin :: "bool \<Rightarrow> string \<Rightarrow> cas \<Rightarrow> (state_error, nat) result \<times> cas" where
  "pin io_fails hash c =
     (case object_name hash of
        Inl e \<Rightarrow> (Inl e, c)
      | Inr nm \<Rightarrow>
        (case lookup c nm of
           None \<Rightarrow> (Inl (NotFound hash), c)
         | Some f \<Rightarrow>
             if io_fails then (Inl Io, c) else (Inr (length f), c\<lparr>pin_markers := List.insert nm (pin_markers c)\<rparr>)))"

definition unpin :: "bool \<Rightarrow> string \<Rightarrow> cas \<Rightarrow> (state_error, bool) result \<times> cas" where
  "unpin io_fails hash c =
     (case object_name hash of
        Inl e \<Rightarrow> (Inl e, c)
      | Inr nm \<Rightarrow>
          if io_fails then (Inl Io, c) else (Inr (nm \<in> set (pin_markers c)), c\<lparr>pin_markers := removeAll nm (pin_markers c)\<rparr>))"

definition is_pinned :: "cas \<Rightarrow> string \<Rightarrow> bool" where
  "is_pinned c hash \<longleftrightarrow> (case object_name hash of Inl _ \<Rightarrow> False | Inr nm \<Rightarrow> nm \<in> set (pin_markers c))"

section \<open>Usage and eviction\<close>

definition objects :: "cas \<Rightarrow> cas_file list" where
  "objects c = filter (\<lambda>f. is_object_name (file_name f)) (dir c)"

abbreviation hash_of :: "cas_file \<Rightarrow> string" where
  "hash_of f \<equiv> ''blake3:'' @ file_name f"

abbreviation size_of :: "cas_file \<Rightarrow> nat" where
  "size_of f \<equiv> length (content f)"

record cache_usage =
  total_bytes :: nat
  pinned_bytes :: nat
  object_count :: nat
  pinned_objects :: nat

definition count_object :: "cas \<Rightarrow> cache_usage \<Rightarrow> cas_file \<Rightarrow> cache_usage" where
  "count_object c u f =
     (let u1 = u\<lparr>total_bytes := saturating_add64 (total_bytes u) (size_of f), object_count := object_count u + 1\<rparr> in
      if is_pinned c (hash_of f)
      then u1\<lparr>pinned_bytes := saturating_add64 (pinned_bytes u1) (size_of f), pinned_objects := pinned_objects u1 + 1\<rparr>
      else u1)"

definition usage :: "cas \<Rightarrow> cache_usage" where
  "usage c = foldl (count_object c) \<lparr>total_bytes = 0, pinned_bytes = 0, object_count = 0, pinned_objects = 0\<rparr> (objects c)"

record eviction_result =
  bytes_before :: nat
  bytes_after :: nat
  bytes_evicted :: nat
  objects_evicted :: nat
  target_met :: bool

datatype removal = Removed | Gone | RemoveFailed

text \<open>The loop over the objects, oldest first; \<open>fs\<close> is the directory as it is left.\<close>

fun evict_loop ::
  "(string \<Rightarrow> bool) \<Rightarrow> (cas_file \<Rightarrow> removal) \<Rightarrow> nat \<Rightarrow> cas_file list \<Rightarrow> eviction_result \<Rightarrow> cas_file list
    \<Rightarrow> (state_error, eviction_result) result \<times> cas_file list" where
  "evict_loop pinned outcome mx [] r fs = (Inr r, fs)"
| "evict_loop pinned outcome mx (f # rest) r fs =
     (if bytes_after r \<le> mx then (Inr r, fs)
      else if pinned (hash_of f) then evict_loop pinned outcome mx rest r fs
      else case outcome f of
        Removed \<Rightarrow>
          evict_loop pinned outcome mx rest
            (r\<lparr>bytes_after := bytes_after r - size_of f, bytes_evicted := saturating_add64 (bytes_evicted r) (size_of f),
               objects_evicted := objects_evicted r + 1\<rparr>) (removeAll f fs)
      | Gone \<Rightarrow>
          evict_loop pinned outcome mx rest (r\<lparr>bytes_after := bytes_after r - size_of f\<rparr>) (removeAll f fs)
      | RemoveFailed \<Rightarrow> (Inl Io, fs))"

definition evict_to :: "(cas_file \<Rightarrow> removal) \<Rightarrow> nat \<Rightarrow> cas \<Rightarrow> (state_error, eviction_result) result \<times> cas" where
  "evict_to outcome mx c =
     (let objs = objects c;
          before = sum_list (map size_of objs);
          start = \<lparr>bytes_before = before, bytes_after = before, bytes_evicted = 0, objects_evicted = 0, target_met = False\<rparr>
      in case evict_loop (is_pinned c) outcome mx (sort_key (\<lambda>f. (modified f, hash_of f)) objs) start (dir c) of
           (Inl e, fs) \<Rightarrow> (Inl e, c\<lparr>dir := fs\<rparr>)
         | (Inr r, fs) \<Rightarrow> (Inr (r\<lparr>target_met := bytes_after r \<le> mx\<rparr>), c\<lparr>dir := fs\<rparr>))"

section \<open>Publication\<close>

text \<open>Every object is what its name says; names are unique, as in any directory.\<close>

definition cas_ok :: "(bytes \<Rightarrow> string) \<Rightarrow> cas \<Rightarrow> bool" where
  "cas_ok blake3 c \<longleftrightarrow> distinct (map file_name (dir c)) \<and> (\<forall>f \<in> set (objects c). blake3 (content f) = file_name f)"

lemma lookup_Some: "lookup c nm = Some m \<Longrightarrow> \<exists>f \<in> set (dir c). file_name f = nm \<and> content f = m"
  by (auto simp: lookup_def find_Some_iff)

lemma lookup_None: "lookup c nm = None \<longleftrightarrow> nm \<notin> file_name ` set (dir c)"
  by (auto simp: lookup_def find_None_iff)

lemma find_append: "List.find P (xs @ ys) = (case List.find P xs of Some x \<Rightarrow> Some x | None \<Rightarrow> List.find P ys)"
  by (induction xs) auto

lemma object_name_Inr: "object_name hash = Inr nm \<Longrightarrow> hash = ''blake3:'' @ nm \<and> is_object_name nm"
  by (auto simp: object_name_def strip_prefix_Some split: option.splits if_splits)

lemma object_name_of [simp]: "object_name (''blake3:'' @ nm) = (if is_object_name nm then Inr nm else Inl (Invalid ''invalid CAS hash''))"
  using strip_prefix_append [of "''blake3:''" nm] by (simp add: object_name_def)

definition publish :: "string \<Rightarrow> bytes \<Rightarrow> nat \<Rightarrow> cas \<Rightarrow> cas" where
  "publish nm m t c = c\<lparr>dir := dir c @ [\<lparr>file_name = nm, content = m, modified = t\<rparr>]\<rparr>"

lemma cas_ok_publish:
  assumes "cas_ok blake3 c" "lookup c nm = None" "blake3 m = nm"
  shows "cas_ok blake3 (publish nm m t c)"
  using assms by (auto simp: cas_ok_def publish_def objects_def lookup_None)

lemma lookup_publish:
  "lookup c nm = None \<Longrightarrow> lookup (publish nm m t c) nm = Some m"
  "lookup c k = Some f \<Longrightarrow> lookup (publish nm m t c) k = Some f"
  by (auto simp: lookup_def publish_def find_append split: option.splits)

text \<open>A pin holds until it is taken back, and pins only what is there.\<close>

lemma pin_unpin:
  assumes "pin False hash c = (Inr n, c')"
  shows "is_pinned c' hash" "contains c hash" "\<not> is_pinned (snd (unpin False hash c')) hash"
    "hash' \<noteq> hash \<Longrightarrow> is_pinned (snd (unpin False hash c')) hash' = is_pinned c hash'"
  using assms object_name_Inr [of hash] object_name_Inr [of hash']
  by (auto simp: pin_def unpin_def is_pinned_def contains_def split: sum.splits option.splits)

section \<open>Eviction\<close>

definition evictable :: "(string \<Rightarrow> bool) \<Rightarrow> cas_file list \<Rightarrow> cas_file list" where
  "evictable pinned fs = filter (\<lambda>f. \<not> pinned (hash_of f)) fs"

lemma evict_loop_result:
  assumes "\<And>f. outcome f \<noteq> RemoveFailed"
  shows "\<exists>k r'. evict_loop pinned outcome mx l r fs =
      (Inr r', filter (\<lambda>f. f \<notin> set (evictable pinned (take k l))) fs) \<and>
    bytes_before r' = bytes_before r \<and>
    bytes_after r' = bytes_after r - sum_list (map size_of (evictable pinned (take k l))) \<and>
    (bytes_after r' \<le> mx \<or> length l \<le> k) \<and> (bytes_after r \<le> mx \<longrightarrow> k = 0)"
proof (induction l arbitrary: r fs)
  case Nil
  show ?case by (intro exI [of _ 0]) (simp add: evictable_def)
next
  case (Cons f l)
  show ?case
  proof (cases "bytes_after r \<le> mx")
    case True
    then show ?thesis by (intro exI [of _ 0]) (simp add: evictable_def)
  next
    case over: False
    let ?gone = "\<not> pinned (hash_of f)"
    let ?fs = "if ?gone then removeAll f fs else fs"
    have "\<exists>r1. evict_loop pinned outcome mx (f # l) r fs = evict_loop pinned outcome mx l r1 ?fs \<and>
        bytes_before r1 = bytes_before r \<and> bytes_after r1 = bytes_after r - (if ?gone then size_of f else 0)"
      using over assms [of f] by (cases "outcome f") auto
    then obtain r1 where step: "evict_loop pinned outcome mx (f # l) r fs = evict_loop pinned outcome mx l r1 ?fs"
      and r1: "bytes_before r1 = bytes_before r" "bytes_after r1 = bytes_after r - (if ?gone then size_of f else 0)"
      by blast
    obtain k r' where "evict_loop pinned outcome mx l r1 ?fs =
        (Inr r', filter (\<lambda>g. g \<notin> set (evictable pinned (take k l))) ?fs)"
      "bytes_before r' = bytes_before r1"
      "bytes_after r' = bytes_after r1 - sum_list (map size_of (evictable pinned (take k l)))"
      "bytes_after r' \<le> mx \<or> length l \<le> k"
      using Cons.IH [of r1 ?fs] by blast
    moreover have "filter (\<lambda>g. g \<notin> set (evictable pinned (take k l))) ?fs =
        filter (\<lambda>g. g \<notin> set (evictable pinned (take (Suc k) (f # l)))) fs"
      by (cases ?gone) (auto simp: evictable_def removeAll_filter_not_eq intro!: filter_cong)
    moreover have "bytes_after r1 - sum_list (map size_of (evictable pinned (take k l))) =
        bytes_after r - sum_list (map size_of (evictable pinned (take (Suc k) (f # l))))"
      using r1 by (simp add: evictable_def)
    ultimately show ?thesis using over step r1
      by (intro exI [of _ "Suc k"] exI [of _ r']) (simp del: evict_loop.simps)
  qed
qed

lemma sum_filter_split:
  fixes g :: "'a \<Rightarrow> nat"
  shows "sum_list (map g xs) = sum_list (map g (filter P xs)) + sum_list (map g (filter (\<lambda>x. \<not> P x) xs))"
  by (induction xs) auto

lemma sum_removed:
  fixes g :: "'a \<Rightarrow> nat"
  assumes "distinct xs" "distinct ys" "set ys \<subseteq> set xs"
  shows "sum_list (map g (filter (\<lambda>x. x \<notin> set ys) xs)) = sum_list (map g xs) - sum_list (map g ys)"
proof -
  have "sum_list (map g (filter (\<lambda>x. x \<in> set ys) xs)) = sum g (set (filter (\<lambda>x. x \<in> set ys) xs))"
    by (rule sum.distinct_set_conv_list [symmetric]) (simp add: assms(1))
  also have "set (filter (\<lambda>x. x \<in> set ys) xs) = set ys" using assms(3) by auto
  also have "sum g (set ys) = sum_list (map g ys)" by (rule sum.distinct_set_conv_list [OF assms(2)])
  finally show ?thesis using sum_filter_split [of g xs "\<lambda>x. x \<in> set ys"] by simp
qed

lemma sorted_take_le:
  assumes "sorted (map h l)" "f \<in> set (take k l)" "g \<notin> set (take k l)" "g \<in> set l"
  shows "h f \<le> h g"
proof -
  have "set l = set (take k l) \<union> set (drop k l)" by (simp flip: set_append)
  moreover have "sorted (map h (take k l) @ map h (drop k l))" using assms(1) by (simp flip: map_append)
  ultimately show ?thesis using assms(2-) by (auto simp: sorted_append)
qed

section \<open>Properties\<close>

text \<open>C19: a successful publication is a verified one, and objects are never replaced. Whatever is in the cache and
  whatever other writers do to it before the link is made, corrupt it included: publishing changes no object present when
  the link is made and adds at most the given bytes under the name they hash to; when it reports success, reading the hash
  gives bytes with that hash, also where an object was already there; it does succeed when the bytes have the hash, the
  hash is an object name, the objects found under it are intact and no call fails; a hash that is no object name is refused
  without a change; and if every object was what its name says and the others kept to that, it still holds.\<close>

theorem cas_put_immutable:
  assumes "put_verified blake3 temp_fails link_fails others t hash data c = (r, c')"
  shows "(is_ok r \<longrightarrow> (\<exists>m. read_object c' hash = Inr m \<and> blake3_hex blake3 m = hash)) \<and>
    (c' = c \<or> c' = others c \<or>
      (\<exists>nm. hash = ''blake3:'' @ nm \<and> blake3 data = nm \<and> lookup (others c) nm = None \<and>
        dir c' = dir (others c) @ [\<lparr>file_name = nm, content = data, modified = t\<rparr>] \<and> pin_markers c' = pin_markers (others c))) \<and>
    (\<not> temp_fails \<and> \<not> link_fails \<and> blake3_hex blake3 data = hash \<and> is_ok (object_name hash) \<and>
      (\<forall>m \<in> set_option (lookup c (drop 7 hash)) \<union> set_option (lookup (others c) (drop 7 hash)). blake3_hex blake3 m = hash)
      \<longrightarrow> is_ok r) \<and>
    (is_ok (object_name hash) \<or> c' = c \<and> \<not> is_ok r) \<and>
    (cas_ok blake3 c \<and> cas_ok blake3 (others c) \<longrightarrow> cas_ok blake3 c')"
proof (cases "blake3_hex blake3 data = hash")
  case False
  then show ?thesis using assms by (auto simp: put_verified_def is_ok_def)
next
  case True
  show ?thesis
  proof (cases "object_name hash")
    case (Inl e)
    then show ?thesis using assms True by (auto simp: put_verified_def put_prehashed_def is_ok_def)
  next
    case (Inr nm)
    have hash: "hash = ''blake3:'' @ nm" using object_name_Inr [OF Inr] by blast
    then have short: "drop 7 hash = nm" "blake3 data = nm" using True by (simp_all add: blake3_hex_def)
    have read: "read_object x hash = ok_or (NotFound hash) (lookup x nm)" for x by (simp add: read_object_def Inr)
    have "(\<exists>f. lookup c nm = Some f \<and> c' = c \<and> r = res_bind (verify_object blake3 hash f)
          (\<lambda>_. Inr \<lparr>put_hash = hash, put_bytes = length data, reused = True\<rparr>)) \<or>
      c' = others c \<and> \<not> is_ok r \<and> (temp_fails \<or> link_fails) \<or>
      (\<exists>f. lookup (others c) nm = Some f \<and> c' = others c \<and> r = res_bind (verify_object blake3 hash f)
          (\<lambda>_. Inr \<lparr>put_hash = hash, put_bytes = length data, reused = False\<rparr>)) \<or>
      lookup (others c) nm = None \<and> c' = publish nm data t (others c) \<and> is_ok r"
      using assms True Inr
      by (auto simp: put_verified_def put_prehashed_def publish_def Let_def split: option.splits if_splits)
    then show ?thesis
    proof (elim disjE exE conjE)
      assume new: "lookup (others c) nm = None" "c' = publish nm data t (others c)" "is_ok r"
      have "cas_ok blake3 (others c) \<longrightarrow> cas_ok blake3 c'" using cas_ok_publish [of blake3 "others c" nm data t] new(1,2) short(2) by blast
      moreover have "read_object c' hash = Inr data" "is_ok (object_name hash)"
        using lookup_publish(1) [OF new(1)] new(2) by (simp_all add: read Inr)
      moreover have "dir c' = dir (others c) @ [\<lparr>file_name = nm, content = data, modified = t\<rparr>]"
        "pin_markers c' = pin_markers (others c)" using new(2) by (simp_all add: publish_def)
      ultimately show ?thesis using hash short(2) True new(1,3) by blast
    qed (auto simp: verify_object_def read short Inr split: if_splits)
  qed
qed

text \<open>C20: eviction frees the oldest unpinned objects and no others. When no removal fails, eviction
  returns; it keeps every pinned object and every file that is no object, and leaves the pins alone;
  whatever it removed is an unpinned object older than every unpinned object that is left; the size
  it reports is the size of what is left; the target is missed only when everything left is pinned;
  and a cache within the limit is not touched.\<close>

theorem eviction_correct:
  assumes "\<And>f. outcome f \<noteq> RemoveFailed" "distinct (map file_name (dir c))"
  shows "\<exists>r c'. evict_to outcome mx c = (Inr r, c') \<and> pin_markers c' = pin_markers c \<and>
    set (dir c') \<subseteq> set (dir c) \<and>
    (\<forall>f \<in> set (dir c) - set (dir c'). is_object_name (file_name f) \<and> \<not> is_pinned c (hash_of f) \<and>
      (\<forall>g \<in> set (objects c'). is_pinned c (hash_of g) \<or> (modified f, hash_of f) < (modified g, hash_of g))) \<and>
    bytes_after r = sum_list (map size_of (objects c')) \<and> (target_met r \<longleftrightarrow> bytes_after r \<le> mx) \<and>
    (target_met r \<or> (\<forall>g \<in> set (objects c'). is_pinned c (hash_of g))) \<and>
    (sum_list (map size_of (objects c)) \<le> mx \<longrightarrow> c' = c)"
proof -
  let ?ord = "\<lambda>f. (modified f, hash_of f)" and ?total = "sum_list (map size_of (objects c))"
  define l where "l = sort_key ?ord (objects c)"
  let ?start = "\<lparr>bytes_before = ?total, bytes_after = ?total, bytes_evicted = 0, objects_evicted = 0, target_met = False\<rparr>"
  obtain k r where run: "evict_loop (is_pinned c) outcome mx l ?start (dir c) =
      (Inr r, filter (\<lambda>f. f \<notin> set (evictable (is_pinned c) (take k l))) (dir c))"
    and after: "bytes_after r = ?total - sum_list (map size_of (evictable (is_pinned c) (take k l)))"
    and stop: "bytes_after r \<le> mx \<or> length l \<le> k" and idle: "?total \<le> mx \<Longrightarrow> k = 0"
    using evict_loop_result [where outcome = outcome and pinned = "is_pinned c" and mx = mx and l = l and r = ?start and
        fs = "dir c", OF assms(1)]
    unfolding eviction_result.select_convs by blast
  define gone where "gone = evictable (is_pinned c) (take k l)"
  define c' where "c' = c\<lparr>dir := filter (\<lambda>f. f \<notin> set gone) (dir c)\<rparr>"
  have l: "set l = set (objects c)" "distinct l" "sorted (map ?ord l)"
    using assms(2) by (auto simp: l_def objects_def distinct_map)
  have gone: "set gone \<subseteq> set (objects c)" "distinct gone"
    using l set_take_subset [of k l] by (auto simp: gone_def evictable_def)
  have left: "objects c' = filter (\<lambda>f. f \<notin> set gone) (objects c)"
    by (auto simp: c'_def objects_def intro: filter_cong)
  have size: "bytes_after r = sum_list (map size_of (objects c'))"
    unfolding left after using sum_removed [of "objects c" gone size_of] gone assms(2)
    by (simp add: gone_def objects_def distinct_map)
  have older: "?ord f < ?ord g" if f: "f \<in> set gone" and g: "g \<in> set (objects c')" "\<not> is_pinned c (hash_of g)" for f g
  proof -
    have "f \<in> set (take k l)" "g \<notin> set (take k l)" "g \<in> set l"
      using f g l(1) by (auto simp: left gone_def evictable_def)
    then have "?ord f \<le> ?ord g" by (rule sorted_take_le [OF l(3)])
    moreover have "g \<in> set (objects c)" "g \<notin> set gone" using g(1) unfolding left by auto
    then have "file_name f \<noteq> file_name g"
      using f gone(1) assms(2) by (auto simp: objects_def distinct_map inj_on_def)
    ultimately show ?thesis by (auto simp: less_le)
  qed
  have full: "is_pinned c (hash_of g)" if "\<not> bytes_after r \<le> mx" "g \<in> set (objects c')" for g
  proof (rule ccontr)
    assume "\<not> is_pinned c (hash_of g)"
    moreover have "take k l = l" "g \<in> set l" using that stop l(1) by (auto simp: left)
    ultimately show False using that(2) by (simp add: left gone_def evictable_def)
  qed
  have removed: "is_object_name (file_name f) \<and> \<not> is_pinned c (hash_of f) \<and>
      (\<forall>g \<in> set (objects c'). is_pinned c (hash_of g) \<or> ?ord f < ?ord g)" if f: "f \<in> set (dir c) - set (dir c')" for f
  proof -
    have "f \<in> set gone" using f by (simp add: c'_def)
    moreover from this have "is_object_name (file_name f) \<and> \<not> is_pinned c (hash_of f)"
      using gone(1) by (auto simp: objects_def gone_def evictable_def)
    ultimately show ?thesis using older by blast
  qed
  define r' where "r' = r\<lparr>target_met := bytes_after r \<le> mx\<rparr>"
  have "evict_to outcome mx c = (Inr r', c')"
    using run by (simp add: evict_to_def Let_def l_def c'_def gone_def r'_def)
  moreover have "c' = c" if "?total \<le> mx" using idle [OF that] by (simp add: c'_def gone_def evictable_def)
  moreover have "set (dir c') \<subseteq> set (dir c)" "pin_markers c' = pin_markers c" by (auto simp: c'_def)
  moreover have "bytes_after r' = bytes_after r" "target_met r' \<longleftrightarrow> bytes_after r \<le> mx" by (simp_all add: r'_def)
  ultimately show ?thesis using size removed full by (intro exI [of _ r'] exI [of _ c']) metis
qed

section \<open>Witnesses\<close>

definition repeat_name :: "char \<Rightarrow> string" where
  "repeat_name ch = replicate 64 ch"

text \<open>A toy hash into object names, and a cache with an old pinned object and two others.\<close>

definition toy_blake3 :: "bytes \<Rightarrow> string" where
  "toy_blake3 m = repeat_name (if m = [1, 2] then CHR ''a'' else if m = [3] then CHR ''b'' else CHR ''c'')"

definition toy_cas :: cas where
  "toy_cas = \<lparr>dir = [\<lparr>file_name = repeat_name CHR ''a'', content = [1, 2], modified = 5\<rparr>,
       \<lparr>file_name = repeat_name CHR ''b'', content = [3], modified = 1\<rparr>,
       \<lparr>file_name = repeat_name CHR ''c'', content = [4, 5], modified = 9\<rparr>],
     pin_markers = [repeat_name CHR ''b'']\<rparr>"

lemma toy_cas_ok: "cas_ok toy_blake3 toy_cas"
  by code_simp

theorem cas_put_immutable_witness:
  "cas_ok toy_blake3 toy_cas \<and>
   (case put_verified toy_blake3 False False id 12 (''blake3:'' @ repeat_name CHR ''a'') [1, 2] toy_cas of
      (r, c') \<Rightarrow> cas_ok toy_blake3 c' \<and> is_ok r \<and>
        (\<exists>m. read_object c' (''blake3:'' @ repeat_name CHR ''a'') = Inr m \<and>
          blake3_hex toy_blake3 m = ''blake3:'' @ repeat_name CHR ''a''))"
proof -
  let ?run = "put_verified toy_blake3 False False id 12 (''blake3:'' @ repeat_name CHR ''a'') [1, 2] toy_cas"
  have ok: "is_ok (fst ?run)" by code_simp
  have run: "?run = (fst ?run, snd ?run)" by simp
  from cas_put_immutable [OF run] toy_cas_ok ok show ?thesis by (auto simp: case_prod_beta)
qed

theorem eviction_correct_witness:
  "distinct (map file_name (dir toy_cas)) \<and>
   (\<exists>r c'. evict_to (\<lambda>_. Removed) 3 toy_cas = (Inr r, c') \<and> map content (dir c') = [[3], [4, 5]] \<and>
      bytes_after r = sum_list (map size_of (objects c')))"
proof -
  have d: "distinct (map file_name (dir toy_cas))" by code_simp
  have names: "is_object_name (repeat_name CHR ''a'')" "is_object_name (repeat_name CHR ''b'')"
    "is_object_name (repeat_name CHR ''c'')" "repeat_name CHR ''a'' \<noteq> repeat_name CHR ''b''"
    by code_simp+
  have left: "map content (dir (snd (evict_to (\<lambda>_. Removed) 3 toy_cas))) = [[3], [4, 5]]"
    using names by (simp add: evict_to_def toy_cas_def objects_def is_pinned_def del: append_Cons append.append_Nil)
  obtain r c' where run: "evict_to (\<lambda>_. Removed) 3 toy_cas = (Inr r, c')" and "bytes_after r = sum_list (map size_of (objects c'))"
    using eviction_correct [OF _ d, of "\<lambda>_. Removed" 3] by auto
  then show ?thesis using d left by (intro conjI exI [of _ r] exI [of _ c']) simp_all
qed

end
