(* ===== verification/Sync_Journal.thy ===== *)
theory Sync_Journal
  imports State_Core
begin

text \<open>
  The journal of transfers in the state agent's database (\<^verbatim>\<open>noland-state-db/src/persistence.rs\<close>, the types of
  \<^verbatim>\<open>noland-state-core/src/persistence.rs\<close>) and the observer that fills it during uploads
  (\<^verbatim>\<open>noland-storage/src/commit.rs\<close>). Every statement is atomic and can fail; the clock gives the time
  of each statement. Times are milliseconds.
\<close>

section \<open>Entries\<close>

datatype content_kind = FileKind | ChunkKind | PackKind | ManifestKind | OtherKind
datatype sync_direction = Upload | Download
datatype sync_state = Pending | InProgress | RetryScheduled | Completed | Failed | Skipped

definition is_terminal :: "sync_state \<Rightarrow> bool" where
  "is_terminal st \<longleftrightarrow> st \<in> {Completed, Failed, Skipped}"

record sync_entry =
  sj_kind :: content_kind
  sj_direction :: sync_direction
  sj_state :: sync_state
  sj_local :: "string option"
  sj_remote :: "string option"
  sj_hash :: "string option"
  sj_size :: "nat option"
  sj_attempts :: nat
  sj_transferred :: nat
  sj_error :: "string option"
  sj_created :: int
  sj_updated :: int
  sj_started :: "int option"
  sj_completed :: "int option"
  sj_retry :: "int option"

definition pending_entry :: "int \<Rightarrow> content_kind \<Rightarrow> sync_direction \<Rightarrow> sync_entry" where
  "pending_entry t kd dir =
     \<lparr>sj_kind = kd, sj_direction = dir, sj_state = Pending, sj_local = None, sj_remote = None, sj_hash = None,
      sj_size = None, sj_attempts = 0, sj_transferred = 0, sj_error = None, sj_created = t, sj_updated = t,
      sj_started = None, sj_completed = None, sj_retry = None\<rparr>"

record op_progress =
  completed_units :: nat
  total_units :: "nat option"
  unit_name :: "string option"
  completed_packs :: "nat option"
  total_packs :: "nat option"
  completed_pack_bytes :: "nat option"
  progress_transferred :: "nat option"
  total_transfer_bytes :: "nat option"
  progress_updated :: int

type_synonym sync_key = "string \<times> string"

text \<open>The older transfer table and the table of commits; the order of the rows is that of their row ids.\<close>

record old_row =
  old_direction :: string
  old_state :: string
  old_attempts :: nat
  old_error :: "string option"
  old_updated :: int

datatype commit_visibility = CommitPending | Uploading | Committed | CommitFailed

record commit_row =
  cm_id :: string
  cm_app :: string
  cm_bundle :: string
  cm_hash :: string
  cm_path :: "string option"
  cm_state :: commit_visibility
  cm_created :: int
  cm_committed :: "int option"

record journal_db =
  sync_rows :: "(sync_key \<times> sync_entry) list"
  old_rows :: "(sync_key \<times> old_row) list"
  commit_rows :: "commit_row list"
  op_runtime :: "string \<rightharpoonup> op_progress"
  statements :: nat

record db_env =
  stmt_fails :: "nat \<Rightarrow> bool"
  clock :: "nat \<Rightarrow> int"

section \<open>Statements\<close>

definition sql_error :: state_error where "sql_error = Database ''sqlite''"

definition statement :: "db_env \<Rightarrow> (int \<Rightarrow> journal_db \<Rightarrow> (state_error, 'a) result \<times> journal_db) \<Rightarrow> (journal_db, 'a) sop" where
  "statement env f d =
     (let d1 = d\<lparr>statements := statements d + 1\<rparr> in
      if stmt_fails env (statements d) then (Inl sql_error, d1) else f (clock env (statements d)) d1)"

definition update_row :: "sync_key \<Rightarrow> (sync_entry \<Rightarrow> sync_entry) \<Rightarrow> (sync_key \<times> sync_entry) list \<Rightarrow> (sync_key \<times> sync_entry) list" where
  "update_row ik f rs = map (\<lambda>(j, e). (j, if j = ik then f e else e)) rs"

definition sql_i64 :: "string \<Rightarrow> nat \<Rightarrow> (state_error, nat) result" where
  "sql_i64 field n = (if n < 2 ^ 63 then Inr n else Inl (Invalid (field @ '' exceeds SQLite range'')))"

definition opt_u64_to_i64 :: "string \<Rightarrow> nat option \<Rightarrow> (state_error, nat option) result" where
  "opt_u64_to_i64 field n = (case n of None \<Rightarrow> Inr None | Some k \<Rightarrow> map_sum id Some (sql_i64 field k))"

definition upsert_sync_journal_entry :: "db_env \<Rightarrow> sync_key \<Rightarrow> sync_entry \<Rightarrow> (journal_db, unit) sop" where
  "upsert_sync_journal_entry env ik e =
     sbind (slift (opt_u64_to_i64 ''sync item size'' (sj_size e))) (\<lambda>_.
     sbind (slift (sql_i64 ''transferred byte count'' (sj_transferred e))) (\<lambda>_.
     statement env (\<lambda>_ d. (Inr (), d\<lparr>sync_rows :=
       (if ik \<in> fst ` set (sync_rows d)
        then update_row ik (\<lambda>old. e\<lparr>sj_created := sj_created old\<rparr>) (sync_rows d)
        else sync_rows d @ [(ik, e)])\<rparr>))))"

definition row_to_sync_journal_entry :: "sync_entry \<Rightarrow> sync_entry" where
  "row_to_sync_journal_entry e = e\<lparr>sj_attempts := sj_attempts e mod 2 ^ 32\<rparr>"

definition get_sync_journal_entry :: "db_env \<Rightarrow> sync_key \<Rightarrow> (journal_db, sync_entry option) sop" where
  "get_sync_journal_entry env ik =
     statement env (\<lambda>_ d. (Inr (map_option row_to_sync_journal_entry (map_of (sync_rows d) ik)), d))"

definition set_sync_journal_state ::
  "db_env \<Rightarrow> sync_key \<Rightarrow> sync_state \<Rightarrow> string option \<Rightarrow> int option \<Rightarrow> (journal_db, bool) sop" where
  "set_sync_journal_state env ik st err retry =
     statement env (\<lambda>t d. (Inr (ik \<in> fst ` set (sync_rows d)), d\<lparr>sync_rows :=
       update_row ik (\<lambda>e. e\<lparr>
         sj_state := st,
         sj_attempts := sj_attempts e + (if st = InProgress \<and> sj_state e \<noteq> InProgress then 1 else 0),
         sj_error := err,
         sj_updated := t,
         sj_started := (if st = InProgress then Some (case sj_started e of None \<Rightarrow> t | Some t0 \<Rightarrow> t0) else sj_started e),
         sj_completed := (if is_terminal st then Some t else None),
         sj_retry := retry\<rparr>) (sync_rows d)\<rparr>))"

definition update_sync_journal_progress :: "db_env \<Rightarrow> sync_key \<Rightarrow> nat \<Rightarrow> (journal_db, bool) sop" where
  "update_sync_journal_progress env ik n =
     sbind (slift (sql_i64 ''transferred byte count'' n)) (\<lambda>_.
     statement env (\<lambda>t d. (Inr (ik \<in> fst ` set (sync_rows d)), d\<lparr>sync_rows :=
       update_row ik (\<lambda>e. e\<lparr>sj_transferred := max (sj_transferred e) n, sj_updated := t\<rparr>) (sync_rows d)\<rparr>)))"

definition sync_journal_completed :: "db_env \<Rightarrow> sync_key \<Rightarrow> (journal_db, bool) sop" where
  "sync_journal_completed env ik =
     sbind (get_sync_journal_entry env ik) (\<lambda>e. sret (case e of None \<Rightarrow> False | Some e \<Rightarrow> sj_state e = Completed))"

definition start_sync_journal_item ::
  "db_env \<Rightarrow> sync_key \<Rightarrow> content_kind \<Rightarrow> sync_direction \<Rightarrow> string option \<Rightarrow> string option \<Rightarrow> nat option \<Rightarrow> (journal_db, unit) sop" where
  "start_sync_journal_item env ik kd dir lp rp sz =
     sbind (get_sync_journal_entry env ik) (\<lambda>old d.
       let t = clock env (statements d);
           base = (case old of None \<Rightarrow> pending_entry t kd dir | Some e \<Rightarrow> e);
           e = base\<lparr>sj_kind := kd, sj_direction := dir, sj_local := lp, sj_remote := rp,
                    sj_size := (case sz of None \<Rightarrow> sj_size base | Some n \<Rightarrow> Some n), sj_updated := t\<rparr>
       in sbind (upsert_sync_journal_entry env ik e) (\<lambda>_.
          sbind (set_sync_journal_state env ik InProgress None None) (\<lambda>_. sret ())) d)"

definition complete_with_transfer :: "db_env \<Rightarrow> sync_key \<Rightarrow> nat \<Rightarrow> nat \<Rightarrow> (journal_db, unit) sop" where
  "complete_with_transfer env ik sz n =
     sbind (update_sync_journal_progress env ik n) (\<lambda>_.
     sbind (slift (sql_i64 ''sync item size'' sz)) (\<lambda>_.
     sbind (statement env (\<lambda>_ d. (Inr (), d\<lparr>sync_rows :=
        update_row ik (\<lambda>e. e\<lparr>sj_size := Some (case sj_size e of None \<Rightarrow> sz | Some k \<Rightarrow> k)\<rparr>) (sync_rows d)\<rparr>))) (\<lambda>_.
     sbind (set_sync_journal_state env ik Completed None None) (\<lambda>_. sret ()))))"

definition complete_sync_journal_item :: "db_env \<Rightarrow> sync_key \<Rightarrow> nat \<Rightarrow> (journal_db, unit) sop" where
  "complete_sync_journal_item env ik n = complete_with_transfer env ik n n"

definition complete_sync_journal_item_reused :: "db_env \<Rightarrow> sync_key \<Rightarrow> nat \<Rightarrow> (journal_db, unit) sop" where
  "complete_sync_journal_item_reused env ik sz = complete_with_transfer env ik sz 0"

definition fail_sync_journal_item :: "db_env \<Rightarrow> sync_key \<Rightarrow> string \<Rightarrow> (journal_db, unit) sop" where
  "fail_sync_journal_item env ik err = sbind (set_sync_journal_state env ik Failed (Some err) None) (\<lambda>_. sret ())"

definition delete_sync_journal_entries :: "db_env \<Rightarrow> string \<Rightarrow> content_kind \<Rightarrow> sync_direction \<Rightarrow> (journal_db, nat) sop" where
  "delete_sync_journal_entries env op kd dir =
     statement env (\<lambda>_ d.
       let hit = (\<lambda>(ik, e). fst ik = op \<and> sj_kind e = kd \<and> sj_direction e = dir) in
       (Inr (length (filter hit (sync_rows d))), d\<lparr>sync_rows := filter (\<lambda>x. \<not> hit x) (sync_rows d)\<rparr>))"

section \<open>Summaries and progress\<close>

record sync_summary =
  total_items :: nat
  pending_items :: nat
  in_progress_items :: nat
  retry_scheduled_items :: nat
  completed_items :: nat
  failed_items :: nat
  skipped_items :: nat
  total_bytes :: nat
  completed_bytes :: nat
  transferred_bytes :: nat

definition in_state :: "sync_state \<Rightarrow> sync_entry list \<Rightarrow> nat" where
  "in_state st es = length (filter (\<lambda>e. sj_state e = st) es)"

definition bytes_of :: "sync_entry list \<Rightarrow> nat" where
  "bytes_of es = (\<Sum>e\<leftarrow>es. case sj_size e of None \<Rightarrow> 0 | Some n \<Rightarrow> n)"

text \<open>SQLite's integer sum fails when it leaves the range of 64 bits.\<close>

definition sync_journal_summary :: "db_env \<Rightarrow> string \<Rightarrow> content_kind option \<Rightarrow> (journal_db, sync_summary) sop" where
  "sync_journal_summary env op kd =
     statement env (\<lambda>_ d.
       let es = map snd (filter (\<lambda>(ik, e). fst ik = op \<and> (kd = None \<or> kd = Some (sj_kind e))) (sync_rows d));
           tot = bytes_of es; tr = (\<Sum>e\<leftarrow>es. sj_transferred e) in
       if tot \<ge> 2 ^ 63 \<or> tr \<ge> 2 ^ 63 then (Inl sql_error, d)
       else (Inr \<lparr>total_items = length es, pending_items = in_state Pending es, in_progress_items = in_state InProgress es,
                  retry_scheduled_items = in_state RetryScheduled es, completed_items = in_state Completed es,
                  failed_items = in_state Failed es, skipped_items = in_state Skipped es, total_bytes = tot,
                  completed_bytes = bytes_of (filter (\<lambda>e. sj_state e = Completed) es), transferred_bytes = tr\<rparr>, d))"

definition get_operation_progress :: "db_env \<Rightarrow> string \<Rightarrow> (journal_db, op_progress option) sop" where
  "get_operation_progress env op = statement env (\<lambda>_ d. (Inr (op_runtime d op), d))"

definition set_operation_progress :: "db_env \<Rightarrow> string \<Rightarrow> op_progress option \<Rightarrow> (journal_db, unit) sop" where
  "set_operation_progress env op p = statement env (\<lambda>_ d. (Inr (), d\<lparr>op_runtime := (op_runtime d)(op := p)\<rparr>))"

section \<open>Commits\<close>

definition journal_put :: "db_env \<Rightarrow> sync_key \<Rightarrow> string \<Rightarrow> string \<Rightarrow> string option \<Rightarrow> (journal_db, unit) sop" where
  "journal_put env ik dir st err =
     statement env (\<lambda>t d. (Inr (), d\<lparr>old_rows :=
       (if ik \<in> fst ` set (old_rows d)
        then map (\<lambda>(j, r). (j, if j = ik then r\<lparr>old_state := st, old_attempts := old_attempts r + 1, old_error := err,
               old_updated := t div 1000\<rparr> else r)) (old_rows d)
        else old_rows d @ [(ik, \<lparr>old_direction = dir, old_state = st, old_attempts = 1, old_error = err, old_updated = t div 1000\<rparr>)])\<rparr>))"

definition record_commit ::
  "db_env \<Rightarrow> string \<Rightarrow> string \<Rightarrow> string \<Rightarrow> string \<Rightarrow> string option \<Rightarrow> commit_visibility \<Rightarrow> (journal_db, unit) sop" where
  "record_commit env cid app bundle hash path st =
     statement env (\<lambda>t d.
       let at = (if st = Committed then Some (t div 1000) else None) in
       (Inr (), d\<lparr>commit_rows :=
         (if cid \<in> cm_id ` set (commit_rows d)
          then map (\<lambda>r. if cm_id r = cid
                 then r\<lparr>cm_state := st, cm_path := (case path of None \<Rightarrow> cm_path r | Some p \<Rightarrow> Some p),
                        cm_committed := (case at of None \<Rightarrow> cm_committed r | Some a \<Rightarrow> Some a)\<rparr>
                 else r) (commit_rows d)
          else commit_rows d @
            [\<lparr>cm_id = cid, cm_app = app, cm_bundle = bundle, cm_hash = hash, cm_path = path, cm_state = st,
              cm_created = t div 1000, cm_committed = at\<rparr>])\<rparr>))"

text \<open>\<^verbatim>\<open>ORDER BY committed_at DESC, rowid DESC LIMIT 1\<close>: the last of the rows with the greatest time.\<close>

definition not_newer :: "commit_row \<Rightarrow> commit_row \<Rightarrow> bool" where
  "not_newer r q = (case (cm_committed r, cm_committed q) of
     (None, _) \<Rightarrow> True | (Some _, None) \<Rightarrow> False | (Some a, Some b) \<Rightarrow> a \<le> b)"

fun newest_commit :: "commit_row option \<Rightarrow> commit_row list \<Rightarrow> commit_row option" where
  "newest_commit best [] = best"
| "newest_commit None (r # rs) = newest_commit (Some r) rs"
| "newest_commit (Some b) (r # rs) = newest_commit (Some (if not_newer b r then r else b)) rs"

definition latest_commit :: "db_env \<Rightarrow> string \<Rightarrow> (journal_db, (string \<times> string \<times> string) option) sop" where
  "latest_commit env app =
     statement env (\<lambda>_ d. (Inr (map_option (\<lambda>r. (cm_id r, cm_bundle r, cm_hash r))
       (newest_commit None (filter (\<lambda>r. cm_app r = app \<and> cm_state r = Committed) (commit_rows d)))), d))"

section \<open>The upload observer\<close>

record upload_progress =
  completed_at_start :: nat
  transferred_at_start :: nat
  in_flight :: nat

definition persist_progress :: "db_env \<Rightarrow> string \<Rightarrow> nat \<Rightarrow> nat \<Rightarrow> (journal_db, unit) sop" where
  "persist_progress env op done_bytes tr =
     sbind (sync_journal_summary env op (Some PackKind)) (\<lambda>sm.
     sbind (get_operation_progress env op) (\<lambda>p d.
       case p of
         None \<Rightarrow> (Inr (), d)
       | Some p \<Rightarrow> set_operation_progress env op (Some (p\<lparr>
             completed_units := min done_bytes (total_bytes sm),
             total_units := Some (total_bytes sm),
             unit_name := Some ''bytes'',
             completed_packs := Some (completed_items sm),
             total_packs := Some (total_items sm),
             completed_pack_bytes := Some (min done_bytes (total_bytes sm)),
             progress_transferred := Some tr,
             total_transfer_bytes := Some (total_bytes sm),
             progress_updated := clock env (statements d)\<rparr>)) d))"

definition transfer_started :: "db_env \<Rightarrow> string \<Rightarrow> (upload_progress \<times> journal_db, unit) sop" where
  "transfer_started env op =
     (\<lambda>(up, d). case sync_journal_summary env op (Some PackKind) d of
        (Inl e, d') \<Rightarrow> (Inl e, up, d')
      | (Inr sm, d') \<Rightarrow>
          (Inr (), \<lparr>completed_at_start = completed_bytes sm, transferred_at_start = transferred_bytes sm, in_flight = 0\<rparr>, d'))"

definition transfer_progress :: "db_env \<Rightarrow> string \<Rightarrow> nat \<Rightarrow> (upload_progress \<times> journal_db, unit) sop" where
  "transfer_progress env op n =
     (\<lambda>(up, d).
        let up' = up\<lparr>in_flight := max (in_flight up) n\<rparr>;
            (r, d') = persist_progress env op (saturating_add64 (completed_at_start up') (in_flight up'))
                        (saturating_add64 (transferred_at_start up') (in_flight up')) d
        in (r, up', d'))"

definition complete_upload :: "db_env \<Rightarrow> (string \<rightharpoonup> bytes) \<Rightarrow> string \<Rightarrow> bool \<Rightarrow> string \<times> string \<Rightarrow> (journal_db, unit) sop" where
  "complete_upload env files op reused u =
     sbind (slift (ok_or Io (map_option length (files (fst u))))) (\<lambda>sz.
       if reused then complete_sync_journal_item_reused env (op, snd u) sz
       else complete_sync_journal_item env (op, snd u) sz)"

definition observer_completed ::
  "db_env \<Rightarrow> (string \<rightharpoonup> bytes) \<Rightarrow> string \<Rightarrow> bool \<Rightarrow> (string \<times> string) list \<Rightarrow> (journal_db, unit) sop" where
  "observer_completed env files op reused us =
     sbind (seach (complete_upload env files op reused) us) (\<lambda>_.
     sbind (sync_journal_summary env op (Some PackKind)) (\<lambda>sm.
     persist_progress env op (completed_bytes sm) (transferred_bytes sm)))"

section \<open>Invariants\<close>

text \<open>The times an entry carries are those of its state.\<close>

definition stamped :: "sync_entry \<Rightarrow> bool" where
  "stamped e \<longleftrightarrow>
     (sj_completed e \<noteq> None \<longleftrightarrow> is_terminal (sj_state e)) \<and> (sj_state e = InProgress \<longrightarrow> sj_started e \<noteq> None)"

definition entry_ok :: "sync_entry \<Rightarrow> bool" where
  "entry_ok e \<longleftrightarrow> stamped e \<and>
     sj_transferred e < 2 ^ 63 \<and> (case sj_size e of None \<Rightarrow> True | Some n \<Rightarrow> n < 2 ^ 63)"

definition progress_ok :: "op_progress \<Rightarrow> bool" where
  "progress_ok p \<longleftrightarrow> (case total_units p of None \<Rightarrow> True | Some n \<Rightarrow> completed_units p \<le> n)"

definition rows_ok :: "(sync_key \<times> sync_entry) list \<Rightarrow> bool" where
  "rows_ok rs \<longleftrightarrow> distinct (map fst rs) \<and> (\<forall>x \<in> set rs. entry_ok (snd x))"

definition journal_ok :: "journal_db \<Rightarrow> bool" where
  "journal_ok d \<longleftrightarrow> rows_ok (sync_rows d) \<and> distinct (map fst (old_rows d)) \<and> distinct (map cm_id (commit_rows d))"

lemma keys_update_row [simp]: "map fst (update_row ik f rs) = map fst rs" "fst ` set (update_row ik f rs) = fst ` set rs"
  by (force simp: update_row_def case_prod_beta' image_iff)+

lemma map_of_update_row [simp]:
  "map_of (update_row ik f rs) j = (if j = ik then map_option f (map_of rs j) else map_of rs j)"
  by (induction rs) (auto simp: update_row_def)

lemma rows_ok_update_row: "rows_ok rs \<Longrightarrow> (\<And>e. entry_ok e \<Longrightarrow> entry_ok (f e)) \<Longrightarrow> rows_ok (update_row ik f rs)"
  unfolding rows_ok_def keys_update_row(1) by (auto simp: update_row_def)

lemma rows_ok_append: "rows_ok rs \<Longrightarrow> ik \<notin> fst ` set rs \<Longrightarrow> entry_ok e \<Longrightarrow> rows_ok (rs @ [(ik, e)])"
  by (auto simp: rows_ok_def)

lemma stamped_updates [simp]:
  "stamped (e\<lparr>sj_created := c\<rparr>) = stamped e" "stamped (e\<lparr>sj_updated := c\<rparr>) = stamped e"
  "stamped (e\<lparr>sj_kind := kd\<rparr>) = stamped e" "stamped (e\<lparr>sj_direction := dir\<rparr>) = stamped e"
  "stamped (e\<lparr>sj_local := p\<rparr>) = stamped e" "stamped (e\<lparr>sj_remote := p\<rparr>) = stamped e"
  "stamped (e\<lparr>sj_size := n\<rparr>) = stamped e" "stamped (e\<lparr>sj_transferred := k\<rparr>) = stamped e"
  by (simp_all add: stamped_def)

lemma entry_ok_updates [simp]:
  "entry_ok (e\<lparr>sj_created := c\<rparr>) = entry_ok e" "entry_ok (e\<lparr>sj_updated := c\<rparr>) = entry_ok e"
  "entry_ok (e\<lparr>sj_kind := kd\<rparr>) = entry_ok e" "entry_ok (e\<lparr>sj_direction := dir\<rparr>) = entry_ok e"
  "entry_ok (e\<lparr>sj_local := p\<rparr>) = entry_ok e" "entry_ok (e\<lparr>sj_remote := p\<rparr>) = entry_ok e"
  "entry_ok (e\<lparr>sj_attempts := n\<rparr>) = entry_ok e"
  by (simp_all add: entry_ok_def stamped_def)

lemma entry_ok_pending [simp]: "entry_ok (pending_entry t kd dir)"
  by (simp add: entry_ok_def stamped_def pending_entry_def is_terminal_def)

lemma keeps_statement:
  assumes "\<And>t d. I d \<Longrightarrow> I (snd (f t d))" "\<And>d n. I (d\<lparr>statements := n\<rparr>) = I d"
  shows "keeps I (statement env f)"
  using assms by (auto simp: keeps_def leaves_def statement_def Let_def)

lemma journal_ok_statements [simp]: "journal_ok (d\<lparr>statements := n\<rparr>) = journal_ok d"
  by (simp add: journal_ok_def)

lemmas keeps_journal_statement = keeps_statement [of journal_ok, OF _ journal_ok_statements]

lemma keeps_sync_rows:
  assumes "\<And>t rs. rows_ok rs \<Longrightarrow> rows_ok (h t rs)"
  shows "keeps journal_ok (statement env (\<lambda>t d. (Inr (g t d), d\<lparr>sync_rows := h t (sync_rows d)\<rparr>)))"
  by (rule keeps_journal_statement) (use assms in \<open>simp add: journal_ok_def\<close>)

lemma keeps_row_update:
  assumes "\<And>t e. entry_ok e \<Longrightarrow> entry_ok (f t e)"
  shows "keeps journal_ok (statement env (\<lambda>t d. (Inr (g t d), d\<lparr>sync_rows := update_row ik (f t) (sync_rows d)\<rparr>)))"
  by (rule keeps_sync_rows) (use assms in \<open>simp add: rows_ok_update_row\<close>)

lemma keeps_journal_query: "(\<And>t d. snd (f t d) = d) \<Longrightarrow> keeps journal_ok (statement env f)"
  by (rule keeps_journal_statement) simp

lemma keeps_queries [keeps_rules]:
  "keeps journal_ok (get_sync_journal_entry env ik)" "keeps journal_ok (sync_journal_summary env op kd)"
  "keeps journal_ok (get_operation_progress env op)" "keeps journal_ok (latest_commit env app)"
  unfolding get_sync_journal_entry_def sync_journal_summary_def get_operation_progress_def latest_commit_def
  by (auto intro!: keeps_journal_query simp: Let_def)

lemma keeps_set_state [keeps_rules]: "keeps journal_ok (set_sync_journal_state env ik st err retry)"
  unfolding set_sync_journal_state_def by (rule keeps_row_update) (auto simp: entry_ok_def stamped_def)

text \<open>An entry is written only when its sizes fit.\<close>

lemma keeps_upsert:
  assumes "\<And>n. sj_size e = Some n \<Longrightarrow> n < 2 ^ 63 \<Longrightarrow> entry_ok e" "sj_size e = None \<Longrightarrow> entry_ok e"
  shows "keeps journal_ok (upsert_sync_journal_entry env ik e)"
proof (cases "\<exists>n. sj_size e = Some n \<and> \<not> n < 2 ^ 63")
  case True
  then obtain x where "opt_u64_to_i64 ''sync item size'' (sj_size e) = Inl x"
    by (auto simp: opt_u64_to_i64_def sql_i64_def)
  then show ?thesis by (simp add: upsert_sync_journal_entry_def keeps_def leaves_def sbind_def)
next
  case False
  then have ok: "entry_ok e" using assms by (cases "sj_size e") auto
  have "keeps journal_ok (statement env (\<lambda>_ d. (Inr (), d\<lparr>sync_rows :=
       (if ik \<in> fst ` set (sync_rows d)
        then update_row ik (\<lambda>old. e\<lparr>sj_created := sj_created old\<rparr>) (sync_rows d)
        else sync_rows d @ [(ik, e)])\<rparr>)))"
    by (rule keeps_sync_rows) (use ok in \<open>simp add: rows_ok_update_row rows_ok_append\<close>)
  then show ?thesis unfolding upsert_sync_journal_entry_def by (intro keeps_rules)
qed

lemma keeps_upsert_stamped: "stamped e \<Longrightarrow> keeps journal_ok (upsert_sync_journal_entry env ik e)"
proof (cases "sj_transferred e < 2 ^ 63")
  case True
  then show "stamped e \<Longrightarrow> ?thesis" by (intro keeps_upsert) (simp_all add: entry_ok_def)
next
  case False
  then have "sql_i64 ''transferred byte count'' (sj_transferred e) = Inl (Invalid ''transferred byte count exceeds SQLite range'')"
    by (simp add: sql_i64_def)
  then show "stamped e \<Longrightarrow> ?thesis"
    by (auto simp: upsert_sync_journal_entry_def keeps_def leaves_def sbind_def split: sum.splits prod.splits)
qed

lemma get_entry_ok:
  assumes "get_sync_journal_entry env ik d = (Inr (Some e), d')" "journal_ok d"
  shows "entry_ok e"
proof -
  obtain e0 where "map_of (sync_rows d) ik = Some e0" "e = row_to_sync_journal_entry e0"
    using assms(1) by (auto simp: get_sync_journal_entry_def statement_def Let_def split: if_splits)
  moreover from this(1) have "(ik, e0) \<in> set (sync_rows d)" by (rule map_of_SomeD)
  ultimately show ?thesis using assms(2) by (force simp: journal_ok_def rows_ok_def row_to_sync_journal_entry_def)
qed

lemma keeps_start [keeps_rules]: "keeps journal_ok (start_sync_journal_item env ik kd dir lp rp sz)"
proof -
  have "journal_ok (snd (start_sync_journal_item env ik kd dir lp rp sz d))" if d: "journal_ok d" for d
  proof -
    obtain r d1 where g: "get_sync_journal_entry env ik d = (r, d1)" by fastforce
    have d1: "journal_ok d1" by (rule kept [OF keeps_queries(1) g d])
    show ?thesis
    proof (cases r)
      case (Inl e)
      then show ?thesis using g d1 by (simp add: start_sync_journal_item_def)
    next
      case (Inr old)
      let ?t = "clock env (statements d1)"
      let ?b = "case old of None \<Rightarrow> pending_entry ?t kd dir | Some e \<Rightarrow> e"
      let ?e = "?b\<lparr>sj_kind := kd, sj_direction := dir, sj_local := lp, sj_remote := rp,
                    sj_size := (case sz of None \<Rightarrow> sj_size ?b | Some n \<Rightarrow> Some n), sj_updated := ?t\<rparr>"
      have b: "entry_ok ?b"
        using get_entry_ok [OF _ d] g Inr by (cases old) auto
      have "keeps journal_ok (sbind (upsert_sync_journal_entry env ik ?e) (\<lambda>_.
          sbind (set_sync_journal_state env ik InProgress None None) (\<lambda>_. sret ())))"
        by (intro keeps_rules keeps_upsert) (use b in \<open>auto simp: entry_ok_def split: option.splits\<close>)
      then show ?thesis using keeps_snd [of journal_ok, OF _ d1] g Inr by (simp add: start_sync_journal_item_def Let_def)
    qed
  qed
  then show ?thesis by (simp add: keeps_def leaves_def)
qed

lemma keeps_progress [keeps_rules]: "keeps journal_ok (update_sync_journal_progress env ik n)"
proof (cases "n < 2 ^ 63")
  case True
  have "keeps journal_ok (statement env (\<lambda>t d. (Inr (ik \<in> fst ` set (sync_rows d)), d\<lparr>sync_rows :=
       update_row ik (\<lambda>e. e\<lparr>sj_transferred := max (sj_transferred e) n, sj_updated := t\<rparr>) (sync_rows d)\<rparr>)))"
    by (rule keeps_row_update) (use True in \<open>auto simp: entry_ok_def\<close>)
  then show ?thesis unfolding update_sync_journal_progress_def by (intro keeps_rules)
next
  case False
  then show ?thesis by (simp add: update_sync_journal_progress_def sql_i64_def keeps_def leaves_def sbind_def)
qed

lemma keeps_complete [keeps_rules]: "keeps journal_ok (complete_with_transfer env ik sz n)"
proof -
  have "keeps journal_ok (sbind (slift (sql_i64 ''sync item size'' sz)) (\<lambda>_.
     sbind (statement env (\<lambda>_ d. (Inr (), d\<lparr>sync_rows :=
        update_row ik (\<lambda>e. e\<lparr>sj_size := Some (case sj_size e of None \<Rightarrow> sz | Some k \<Rightarrow> k)\<rparr>) (sync_rows d)\<rparr>))) (\<lambda>_.
     sbind (set_sync_journal_state env ik Completed None None) (\<lambda>_. sret ()))))"
  proof (cases "sz < 2 ^ 63")
    case True
    show ?thesis by (intro keeps_rules keeps_row_update) (use True in \<open>auto simp: entry_ok_def split: option.splits\<close>)
  next
    case False
    then show ?thesis by (simp add: sql_i64_def keeps_def leaves_def sbind_def)
  qed
  then show ?thesis unfolding complete_with_transfer_def by (rule keeps_intros(5) [OF keeps_progress])
qed

lemma keeps_set_progress [keeps_rules]: "keeps journal_ok (set_operation_progress env op p)"
  unfolding set_operation_progress_def by (rule keeps_journal_statement) (simp add: journal_ok_def)

lemma keeps_persist_progress [keeps_rules]: "keeps journal_ok (persist_progress env op b tr)"
proof -
  have "keeps journal_ok (\<lambda>d. case p of None \<Rightarrow> (Inr (), d) | Some p \<Rightarrow> set_operation_progress env op (Some (p\<lparr>
             completed_units := min b (total_bytes sm), total_units := Some (total_bytes sm), unit_name := Some ''bytes'',
             completed_packs := Some (completed_items sm), total_packs := Some (total_items sm),
             completed_pack_bytes := Some (min b (total_bytes sm)), progress_transferred := Some tr,
             total_transfer_bytes := Some (total_bytes sm), progress_updated := clock env (statements d)\<rparr>)) d)" for p sm
    by (cases p) (auto simp: keeps_def leaves_def intro!: keeps_snd [OF keeps_set_progress])
  then show ?thesis unfolding persist_progress_def by (intro keeps_rules)
qed

lemma keeps_commits [keeps_rules]:
  "keeps journal_ok (journal_put env ik dir st err)" "keeps journal_ok (record_commit env cid app bundle hash path vis)"
proof -
  show "keeps journal_ok (journal_put env ik dir st err)" unfolding journal_put_def
    by (rule keeps_journal_statement)
      (auto simp: journal_ok_def case_prod_beta' comp_def image_iff)
  have "distinct (map cm_id (map (\<lambda>r. if cm_id r = cid then f r else r) rs))"
    if "distinct (map cm_id rs)" "\<And>r. cm_id (f r) = cm_id r" for f and rs :: "commit_row list"
  proof -
    have same: "map cm_id (map (\<lambda>r. if cm_id r = cid then f r else r) rs) = map cm_id rs" using that(2) by simp
    show ?thesis unfolding same by (rule that(1))
  qed
  then show "keeps journal_ok (record_commit env cid app bundle hash path vis)" unfolding record_commit_def Let_def
    by (intro keeps_journal_statement) (simp add: journal_ok_def)
qed

text \<open>
  Any sequence of the agent's uses of the journal; \<open>files\<close> are the local files. \<open>WriteItem\<close> is the entry a restore
  writes for each pack before it starts, \<open>SetProgress\<close> what backup, restore and the request handler store as the
  progress of an operation: any value.
\<close>

datatype journal_use =
    StartItem sync_key content_kind sync_direction "string option" "string option" "nat option"
  | WriteItem sync_key sync_entry
  | FailItem sync_key string
  | ReportBytes sync_key nat
  | SetState sync_key sync_state "string option" "int option"
  | DeleteItems string content_kind sync_direction
  | UploadsDone string bool "(string \<times> string) list"
  | DownloadDone sync_key nat
  | Report string nat nat
  | SetProgress string "op_progress option"
  | OldEntry sync_key string string "string option"
  | RecordCommit string string string string "string option" commit_visibility

primrec use_journal :: "db_env \<Rightarrow> (string \<rightharpoonup> bytes) \<Rightarrow> journal_use \<Rightarrow> (journal_db, unit) sop" where
  "use_journal env files (StartItem ik kd dir lp rp sz) = start_sync_journal_item env ik kd dir lp rp sz"
| "use_journal env files (WriteItem ik e) = upsert_sync_journal_entry env ik e"
| "use_journal env files (FailItem ik err) = fail_sync_journal_item env ik err"
| "use_journal env files (ReportBytes ik n) = sbind (update_sync_journal_progress env ik n) (\<lambda>_. sret ())"
| "use_journal env files (SetState ik st err retry) = sbind (set_sync_journal_state env ik st err retry) (\<lambda>_. sret ())"
| "use_journal env files (DeleteItems op kd dir) = sbind (delete_sync_journal_entries env op kd dir) (\<lambda>_. sret ())"
| "use_journal env files (UploadsDone op reused us) = observer_completed env files op reused us"
| "use_journal env files (DownloadDone ik n) = complete_sync_journal_item env ik n"
| "use_journal env files (Report op b tr) = persist_progress env op b tr"
| "use_journal env files (SetProgress op p) = set_operation_progress env op p"
| "use_journal env files (OldEntry ik dir st err) = journal_put env ik dir st err"
| "use_journal env files (RecordCommit cid app bundle hash path vis) = record_commit env cid app bundle hash path vis"

definition run_uses :: "db_env \<Rightarrow> (string \<rightharpoonup> bytes) \<Rightarrow> journal_use list \<Rightarrow> journal_db \<Rightarrow> journal_db" where
  "run_uses env files us d = fold (\<lambda>u d. snd (use_journal env files u d)) us d"

lemma keeps_delete [keeps_rules]: "keeps journal_ok (delete_sync_journal_entries env op kd dir)"
  unfolding delete_sync_journal_entries_def Let_def
  by (rule keeps_journal_statement) (auto simp: journal_ok_def rows_ok_def distinct_map_filter)

lemma keeps_observer [keeps_rules]: "keeps journal_ok (observer_completed env files op reused us)"
  unfolding observer_completed_def complete_upload_def complete_sync_journal_item_def complete_sync_journal_item_reused_def
  by (intro keeps_rules)

lemma keeps_use: "(\<And>ik e. u = WriteItem ik e \<Longrightarrow> stamped e) \<Longrightarrow> keeps journal_ok (use_journal env files u)"
  by (cases u)
    (auto simp: fail_sync_journal_item_def complete_sync_journal_item_def intro!: keeps_rules keeps_upsert_stamped)

lemma run_uses_ok:
  "journal_ok d \<Longrightarrow> (\<And>ik e. WriteItem ik e \<in> set us \<Longrightarrow> stamped e) \<Longrightarrow> journal_ok (run_uses env files us d)"
  unfolding run_uses_def
proof (induction us arbitrary: d)
  case (Cons u us)
  have "journal_ok (snd (use_journal env files u d))"
    by (rule keeps_snd [OF keeps_use]) (use Cons.prems in auto)
  moreover have "stamped e" if "WriteItem ik e \<in> set us" for ik e using Cons.prems(2) [of ik e] that by simp
  ultimately have "journal_ok (fold (\<lambda>u d. snd (use_journal env files u d)) us (snd (use_journal env files u d)))"
    by (rule Cons.IH)
  then show ?case by simp
qed simp

lemma persist_progress_bounded:
  assumes "persist_progress env op b tr d = (Inr (), d')"
  shows "\<forall>p. op_runtime d' op = Some p \<longrightarrow> progress_ok p"
  using assms
  by (auto simp: persist_progress_def set_operation_progress_def get_operation_progress_def statement_def Let_def progress_ok_def
      elim!: sbind_InrE split: option.splits if_splits)

section \<open>Summaries\<close>

lemma states_partition:
  "length es = in_state Pending es + in_state InProgress es + in_state RetryScheduled es + in_state Completed es +
     in_state Failed es + in_state Skipped es"
proof (induction es)
  case (Cons e es)
  then show ?case by (cases "sj_state e") (simp_all add: in_state_def)
qed (simp add: in_state_def)

lemma bytes_of_filter_le: "bytes_of (filter P es) \<le> bytes_of es"
  by (induction es) (auto simp: bytes_of_def)

lemma summary_consistent:
  assumes "sync_journal_summary env op kd d = (Inr sm, d')"
  shows "total_items sm = pending_items sm + in_progress_items sm + retry_scheduled_items sm + completed_items sm +
      failed_items sm + skipped_items sm" "completed_bytes sm \<le> total_bytes sm" "total_bytes sm < 2 ^ 63"
  using assms states_partition bytes_of_filter_le
  by (auto simp: sync_journal_summary_def statement_def Let_def split: if_splits)

section \<open>Frames\<close>

text \<open>Starting an item touches the row of that item only.\<close>

definition others_kept :: "sync_key \<Rightarrow> journal_db \<Rightarrow> journal_db \<Rightarrow> bool" where
  "others_kept ik d d' \<longleftrightarrow> (\<forall>j. j \<noteq> ik \<longrightarrow> map_of (sync_rows d') j = map_of (sync_rows d) j)"

lemma others_kept_laws: "others_kept ik d d" "others_kept ik d e \<Longrightarrow> others_kept ik e f \<Longrightarrow> others_kept ik d f"
  by (simp_all add: others_kept_def)

lemma leaves_statement:
  assumes "\<And>t d. others_kept ik d (snd (f t d))"
  shows "leaves (others_kept ik) (statement env f)"
  using assms by (auto simp: leaves_def statement_def Let_def others_kept_def)

lemma start_frame: "leaves (others_kept ik) (start_sync_journal_item env ik kd dir lp rp sz)"
proof -
  have up: "leaves (others_kept ik) (upsert_sync_journal_entry env ik e)" for e
    unfolding upsert_sync_journal_entry_def
    by (intro leaves_sbind [OF others_kept_laws(2)] leaves_slift leaves_statement others_kept_laws(1))
      (auto simp: others_kept_def map_add_def split: option.splits)
  have st: "leaves (others_kept ik) (set_sync_journal_state env ik InProgress None None)"
    unfolding set_sync_journal_state_def by (rule leaves_statement) (simp add: others_kept_def)
  have get: "leaves (others_kept ik) (get_sync_journal_entry env ik)"
    unfolding get_sync_journal_entry_def by (rule leaves_statement) (simp add: others_kept_def)
  have two: "leaves (others_kept ik) (sbind (upsert_sync_journal_entry env ik e) (\<lambda>_.
      sbind (set_sync_journal_state env ik InProgress None None) (\<lambda>_. sret ())))" for e
    by (intro leaves_sbind [OF others_kept_laws(2)] leaves_sret others_kept_laws(1) up st)
  show ?thesis unfolding start_sync_journal_item_def Let_def
    by (rule leaves_sbind [OF others_kept_laws(2) get]) (use two in \<open>auto simp: leaves_def\<close>)
qed

definition item_done :: "journal_db \<Rightarrow> sync_key \<Rightarrow> bool" where
  "item_done d ik \<longleftrightarrow> (case map_of (sync_rows d) ik of None \<Rightarrow> False | Some e \<Rightarrow> sj_state e = Completed)"

lemma completed_reads:
  assumes "sync_journal_completed env ik d = (Inr b, d')"
  shows "b = item_done d ik" "d' = d\<lparr>statements := statements d + 1\<rparr>"
  using assms
  by (auto simp: sync_journal_completed_def get_sync_journal_entry_def statement_def Let_def item_done_def
      row_to_sync_journal_entry_def elim!: sbind_InrE split: if_splits option.splits)

section \<open>Without failures\<close>

text \<open>\<open>weight\<close> bounds the sums of the table; every use below adds at most the size of its file to each of them.\<close>

definition entry_weight :: "sync_entry \<Rightarrow> nat" where
  "entry_weight e = (case sj_size e of None \<Rightarrow> 0 | Some n \<Rightarrow> n) + sj_transferred e"

definition weight :: "(sync_key \<times> sync_entry) list \<Rightarrow> nat" where
  "weight rs = (\<Sum>x\<leftarrow>rs. entry_weight (snd x))"

lemma weight_update_row:
  assumes "distinct (map fst rs)" "\<And>e. map_of rs ik = Some e \<Longrightarrow> entry_weight (f e) \<le> entry_weight e + n"
  shows "weight (update_row ik f rs) \<le> weight rs + n"
  using assms
proof (induction rs)
  case (Cons x rs)
  obtain j e where x: "x = (j, e)" by fastforce
  show ?case
  proof (cases "j = ik")
    case True
    then have "update_row ik f rs = rs" using Cons.prems(1) x
      by (auto simp: update_row_def intro!: map_idI split: prod.splits) force
    then show ?thesis using Cons.prems(2) [of e] x True by (simp add: update_row_def weight_def)
  next
    case False
    then show ?thesis using Cons x by (simp add: update_row_def weight_def)
  qed
qed (simp add: update_row_def weight_def)

lemma weight_bounds_entry: "(ik, e) \<in> set rs \<Longrightarrow> entry_weight e \<le> weight rs"
  by (induction rs) (auto simp: weight_def)

lemma sums_bounded:
  "bytes_of (map snd (filter P rs)) \<le> weight rs" "(\<Sum>e\<leftarrow>map snd (filter P rs). sj_transferred e) \<le> weight rs"
  by (induction rs) (auto simp: bytes_of_def weight_def entry_weight_def)

abbreviation db_healthy :: "db_env \<Rightarrow> bool" where
  "db_healthy env \<equiv> \<forall>n. \<not> stmt_fails env n"

lemma statement_healthy: "db_healthy env \<Longrightarrow> statement env f d = f (clock env (statements d)) (d\<lparr>statements := statements d + 1\<rparr>)"
  by (simp add: statement_def Let_def)

lemma summary_healthy:
  assumes "db_healthy env" "weight (sync_rows d) < 2 ^ 63"
  shows "\<exists>sm d'. sync_journal_summary env op kd d = (Inr sm, d') \<and> sync_rows d' = sync_rows d"
proof -
  have "bytes_of (map snd (filter P (sync_rows d))) < 2 ^ 63" "(\<Sum>e\<leftarrow>map snd (filter P (sync_rows d)). sj_transferred e) < 2 ^ 63" for P
    using sums_bounded [of P "sync_rows d"] assms(2) by linarith+
  then show ?thesis using assms(1) by (simp add: sync_journal_summary_def statement_healthy Let_def not_le)
qed

lemma persist_healthy:
  assumes "db_healthy env" "weight (sync_rows d) < 2 ^ 63"
  shows "\<exists>d'. persist_progress env op b tr d = (Inr (), d') \<and> sync_rows d' = sync_rows d"
proof -
  obtain sm d1 where "sync_journal_summary env op (Some PackKind) d = (Inr sm, d1)" "sync_rows d1 = sync_rows d"
    using summary_healthy [OF assms] by blast
  then show ?thesis using assms(1)
    by (auto simp: persist_progress_def get_operation_progress_def set_operation_progress_def sbind_def statement_healthy
        split: option.splits)
qed

lemma set_state_healthy:
  assumes "db_healthy env" "journal_ok d"
  shows "\<exists>b d'. set_sync_journal_state env ik st err retry d = (Inr b, d') \<and> weight (sync_rows d') \<le> weight (sync_rows d) \<and>
    (\<forall>e. map_of (sync_rows d) ik = Some e \<longrightarrow> (\<exists>e'. map_of (sync_rows d') ik = Some e' \<and> sj_state e' = st \<and> sj_size e' = sj_size e))"
proof -
  have "distinct (map fst (sync_rows d))" using assms(2) by (simp add: journal_ok_def rows_ok_def)
  then have "weight (update_row ik f (sync_rows d)) \<le> weight (sync_rows d) + 0" if "\<And>e. entry_weight (f e) = entry_weight e" for f
    by (rule weight_update_row) (simp add: that)
  then show ?thesis using assms(1) by (simp add: set_sync_journal_state_def statement_healthy entry_weight_def)
qed

lemma start_healthy:
  assumes env: "db_healthy env" and ok: "journal_ok d" and room: "weight (sync_rows d) + n < 2 ^ 63"
  shows "\<exists>d'. start_sync_journal_item env ik kd dir lp rp (Some n) d = (Inr (), d') \<and> journal_ok d' \<and>
    weight (sync_rows d') \<le> weight (sync_rows d) + n"
proof -
  let ?rs = "sync_rows d"
  define d1 where "d1 = d\<lparr>statements := statements d + 1\<rparr>"
  define t where "t = clock env (statements d1)"
  define base where "base = (case map_of ?rs ik of None \<Rightarrow> pending_entry t kd dir | Some e \<Rightarrow> row_to_sync_journal_entry e)"
  define e where "e = base\<lparr>sj_kind := kd, sj_direction := dir, sj_local := lp, sj_remote := rp, sj_size := Some n, sj_updated := t\<rparr>"
  define d2 where "d2 = d1\<lparr>statements := statements d1 + 1, sync_rows :=
     (if ik \<in> fst ` set ?rs then update_row ik (\<lambda>old. e\<lparr>sj_created := sj_created old\<rparr>) ?rs else ?rs @ [(ik, e)])\<rparr>"
  have dist: "distinct (map fst ?rs)" using ok by (simp add: journal_ok_def rows_ok_def)
  have tr: "sj_transferred e = (case map_of ?rs ik of None \<Rightarrow> 0 | Some e0 \<Rightarrow> sj_transferred e0)"
    by (simp add: e_def base_def pending_entry_def row_to_sync_journal_entry_def split: option.splits)
  have "sj_transferred e \<le> weight ?rs"
    using weight_bounds_entry [OF map_of_SomeD] tr by (cases "map_of ?rs ik") (fastforce simp: entry_weight_def)+
  then have small: "sql_i64 x (sj_transferred e) = Inr (sj_transferred e)" "sql_i64 x n = Inr n" for x
    using room by (simp_all add: sql_i64_def)
  have get: "get_sync_journal_entry env ik d = (Inr (map_option row_to_sync_journal_entry (map_of ?rs ik)), d1)"
    using env by (simp add: get_sync_journal_entry_def statement_healthy d1_def)
  have up: "upsert_sync_journal_entry env ik e d1 = (Inr (), d2)"
    using env small by (simp add: upsert_sync_journal_entry_def opt_u64_to_i64_def e_def statement_healthy d2_def d1_def)
  have w2: "weight (sync_rows d2) \<le> weight ?rs + n"
  proof (cases "map_of ?rs ik")
    case None
    have "sj_transferred e = 0" using tr None by simp
    moreover have "ik \<notin> fst ` set ?rs" using None by (simp add: map_of_eq_None_iff)
    moreover have "sj_size e = Some n" by (simp add: e_def)
    ultimately show ?thesis by (simp add: d2_def weight_def entry_weight_def)
  next
    case (Some e0)
    then have "ik \<in> fst ` set ?rs" by (metis domI dom_map_of_conv_image_fst)
    moreover have "weight (update_row ik (\<lambda>old. e\<lparr>sj_created := sj_created old\<rparr>) ?rs) \<le> weight ?rs + n"
      by (rule weight_update_row [OF dist]) (use Some tr in \<open>simp add: entry_weight_def e_def\<close>)
    ultimately show ?thesis by (simp add: d2_def)
  qed
  have eq: "start_sync_journal_item env ik kd dir lp rp (Some n) d =
      sbind (set_sync_journal_state env ik InProgress None None) (\<lambda>_. sret ()) d2"
    using get up by (simp add: start_sync_journal_item_def Let_def e_def base_def t_def option.case_distrib split: option.splits)
  have ok2: "journal_ok d2"
  proof -
    have "entry_ok base"
      using get_entry_ok [OF _ ok] get
      by (cases "map_of ?rs ik") (simp_all add: base_def)
    then have e: "entry_ok e" using small room by (simp add: e_def entry_ok_def)
    have d1: "journal_ok d1" using ok by (simp add: d1_def)
    show ?thesis by (rule kept [OF keeps_upsert up d1]) (rule e)+
  qed
  obtain b d3 where st: "set_sync_journal_state env ik InProgress None None d2 = (Inr b, d3)"
    "weight (sync_rows d3) \<le> weight (sync_rows d2)"
    using set_state_healthy [OF env ok2] by blast
  show ?thesis using eq st w2 kept [OF keeps_set_state st(1) ok2] by simp
qed

lemma row_update_healthy:
  assumes "db_healthy env" "journal_ok d" "\<And>t e. entry_weight (f t e) \<le> entry_weight e + n"
  shows "\<exists>d'. statement env (\<lambda>t d. (Inr (g t d), d\<lparr>sync_rows := update_row ik (f t) (sync_rows d)\<rparr>)) d = (Inr (g (clock env (statements d)) (d\<lparr>statements := statements d + 1\<rparr>)), d') \<and>
    weight (sync_rows d') \<le> weight (sync_rows d) + n"
  using assms by (auto simp: statement_healthy journal_ok_def rows_ok_def intro!: weight_update_row)

lemma complete_healthy:
  assumes env: "db_healthy env" and ok: "journal_ok d" and room: "weight (sync_rows d) + 2 * n < 2 ^ 63"
  shows "\<exists>d'. complete_sync_journal_item env ik n d = (Inr (), d') \<and> journal_ok d' \<and>
    weight (sync_rows d') \<le> weight (sync_rows d) + 2 * n"
proof -
  have small: "sql_i64 x n = Inr n" for x using room by (simp add: sql_i64_def)
  let ?size = "statement env (\<lambda>_ d. (Inr (), d\<lparr>sync_rows :=
     update_row ik (\<lambda>e. e\<lparr>sj_size := Some (case sj_size e of None \<Rightarrow> n | Some k \<Rightarrow> k)\<rparr>) (sync_rows d)\<rparr>))"
  have "\<exists>d1. statement env (\<lambda>t d. (Inr (ik \<in> fst ` set (sync_rows d)), d\<lparr>sync_rows := update_row ik
      (\<lambda>e. e\<lparr>sj_transferred := max (sj_transferred e) n, sj_updated := t\<rparr>) (sync_rows d)\<rparr>)) d = (Inr (ik \<in> fst ` set (sync_rows (d\<lparr>statements := statements d + 1\<rparr>))), d1) \<and>
    weight (sync_rows d1) \<le> weight (sync_rows d) + n"
    by (rule row_update_healthy [OF env ok]) (auto simp: entry_weight_def)
  then obtain b d1 where p: "update_sync_journal_progress env ik n d = (Inr b, d1)" "weight (sync_rows d1) \<le> weight (sync_rows d) + n"
    using small by (auto simp: update_sync_journal_progress_def)
  have ok1: "journal_ok d1" by (rule kept [OF keeps_progress p(1) ok])
  have "\<exists>d2. ?size d1 = (Inr (), d2) \<and> weight (sync_rows d2) \<le> weight (sync_rows d1) + n"
    by (rule row_update_healthy [OF env ok1]) (auto simp: entry_weight_def split: option.splits)
  then obtain d2 where s: "?size d1 = (Inr (), d2)" "weight (sync_rows d2) \<le> weight (sync_rows d1) + n" by blast
  have "keeps journal_ok ?size"
    by (rule keeps_row_update) (use room in \<open>auto simp: entry_ok_def split: option.splits\<close>)
  then have ok2: "journal_ok d2" using s(1) ok1 by (rule kept)
  obtain c d3 where st: "set_sync_journal_state env ik Completed None None d2 = (Inr c, d3)"
    "weight (sync_rows d3) \<le> weight (sync_rows d2)"
    using set_state_healthy [OF env ok2] by blast
  have "complete_sync_journal_item env ik n d = (Inr (), d3)"
    using p(1) s(1) st(1) small by (simp add: complete_sync_journal_item_def complete_with_transfer_def)
  moreover have "journal_ok d3" by (rule kept [OF keeps_set_state st(1) ok2])
  ultimately show ?thesis using p(2) s(2) st(2) by auto
qed

lemma observer_healthy:
  assumes env: "db_healthy env" and ok: "journal_ok d" and local: "files (fst u) = Some bs"
    and room: "weight (sync_rows d) + 2 * length bs < 2 ^ 63"
  shows "\<exists>d'. observer_completed env files op False [u] d = (Inr (), d') \<and> journal_ok d' \<and>
    weight (sync_rows d') \<le> weight (sync_rows d) + 2 * length bs"
proof -
  obtain d1 where c: "complete_sync_journal_item env (op, snd u) (length bs) d = (Inr (), d1)" "journal_ok d1"
    "weight (sync_rows d1) \<le> weight (sync_rows d) + 2 * length bs"
    using complete_healthy [OF env ok room] by blast
  have r1: "weight (sync_rows d1) < 2 ^ 63" using c(3) room by linarith
  obtain sm d2 where s: "sync_journal_summary env op (Some PackKind) d1 = (Inr sm, d2)" "sync_rows d2 = sync_rows d1"
    using summary_healthy [OF env r1] by blast
  obtain d3 where p: "persist_progress env op (completed_bytes sm) (transferred_bytes sm) d2 = (Inr (), d3)" "sync_rows d3 = sync_rows d2"
    using persist_healthy [OF env] r1 s(2) by metis
  have run: "observer_completed env files op False [u] d = (Inr (), d3)"
    using c(1) s(1) p(1) local by (simp add: observer_completed_def complete_upload_def)
  show ?thesis using run kept [OF keeps_observer run ok] c(3) s(2) p(2) by simp
qed

section \<open>Properties\<close>

text \<open>C21: the transfer journal stays consistent. From a consistent database, after any sequence of uses of the journal in
  which any statement may fail and in which entries written directly carry the times of their state (a restore writes
  pending ones, without times), every table has one row per key, an item carries a completion time exactly when its state is
  terminal, an item in progress has a start time, and sizes fit the database's integers. Whatever progress other code has
  stored for an operation, the progress stored from the journal does not exceed its total. Every summary read
  counts each item in exactly one state and reports no more completed than total bytes.\<close>

theorem journal_consistent:
  assumes "journal_ok d" and "\<And>ik e. WriteItem ik e \<in> set us \<Longrightarrow> stamped e"
  shows "journal_ok (run_uses env files us d) \<and>
    (\<forall>env' op b tr d' p. persist_progress env' op b tr (run_uses env files us d) = (Inr (), d') \<and> op_runtime d' op = Some p \<longrightarrow>
      (\<forall>n. total_units p = Some n \<longrightarrow> completed_units p \<le> n)) \<and>
    (\<forall>env' op kd sm d'. sync_journal_summary env' op kd (run_uses env files us d) = (Inr sm, d') \<longrightarrow>
      total_items sm = pending_items sm + in_progress_items sm + retry_scheduled_items sm + completed_items sm +
        failed_items sm + skipped_items sm \<and> completed_bytes sm \<le> total_bytes sm)"
proof -
  have "journal_ok (run_uses env files us d)" using assms by (rule run_uses_ok)
  moreover have "completed_units p \<le> n"
    if "persist_progress env' op b tr (run_uses env files us d) = (Inr (), d') \<and> op_runtime d' op = Some p" "total_units p = Some n"
    for env' op b tr d' p n
    using that persist_progress_bounded [of env' op b tr] by (fastforce simp: progress_ok_def)
  ultimately show ?thesis using summary_consistent by blast
qed

definition empty_journal :: journal_db where
  "empty_journal = \<lparr>sync_rows = [], old_rows = [], commit_rows = [], op_runtime = (\<lambda>_. None), statements = 0\<rparr>"

definition sample_env :: db_env where
  "sample_env = \<lparr>stmt_fails = (\<lambda>n. n = 2), clock = (\<lambda>n. 1000 * int n)\<rparr>"

definition sample_files :: "string \<rightharpoonup> bytes" where
  "sample_files = [''a.pack'' \<mapsto> [1, 2, 3]]"

definition sample_uses :: "journal_use list" where
  "sample_uses = [WriteItem (''op'', ''packs/b'') (pending_entry 0 PackKind Download), StartItem (''op'', ''packs/a'') PackKind Upload (Some ''a.pack'') None (Some 3),
     StartItem (''op'', ''packs/a'') PackKind Upload (Some ''a.pack'') None (Some 3),
     UploadsDone ''op'' False [(''a.pack'', ''packs/a'')]]"

theorem journal_consistent_witness:
  "journal_ok (run_uses sample_env sample_files sample_uses empty_journal) \<and>
   item_done (run_uses sample_env sample_files sample_uses empty_journal) (''op'', ''packs/a'')"
proof
  have "journal_ok empty_journal" by (simp add: journal_ok_def rows_ok_def empty_journal_def)
  moreover have "stamped e" if "WriteItem ik e \<in> set sample_uses" for ik e
    using that entry_ok_pending by (auto simp: sample_uses_def entry_ok_def)
  ultimately show "journal_ok (run_uses sample_env sample_files sample_uses empty_journal)"
    using journal_consistent [of empty_journal sample_uses] by blast
  show "item_done (run_uses sample_env sample_files sample_uses empty_journal) (''op'', ''packs/a'')"
    by (simp add: run_uses_def sample_uses_def sample_env_def sample_files_def empty_journal_def start_sync_journal_item_def
        get_sync_journal_entry_def upsert_sync_journal_entry_def set_sync_journal_state_def statement_def sbind_def Let_def
        opt_u64_to_i64_def sql_i64_def pending_entry_def update_row_def observer_completed_def complete_upload_def
        complete_sync_journal_item_def complete_with_transfer_def update_sync_journal_progress_def sync_journal_summary_def
        persist_progress_def get_operation_progress_def item_done_def bytes_of_def)
qed

text \<open>The update of a commit leaves the hash of its first record, so a backup, which first records its commit
  as uploading with the hash \<^verbatim>\<open>pending\<close>, is committed under that hash.\<close>

theorem committed_hash_stays_pending:
  assumes "record_commit env cid app bundle ''pending'' None Uploading d = (Inr (), d1)"
    and "record_commit env' cid app bundle hash path Committed d2 = (Inr (), d3)"
    and "cid \<notin> cm_id ` set (commit_rows d)" "commit_rows d2 = commit_rows d1"
  shows "\<exists>r \<in> set (commit_rows d3). cm_id r = cid \<and> cm_state r = Committed \<and> cm_hash r = ''pending''"
proof -
  have "\<exists>r \<in> set (commit_rows d1). cm_id r = cid \<and> cm_hash r = ''pending''"
    using assms(1,3) by (auto simp: record_commit_def statement_def Let_def split: if_splits)
  then obtain r where r: "r \<in> set (commit_rows d2)" "cm_id r = cid" "cm_hash r = ''pending''" using assms(4) by auto
  define f :: "commit_row \<Rightarrow> commit_row" where "f = (\<lambda>r. r\<lparr>cm_state := Committed, cm_path := (case path of None \<Rightarrow> cm_path r | Some p \<Rightarrow> Some p),
      cm_committed := Some (clock env' (statements d2) div 1000)\<rparr>)"
  have "cid \<in> cm_id ` set (commit_rows d2)" using r by blast
  then have "commit_rows d3 = map (\<lambda>r. if cm_id r = cid then f r else r) (commit_rows d2)"
    using assms(2) by (auto simp: record_commit_def statement_def Let_def f_def split: if_splits)
  then have "f r \<in> set (commit_rows d3)" using r(1,2) by force
  then show ?thesis by (rule bexI [rotated]) (simp add: f_def r)
qed

end
