(* ===== verification/Bundle_Commit.thy ===== *)
theory Bundle_Commit
  imports Pack Sync_Journal
begin

text \<open>
  How a backup becomes visible in shared storage (\<^verbatim>\<open>noland-storage/src/commit.rs\<close>, the default methods of
  \<^verbatim>\<open>SharedStorageProvider\<close> in \<^verbatim>\<open>lib.rs\<close> and the file-system provider of \<^verbatim>\<open>local.rs\<close>): packs first, then the
  encrypted index, manifest and its hash, then the marker. Every write can fail with nothing or a part written, and
  every statement of the journal can fail; a process that dies at a call leaves what a failure there leaves.
  zstd and the JSON forms are parameters.
\<close>

section \<open>Keys and documents\<close>

definition storage_safe_char :: "char \<Rightarrow> char" where
  "storage_safe_char c =
     (let n = of_char c :: nat in
      if 97 \<le> n \<and> n \<le> 122 \<or> 65 \<le> n \<and> n \<le> 90 \<or> 48 \<le> n \<and> n \<le> 57 \<or> c \<in> {CHR ''-'', CHR ''_'', CHR ''.''}
      then c else CHR ''_'')"

text \<open>One output character per \<^verbatim>\<open>char\<close>: the continuation bytes of UTF-8 belong to the byte before.\<close>

definition storage_safe :: "string \<Rightarrow> string" where
  "storage_safe app = map storage_safe_char (filter (\<lambda>c. (of_char c :: nat) div 64 \<noteq> 2) app)"

definition COMMITTED_MARKER :: string where "COMMITTED_MARKER = ''COMMITTED''"

definition bundle_dir :: "string \<Rightarrow> string \<Rightarrow> string" where
  "bundle_dir app bundle = ''bundles/'' @ storage_safe app @ ''/'' @ bundle"

definition pack_remote_key :: "string \<Rightarrow> string" where
  "pack_remote_key pid = ''packs/'' @ take 2 pid @ ''/'' @ pid @ ''.pack''"

datatype bundle_mode = PersonalState | CompleteApplication | CustomMode

datatype launcher_kind =
  Steam | Proton | Wine | Bottles | Heroic | Lutris | Flatpak | Snap | Native | AppImage | CustomLauncher

record manifest_app =
  ma_app :: string
  ma_name :: string
  ma_aliases :: "string list"
  ma_desktop :: "string option"
  ma_steam :: "nat option"
  ma_launcher :: "launcher_kind option"
  ma_executable :: "string option"
  ma_icon :: "string option"

record manifest_source =
  src_instance :: string
  src_image :: string
  src_captured :: int

text \<open>Of a file only its size matters here; the other fields of files and manifest are opaque.\<close>

record manifest_file =
  mf_size :: u64
  mf_rest :: bytes

record bundle_manifest =
  man_bundle :: string
  man_commit :: string
  man_parent :: "string option"
  man_identity :: manifest_app
  man_source :: manifest_source
  man_mode :: bundle_mode
  man_files :: "manifest_file list"
  man_rest :: bytes

abbreviation man_app :: "bundle_manifest \<Rightarrow> string" where
  "man_app m \<equiv> ma_app (man_identity m)"

text \<open>\<^verbatim>\<open>sum\<close> over \<^verbatim>\<open>u64\<close> wraps around in a release build.\<close>

definition logical_size :: "bundle_manifest \<Rightarrow> u64" where
  "logical_size m = sum_list (map mf_size (man_files m))"

record formats =
  doc_compress :: "bytes \<Rightarrow> bytes option"
  doc_decompress :: "bytes \<Rightarrow> bytes option"
  manifest_json :: "bundle_manifest \<Rightarrow> bytes"
  manifest_parse :: "bytes \<Rightarrow> bundle_manifest option"
  index_parse :: "bytes \<Rightarrow> pack_index_entry list option"
  show_error :: "state_error \<Rightarrow> string"

definition DOCUMENT_MAGIC :: bytes where "DOCUMENT_MAGIC = as_bytes ''NLZ1''"
definition COMPRESSION_MIN_BYTES :: nat where "COMPRESSION_MIN_BYTES = 4 * 1024"

definition encode_document :: "formats \<Rightarrow> bytes \<Rightarrow> (state_error, bytes) result" where
  "encode_document fm bs =
     (if length bs < COMPRESSION_MIN_BYTES then Inr bs
      else case doc_compress fm bs of
        None \<Rightarrow> Inl (Storage ''metadata compression failed'')
      | Some z \<Rightarrow> if length z + length DOCUMENT_MAGIC \<ge> length bs then Inr bs else Inr (DOCUMENT_MAGIC @ z))"

definition decode_document :: "formats \<Rightarrow> bytes \<Rightarrow> (state_error, bytes) result" where
  "decode_document fm bs =
     (case strip_prefix DOCUMENT_MAGIC bs of
        None \<Rightarrow> Inr bs
      | Some z \<Rightarrow> ok_or (Integrity ''metadata decompression failed'') (doc_decompress fm z))"

section \<open>The provider\<close>

datatype write_outcome = Done | Untouched | Partial nat

record store =
  remote :: "string \<rightharpoonup> bytes"
  calls :: nat
  nonces :: nat
  jdb :: journal_db

definition on_journal :: "(journal_db, 'a) sop \<Rightarrow> (store, 'a) sop" where
  "on_journal m s = (case m (jdb s) of (r, d) \<Rightarrow> (r, s\<lparr>jdb := d\<rparr>))"

definition put_bytes :: "(nat \<Rightarrow> write_outcome) \<Rightarrow> string \<Rightarrow> bytes \<Rightarrow> (store, unit) sop" where
  "put_bytes fault rk bs s =
     (let s1 = s\<lparr>calls := calls s + 1\<rparr> in
      case fault (calls s) of
        Done \<Rightarrow> (Inr (), s1\<lparr>remote := (remote s)(rk \<mapsto> bs)\<rparr>)
      | Untouched \<Rightarrow> (Inl Io, s1)
      | Partial n \<Rightarrow> (Inl Io, s1\<lparr>remote := (remote s)(rk \<mapsto> take n bs)\<rparr>))"

text \<open>An object that exists is never replaced.\<close>

definition upload_immutable :: "(nat \<Rightarrow> write_outcome) \<Rightarrow> (string \<rightharpoonup> bytes) \<Rightarrow> string \<times> string \<Rightarrow> (store, unit) sop" where
  "upload_immutable fault files u s =
     (if remote s (snd u) \<noteq> None then (Inr (), s)
      else case files (fst u) of
        None \<Rightarrow> (Inl Io, s)
      | Some bs \<Rightarrow> put_bytes fault (snd u) bs s)"

text \<open>The journal with its operation, where the caller gave both.\<close>

type_synonym db_handle = "(db_env \<times> string option) option"

definition tracked :: "db_handle \<Rightarrow> (db_env \<times> string) option" where
  "tracked db = (case db of Some (env, Some op) \<Rightarrow> Some (env, op) | _ \<Rightarrow> None)"

definition upload_observed ::
  "(db_env \<times> string) option \<Rightarrow> (nat \<Rightarrow> write_outcome) \<Rightarrow> (string \<rightharpoonup> bytes) \<Rightarrow> string \<times> string \<Rightarrow> (store, unit) sop" where
  "upload_observed tr fault files u =
     sbind (upload_immutable fault files u) (\<lambda>_.
       case tr of None \<Rightarrow> sret () | Some (env, op) \<Rightarrow> on_journal (observer_completed env files op False [u]))"

definition upload_immutable_bulk_observed ::
  "(db_env \<times> string) option \<Rightarrow> (nat \<Rightarrow> write_outcome) \<Rightarrow> (string \<rightharpoonup> bytes) \<Rightarrow> (string \<times> string) list \<Rightarrow> (store, unit) sop" where
  "upload_immutable_bulk_observed tr fault files us = seach (upload_observed tr fault files) us"

record metadata_batch =
  batch_entries :: "(string \<times> bytes) list"
  batch_committed :: "(string \<times> bytes) option"

definition put_metadata_batch :: "(nat \<Rightarrow> write_outcome) \<Rightarrow> metadata_batch \<Rightarrow> (store, unit) sop" where
  "put_metadata_batch fault b =
     sbind (seach (\<lambda>(k, bs). put_bytes fault k bs) (batch_entries b)) (\<lambda>_.
       case batch_committed b of None \<Rightarrow> sret () | Some (k, bs) \<Rightarrow> put_bytes fault k bs)"

section \<open>Committing a bundle\<close>

definition already_uploaded :: "(db_env \<times> string) option \<Rightarrow> string \<times> string \<Rightarrow> (store, bool) sop" where
  "already_uploaded tr u =
     (case tr of None \<Rightarrow> sret False | Some (env, op) \<Rightarrow> on_journal (sync_journal_completed env (op, snd u)))"

definition start_upload :: "(db_env \<times> string) option \<Rightarrow> (string \<rightharpoonup> bytes) \<Rightarrow> string \<times> string \<Rightarrow> (store, unit) sop" where
  "start_upload tr files u =
     (case tr of
        None \<Rightarrow> sret ()
      | Some (env, op) \<Rightarrow>
          sbind (slift (ok_or Io (map_option length (files (fst u))))) (\<lambda>n.
          on_journal (start_sync_journal_item env (op, snd u) PackKind Upload (Some (fst u)) (Some (snd u)) (Some n))))"

fun pending_uploads ::
  "(db_env \<times> string) option \<Rightarrow> (string \<rightharpoonup> bytes) \<Rightarrow> (string \<times> string) list \<Rightarrow> (store, (string \<times> string) list) sop" where
  "pending_uploads tr files [] = sret []"
| "pending_uploads tr files (u # us) =
     sbind (already_uploaded tr u) (\<lambda>fin.
       if fin then pending_uploads tr files us
       else sbind (start_upload tr files u) (\<lambda>_. sbind (pending_uploads tr files us) (\<lambda>ps. sret (u # ps))))"

definition mark_failed :: "db_env \<Rightarrow> string \<Rightarrow> string \<Rightarrow> string \<times> string \<Rightarrow> (store, unit) sop" where
  "mark_failed env op msg u =
     sbind (on_journal (sync_journal_completed env (op, snd u))) (\<lambda>fin.
       if fin then sret () else sdrop (on_journal (fail_sync_journal_item env (op, snd u) msg)))"

definition upload_packs ::
  "formats \<Rightarrow> (db_env \<times> string) option \<Rightarrow> (nat \<Rightarrow> write_outcome) \<Rightarrow> (string \<rightharpoonup> bytes) \<Rightarrow> (string \<times> string) list \<Rightarrow> (store, unit) sop" where
  "upload_packs fm tr fault files us s =
     (case upload_immutable_bulk_observed tr fault files us s of
        (Inr _, s1) \<Rightarrow> (Inr (), s1)
      | (Inl e, s1) \<Rightarrow>
          (case tr of
             None \<Rightarrow> (Inl e, s1)
           | Some (env, op) \<Rightarrow> sbind (seach (mark_failed env op (show_error fm e)) us) (\<lambda>_. sfail e) s1))"

definition note_uploaded :: "db_handle \<Rightarrow> bundle_manifest \<Rightarrow> (string \<times> string) list \<Rightarrow> (store, unit) sop" where
  "note_uploaded db m us =
     (case db of
        None \<Rightarrow> sret ()
      | Some (env, _) \<Rightarrow> seach (\<lambda>u. on_journal (journal_put env (man_commit m, snd u) ''upload'' ''ok'' None)) us)"

definition sealed_document :: "formats \<Rightarrow> crypto \<Rightarrow> nat \<Rightarrow> bytes \<Rightarrow> string \<Rightarrow> bytes \<Rightarrow> (state_error, bytes) result" where
  "sealed_document fm cr n k aad bs =
     res_bind (encode_document fm bs) (\<lambda>enc. wrap_envelope cr n k (as_bytes aad) enc)"

definition bundle_batch ::
  "formats \<Rightarrow> crypto \<Rightarrow> nat \<Rightarrow> bytes \<Rightarrow> bundle_manifest \<Rightarrow> bytes option \<Rightarrow> (state_error, metadata_batch) result" where
  "bundle_batch fm cr n master m index =
     (let k = manifest_key (derive_keys cr master); d = bundle_dir (man_app m) (man_bundle m);
          json = manifest_json fm m in
      res_bind
        (case index of
           None \<Rightarrow> Inr []
         | Some ix \<Rightarrow> res_bind (sealed_document fm cr n k ''pack-index'' ix) (\<lambda>b. Inr [(d @ ''/index.enc'', b)]))
        (\<lambda>ixs. res_bind (sealed_document fm cr (n + 1) k ''manifest'' json) (\<lambda>man.
           Inr \<lparr>batch_entries = ixs @ [(d @ ''/manifest.enc'', man), (d @ ''/manifest.hash'', as_bytes (blake3_hex (blake3 cr) json))],
                batch_committed = Some (d @ ''/'' @ COMMITTED_MARKER, as_bytes (man_commit m))\<rparr>)))"

definition seal_batch :: "formats \<Rightarrow> crypto \<Rightarrow> bytes \<Rightarrow> bundle_manifest \<Rightarrow> bytes option \<Rightarrow> (store, metadata_batch) sop" where
  "seal_batch fm cr master m index s = (bundle_batch fm cr (nonces s) master m index, s\<lparr>nonces := nonces s + 2\<rparr>)"

definition record_committed :: "formats \<Rightarrow> crypto \<Rightarrow> db_handle \<Rightarrow> bundle_manifest \<Rightarrow> (store, unit) sop" where
  "record_committed fm cr db m =
     (case db of
        None \<Rightarrow> sret ()
      | Some (env, _) \<Rightarrow> on_journal (record_commit env (man_commit m) (man_app m) (man_bundle m)
          (blake3_hex (blake3 cr) (manifest_json fm m)) (Some (bundle_dir (man_app m) (man_bundle m))) Committed))"

definition pack_uploads :: "(string \<times> string) list \<Rightarrow> (string \<times> string) list" where
  "pack_uploads pack_files = map (\<lambda>(pid, p). (p, pack_remote_key pid)) pack_files"

definition commit_bundle ::
  "formats \<Rightarrow> crypto \<Rightarrow> (nat \<Rightarrow> write_outcome) \<Rightarrow> bool \<Rightarrow> db_handle \<Rightarrow> (string \<rightharpoonup> bytes) \<Rightarrow> bytes \<Rightarrow> bundle_manifest
    \<Rightarrow> (string \<times> string) list \<Rightarrow> bytes option \<Rightarrow> (store, unit) sop" where
  "commit_bundle fm cr fault root_fails db files master m pack_files index =
     sbind (if root_fails then sfail Io else sret ()) (\<lambda>_.
     sbind (pending_uploads (tracked db) files (pack_uploads pack_files)) (\<lambda>us.
     sbind (upload_packs fm (tracked db) fault files us) (\<lambda>_.
     sbind (note_uploaded db m (pack_uploads pack_files)) (\<lambda>_.
     sbind (seal_batch fm cr master m index) (\<lambda>b.
     sbind (put_metadata_batch fault b) (\<lambda>_.
     record_committed fm cr db m))))))"

section \<open>Reading a bundle\<close>

definition open_document :: "formats \<Rightarrow> crypto \<Rightarrow> bytes \<Rightarrow> string \<Rightarrow> bytes \<Rightarrow> (state_error, bytes) result" where
  "open_document fm cr k aad bs = res_bind (unwrap_envelope cr k (as_bytes aad) bs) (decode_document fm)"

definition read_committed_manifest :: "formats \<Rightarrow> crypto \<Rightarrow> bytes \<Rightarrow> string \<Rightarrow> string \<Rightarrow> store \<Rightarrow> (state_error, bundle_manifest) result" where
  "read_committed_manifest fm cr master app bundle s =
     (let d = bundle_dir app bundle in
      if remote s (d @ ''/'' @ COMMITTED_MARKER) = None then Inl IncompleteCommit
      else
        res_bind (ok_or Io (remote s (d @ ''/manifest.enc''))) (\<lambda>bs.
        res_bind (open_document fm cr (manifest_key (derive_keys cr master)) ''manifest'' bs) (\<lambda>json.
        ok_or JsonError (manifest_parse fm json))))"

definition read_pack_index :: "formats \<Rightarrow> crypto \<Rightarrow> bytes \<Rightarrow> string \<Rightarrow> string \<Rightarrow> store \<Rightarrow> (state_error, pack_index_entry list) result" where
  "read_pack_index fm cr master app bundle s =
     res_bind (ok_or Io (remote s (bundle_dir app bundle @ ''/index.enc''))) (\<lambda>bs.
     res_bind (open_document fm cr (manifest_key (derive_keys cr master)) ''pack-index'' bs) (\<lambda>json.
     ok_or (Integrity ''pack index'') (index_parse fm json)))"

section \<open>Documents\<close>

definition format_laws :: "formats \<Rightarrow> bool" where
  "format_laws fm \<longleftrightarrow>
     (\<forall>bs z. doc_compress fm bs = Some z \<longrightarrow> doc_decompress fm z = Some bs) \<and>
     (\<forall>m. manifest_parse fm (manifest_json fm m) = Some m \<and> \<not> prefix DOCUMENT_MAGIC (manifest_json fm m))"

lemma document_round_trip:
  assumes "format_laws fm" "\<not> prefix DOCUMENT_MAGIC bs" "encode_document fm bs = Inr enc"
  shows "decode_document fm enc = Inr bs"
proof -
  have plain: "strip_prefix DOCUMENT_MAGIC bs = None"
    using assms(2) by (auto simp: strip_prefix_def prefix_def split: if_splits)
  have z: "doc_compress fm bs = Some z \<Longrightarrow> doc_decompress fm z = Some bs" for z
    using assms(1) by (simp add: format_laws_def)
  show ?thesis using assms(3) plain z
    by (auto simp: encode_document_def decode_document_def split: if_splits option.splits)
qed

lemma sealed_document_opens:
  assumes "crypto_laws cr" "format_laws fm" "\<not> prefix DOCUMENT_MAGIC bs" "sealed_document fm cr n k aad bs = Inr doc"
  shows "open_document fm cr k aad doc = Inr bs"
proof -
  obtain enc where enc: "encode_document fm bs = Inr enc" "wrap_envelope cr n k (as_bytes aad) enc = Inr doc"
    using assms(4) by (auto simp: sealed_document_def elim!: res_bind_InrE)
  show ?thesis using envelope_round_trip [OF assms(1) enc(2)] document_round_trip [OF assms(2,3) enc(1)]
    by (simp add: open_document_def)
qed

section \<open>Frames\<close>

definition outside :: "string set \<Rightarrow> store \<Rightarrow> store \<Rightarrow> bool" where
  "outside K s s' \<longleftrightarrow> (\<forall>q. q \<notin> K \<longrightarrow> remote s' q = remote s q)"

lemma outside_refl: "outside K s s" by (simp add: outside_def)
lemma outside_trans: "outside K s t \<Longrightarrow> outside K t u \<Longrightarrow> outside K s u" by (simp add: outside_def)
lemma outside_mono: "outside K s t \<Longrightarrow> K \<subseteq> L \<Longrightarrow> outside L s t" by (auto simp: outside_def)

lemma on_journalE:
  assumes "on_journal m s = (r, s')"
  obtains d where "m (jdb s) = (r, d)" and "s' = s\<lparr>jdb := d\<rparr>"
  using assms by (cases "m (jdb s)") (simp add: on_journal_def)

lemma remote_on_journal: "on_journal m s = (r, s') \<Longrightarrow> remote s' = remote s"
  by (elim on_journalE) simp

lemma frame_on_journal: "leaves (outside K) (on_journal m)"
  by (simp add: leaves_def outside_def on_journal_def case_prod_beta')

lemma frame_put_bytes: "rk \<in> K \<Longrightarrow> leaves (outside K) (put_bytes fault rk bs)"
  by (auto simp: leaves_def outside_def put_bytes_def Let_def split: write_outcome.splits)

lemma put_bytes_written: "put_bytes fault rk bs s = (Inr (), s') \<Longrightarrow> remote s' rk = Some bs"
  by (auto simp: put_bytes_def Let_def split: write_outcome.splits)

lemmas frame_intros =
  leaves_sbind [of "outside K" for K, OF outside_trans] leaves_seach [of "outside K" for K, OF outside_refl outside_trans]
  leaves_sret [of "outside K" for K, OF outside_refl] leaves_sfail [of "outside K" for K, OF outside_refl]
  leaves_slift [of "outside K" for K, OF outside_refl] leaves_sdrop frame_on_journal frame_put_bytes

lemma frame_upload_immutable:
  assumes "snd u \<in> K"
  shows "leaves (outside K) (upload_immutable fault files u)"
proof -
  have "outside K s (snd (put_bytes fault (snd u) bs s))" for bs s
    using frame_put_bytes [OF assms, of fault bs] by (simp add: leaves_def)
  then show ?thesis by (simp add: leaves_def upload_immutable_def outside_refl split: option.splits)
qed

lemma frame_upload_observed: "snd u \<in> K \<Longrightarrow> leaves (outside K) (upload_observed tr fault files u)"
  unfolding upload_observed_def
  by (intro frame_intros frame_upload_immutable) (auto split: option.splits intro: frame_intros)

lemma frame_bulk: "snd ` set us \<subseteq> K \<Longrightarrow> leaves (outside K) (upload_immutable_bulk_observed tr fault files us)"
  unfolding upload_immutable_bulk_observed_def by (intro frame_intros frame_upload_observed) auto

lemma frame_mark_failed: "leaves (outside K) (mark_failed env op msg u)"
  unfolding mark_failed_def by (rule frame_intros(1)) (auto intro: frame_intros)

lemma frame_upload_packs:
  assumes "snd ` set us \<subseteq> K"
  shows "leaves (outside K) (upload_packs fm tr fault files us)"
  unfolding leaves_def
proof
  fix s
  obtain r s1 where b: "upload_immutable_bulk_observed tr fault files us s = (r, s1)" by fastforce
  have o1: "outside K s s1" by (rule leavesD [OF frame_bulk [OF assms] b])
  have "leaves (outside K) (sbind (seach (mark_failed env op msg) us) (\<lambda>_. sfail e :: (store, unit) sop))" for env op msg e
    by (intro frame_intros frame_mark_failed)
  then have "outside K s1 (snd (sbind (seach (mark_failed env op msg) us) (\<lambda>_. sfail e :: (store, unit) sop) s1))" for env op msg e
    unfolding leaves_def by blast
  then show "outside K s (snd (upload_packs fm tr fault files us s))"
    using b o1 outside_trans [OF o1] by (auto simp: upload_packs_def split: sum.splits option.splits)
qed

lemma frame_pending: "leaves (outside K) (pending_uploads tr files us)"
proof (induction us)
  case Nil
  show ?case unfolding pending_uploads.simps by (rule frame_intros(3))
next
  case (Cons u us)
  have "leaves (outside K) (already_uploaded tr u)" "leaves (outside K) (start_upload tr files u)"
    by (auto simp: already_uploaded_def start_upload_def split: option.splits intro!: frame_intros)
  then show ?case using Cons by (auto intro!: frame_intros(1,3))
qed

lemma frame_note: "leaves (outside K) (note_uploaded db m us)"
  by (auto simp: note_uploaded_def split: option.splits intro!: frame_intros)

lemma frame_record: "leaves (outside K) (record_committed fm cr db m)"
  by (auto simp: record_committed_def split: option.splits intro!: frame_intros)

lemma frame_seal: "leaves (outside K) (seal_batch fm cr master m index)"
  by (simp add: leaves_def seal_batch_def outside_def)

section \<open>Uploads\<close>

lemma upload_immutable_present:
  assumes "upload_immutable fault files u s = (Inr (), s')" "remote s (snd u) = None \<or> remote s (snd u) = files (fst u)"
  shows "remote s' (snd u) = files (fst u) \<and> files (fst u) \<noteq> None"
  using assms put_bytes_written by (fastforce simp: upload_immutable_def split: if_splits option.splits)

lemma upload_observed_present:
  assumes "upload_observed tr fault files u s = (Inr (), s')" "remote s (snd u) = None \<or> remote s (snd u) = files (fst u)"
  shows "remote s' (snd u) = files (fst u) \<and> files (fst u) \<noteq> None"
proof -
  obtain s1 where one: "upload_immutable fault files u s = (Inr (), s1)"
    and rest: "(case tr of None \<Rightarrow> sret () | Some (env, op) \<Rightarrow> on_journal (observer_completed env files op False [u])) s1 = (Inr (), s')"
    using assms(1) unfolding upload_observed_def by (auto elim: sbind_InrE)
  have "remote s' = remote s1" using rest by (auto split: option.splits dest: remote_on_journal)
  then show ?thesis using upload_immutable_present [OF one assms(2)] by simp
qed

lemma upload_bulk_present:
  assumes "upload_immutable_bulk_observed tr fault files us s = (Inr x, s')" "distinct (map snd us)"
    and "\<forall>u \<in> set us. remote s (snd u) = None \<or> remote s (snd u) = files (fst u)" "u \<in> set us"
  shows "remote s' (snd u) = files (fst u) \<and> files (fst u) \<noteq> None"
  using assms
proof (induction us arbitrary: s)
  case (Cons v us)
  obtain s1 where one: "upload_observed tr fault files v s = (Inr (), s1)"
    and rest: "upload_immutable_bulk_observed tr fault files us s1 = (Inr x, s')"
    using Cons.prems(1) by (auto simp: upload_immutable_bulk_observed_def elim: sbind_InrE)
  have fr: "outside {snd v} s s1" by (rule leavesD [OF frame_upload_observed one]) simp
  show ?case
  proof (cases "u = v")
    case True
    have "outside (snd ` set us) s1 s'" by (rule leavesD [OF frame_bulk rest]) simp
    then have "remote s' (snd u) = remote s1 (snd u)" using Cons.prems(2) True by (auto simp: outside_def)
    then show ?thesis using upload_observed_present [OF one] Cons.prems(3) True by auto
  next
    case False
    have "\<forall>w \<in> set us. remote s1 (snd w) = remote s (snd w)"
      using fr Cons.prems(2) by (auto simp: outside_def image_iff)
    then show ?thesis using Cons.IH [OF rest] Cons.prems(2-) False by auto
  qed
qed simp

lemma already_uploaded_reads:
  assumes "already_uploaded tr u s = (Inr fin, s1)"
  shows "item_done (jdb s1) ik = item_done (jdb s) ik"
    "fin \<Longrightarrow> \<exists>env op. tr = Some (env, op) \<and> item_done (jdb s) (op, snd u)"
proof -
  have "item_done (jdb s1) ik = item_done (jdb s) ik \<and>
      (fin \<longrightarrow> (\<exists>env op. tr = Some (env, op) \<and> item_done (jdb s) (op, snd u)))"
  proof (cases tr)
    case None
    then show ?thesis using assms by (simp add: already_uploaded_def)
  next
    case (Some p)
    obtain env op where tr: "tr = Some (env, op)" using Some by (cases p) auto
    obtain d where d: "sync_journal_completed env (op, snd u) (jdb s) = (Inr fin, d)" "s1 = s\<lparr>jdb := d\<rparr>"
      using assms by (auto simp: already_uploaded_def tr elim: on_journalE)
    show ?thesis using completed_reads [OF d(1)] tr d(2) by (simp add: item_done_def)
  qed
  then show "item_done (jdb s1) ik = item_done (jdb s) ik"
    "fin \<Longrightarrow> \<exists>env op. tr = Some (env, op) \<and> item_done (jdb s) (op, snd u)" by blast+
qed

text \<open>What is left out was completed before.\<close>

lemma pending_uploads_sound:
  assumes "pending_uploads tr files us s = (Inr ps, s')" "distinct (map snd us)"
  shows "set ps \<subseteq> set us \<and> distinct (map snd ps) \<and>
    (\<forall>u \<in> set us. u \<in> set ps \<or> (\<exists>env op. tr = Some (env, op) \<and> item_done (jdb s) (op, snd u)))"
  using assms
proof (induction us arbitrary: s ps)
  case (Cons u us)
  obtain fin s1 where au: "already_uploaded tr u s = (Inr fin, s1)"
    and rest: "(if fin then pending_uploads tr files us
       else sbind (start_upload tr files u) (\<lambda>_. sbind (pending_uploads tr files us) (\<lambda>ps. sret (u # ps)))) s1 = (Inr ps, s')"
    using Cons.prems(1) by (auto elim: sbind_InrE)
  note d1 = already_uploaded_reads(1) [OF au]
  have dist: "distinct (map snd us)" using Cons.prems(2) by simp
  show ?case
  proof (cases fin)
    case True
    then obtain env op where tr: "tr = Some (env, op)" "item_done (jdb s) (op, snd u)"
      using already_uploaded_reads(2) [OF au] by blast
    have p: "pending_uploads tr files us s1 = (Inr ps, s')" using rest True by simp
    show ?thesis using Cons.IH [OF p dist] tr d1 by auto
  next
    case False
    then obtain s2 qs where st: "start_upload tr files u s1 = (Inr (), s2)"
      and p: "pending_uploads tr files us s2 = (Inr qs, s')" and ps: "ps = u # qs"
      using rest by (auto elim!: sbind_InrE)
    have d2: "item_done (jdb s2) (op, snd v) = item_done (jdb s1) (op, snd v)"
      if v: "v \<in> set us" and tr: "tr = Some (env, op)" for v env op
    proof -
      have "snd v \<noteq> snd u" using Cons.prems(2) v by (metis distinct.simps(2) image_eqI list.set_map list.simps(9))
      obtain n d where "start_sync_journal_item env (op, snd u) PackKind Upload (Some (fst u)) (Some (snd u)) (Some n) (jdb s1) = (Inr (), d)"
        and s2: "s2 = s1\<lparr>jdb := d\<rparr>"
        using st tr by (auto simp: start_upload_def elim!: sbind_InrE on_journalE)
      from leavesD [OF start_frame this(1)] show ?thesis
        using \<open>snd v \<noteq> snd u\<close> by (simp add: others_kept_def item_done_def s2)
    qed
    note ih = Cons.IH [OF p dist]
    have "snd u \<notin> snd ` set qs" using ih Cons.prems(2) by (auto simp: image_iff)
    moreover have "\<exists>env op. tr = Some (env, op) \<and> item_done (jdb s) (op, snd v)" if v: "v \<in> set us" "v \<notin> set qs" for v
    proof -
      obtain env op where tr: "tr = Some (env, op)" "item_done (jdb s2) (op, snd v)" using ih v by blast
      then show ?thesis using d1 d2 [OF v(1) tr(1)] by simp
    qed
    ultimately show ?thesis using ih ps by auto
  qed
qed simp

section \<open>The commit\<close>

lemma pack_remote_key_inject [simp]: "pack_remote_key p = pack_remote_key q \<longleftrightarrow> p = q"
proof
  assume eq: "pack_remote_key p = pack_remote_key q"
  have "length p = length q"
    using arg_cong [OF eq, of length] by (auto simp: pack_remote_key_def min_def split: if_splits)
  then show "p = q" using eq by (simp add: pack_remote_key_def)
qed simp

abbreviation marker_of :: "bundle_manifest \<Rightarrow> string" where
  "marker_of m \<equiv> bundle_dir (man_app m) (man_bundle m) @ ''/'' @ COMMITTED_MARKER"

lemma bundle_batch_shape:
  assumes "bundle_batch fm cr n master m index = Inr b"
  shows "\<exists>man ixs. batch_entries b = ixs @ [(bundle_dir (man_app m) (man_bundle m) @ ''/manifest.enc'', man),
      (bundle_dir (man_app m) (man_bundle m) @ ''/manifest.hash'', as_bytes (blake3_hex (blake3 cr) (manifest_json fm m)))] \<and>
    batch_committed b = Some (marker_of m, as_bytes (man_commit m)) \<and>
    sealed_document fm cr (n + 1) (manifest_key (derive_keys cr master)) ''manifest'' (manifest_json fm m) = Inr man \<and>
    (case index of
       None \<Rightarrow> ixs = []
     | Some ix \<Rightarrow> \<exists>doc. ixs = [(bundle_dir (man_app m) (man_bundle m) @ ''/index.enc'', doc)] \<and>
         sealed_document fm cr n (manifest_key (derive_keys cr master)) ''pack-index'' ix = Inr doc)"
  using assms
  by (auto simp: bundle_batch_def Let_def elim!: res_bind_InrE split: option.splits)

lemma put_each_written:
  assumes "seach (\<lambda>(k, bs). put_bytes fault k bs) es s = (Inr (), s')" "distinct (map fst es)" "(rk, bs) \<in> set es"
  shows "remote s' rk = Some bs"
  using assms
proof (induction es arbitrary: s)
  case (Cons e es)
  obtain k b where e: "e = (k, b)" by fastforce
  obtain s1 where one: "put_bytes fault k b s = (Inr (), s1)"
    and rest: "seach (\<lambda>(k, bs). put_bytes fault k bs) es s1 = (Inr (), s')"
    using Cons.prems(1) e by (auto elim: sbind_InrE)
  have fr: "outside (fst ` set es) s1 s'"
    by (rule leavesD [OF frame_intros(2) rest]) (auto intro!: frame_put_bytes simp: rev_image_eqI)
  show ?case
  proof (cases "(rk, bs) = e")
    case True
    then have "rk \<notin> fst ` set es" using Cons.prems(2) e by auto
    then show ?thesis using fr put_bytes_written [OF one] True e by (simp add: outside_def)
  next
    case False
    then show ?thesis using Cons.IH [OF rest] Cons.prems(2,3) by auto
  qed
qed simp

lemma put_metadata_batch_marker:
  assumes run: "put_metadata_batch fault b s = (r, s')" and mk: "batch_committed b = Some (mk, c)"
    and keys: "distinct (map fst (batch_entries b))" "mk \<notin> fst ` set (batch_entries b)" and new: "remote s mk = None"
  shows "remote s' mk \<noteq> None \<Longrightarrow> (k, bs) \<in> set (batch_entries b) \<Longrightarrow> remote s' k = Some bs"
    "r = Inr () \<Longrightarrow> remote s' mk = Some c"
    "outside (insert mk (fst ` set (batch_entries b))) s s'"
proof -
  let ?each = "seach (\<lambda>(k, bs). put_bytes fault k bs) (batch_entries b)" and ?K = "fst ` set (batch_entries b)"
  obtain r1 s1 where each: "?each s = (r1, s1)" by fastforce
  have fe: "outside ?K s s1"
    by (rule leavesD [OF frame_intros(2) each]) (auto intro!: frame_put_bytes simp: rev_image_eqI)
  have none: "remote s1 mk = None" using fe keys(2) new by (simp add: outside_def)
  have failed: "s' = s1 \<and> r \<noteq> Inr ()" if "r1 \<noteq> Inr ()"
    using run each that by (cases r1) (auto simp: put_metadata_batch_def)
  have ok: "put_bytes fault mk c s1 = (r, s')" if "r1 = Inr ()"
    using run each mk that by (simp add: put_metadata_batch_def)
  have mkf: "outside {mk} s1 s'" using failed ok leavesD [OF frame_put_bytes] by (cases "r1 = Inr ()") (fastforce simp: outside_refl)+
  show "remote s' k = Some bs" if "remote s' mk \<noteq> None" "(k, bs) \<in> set (batch_entries b)"
  proof -
    have r1: "r1 = Inr ()" using that(1) failed none by (cases "r1 = Inr ()") auto
    have "k \<noteq> mk" using that(2) keys(2) by force
    then show ?thesis using put_each_written [OF each [unfolded r1] keys(1) that(2)] mkf by (simp add: outside_def)
  qed
  show "remote s' mk = Some c" if "r = Inr ()"
    using that failed ok put_bytes_written by (cases "r1 = Inr ()") auto
  show "outside (insert mk ?K) s s'"
    by (rule outside_trans [OF outside_mono [OF fe] outside_mono [OF mkf]]) auto
qed

text \<open>What a visible bundle has to consist of.\<close>

definition bundle_complete ::
  "formats \<Rightarrow> crypto \<Rightarrow> bytes \<Rightarrow> (string \<rightharpoonup> bytes) \<Rightarrow> bundle_manifest \<Rightarrow> (string \<times> string) list \<Rightarrow> bytes option \<Rightarrow> store \<Rightarrow> bool" where
  "bundle_complete fm cr master files m pack_files index s \<longleftrightarrow>
     read_committed_manifest fm cr master (man_app m) (man_bundle m) s = Inr m \<and>
     (\<forall>(pid, p) \<in> set pack_files. files p \<noteq> None \<and> remote s (pack_remote_key pid) = files p) \<and>
     (case index of None \<Rightarrow> True
      | Some ix \<Rightarrow> read_pack_index fm cr master (man_app m) (man_bundle m) s = ok_or (Integrity ''pack index'') (index_parse fm ix))"

text \<open>Fresh identifiers, and a journal that reports only finished uploads.\<close>

definition upload_ready :: "db_handle \<Rightarrow> (string \<rightharpoonup> bytes) \<Rightarrow> store \<Rightarrow> string \<times> string \<Rightarrow> bool" where
  "upload_ready db files s u \<longleftrightarrow>
     (case remote s (snd u) of
        None \<Rightarrow> (case tracked db of None \<Rightarrow> True | Some (env, op) \<Rightarrow> \<not> item_done (jdb s) (op, snd u))
      | Some b \<Rightarrow> files (fst u) = Some b)"

definition commit_ready ::
  "db_handle \<Rightarrow> (string \<rightharpoonup> bytes) \<Rightarrow> bundle_manifest \<Rightarrow> (string \<times> string) list \<Rightarrow> bytes option \<Rightarrow> store \<Rightarrow> bool" where
  "commit_ready db files m pack_files index s \<longleftrightarrow>
     remote s (marker_of m) = None \<and> distinct (map fst pack_files) \<and>
     (case index of None \<Rightarrow> True | Some ix \<Rightarrow> \<not> prefix DOCUMENT_MAGIC ix) \<and>
     (\<forall>u \<in> set (pack_uploads pack_files). upload_ready db files s u)"

lemma bundle_key_not_pack [simp]:
  "bundle_dir a b @ x \<noteq> pack_remote_key pid" "pack_remote_key pid \<noteq> bundle_dir a b @ x"
  by (simp_all add: bundle_dir_def pack_remote_key_def)

lemma batch_keys:
  assumes "bundle_batch fm cr n master m index = Inr b"
  shows "distinct (map fst (batch_entries b))" "marker_of m \<notin> fst ` set (batch_entries b)"
    "pack_remote_key pid \<notin> fst ` set (batch_entries b)"
  using bundle_batch_shape [OF assms] by (auto simp: COMMITTED_MARKER_def split: option.splits)

lemma visible_bundle_complete:
  assumes laws: "crypto_laws cr" "format_laws fm"
    and index: "case index of None \<Rightarrow> True | Some ix \<Rightarrow> \<not> prefix DOCUMENT_MAGIC ix"
    and batch: "bundle_batch fm cr n master m index = Inr b"
    and run: "put_metadata_batch fault b s = (r, s')" and new: "remote s (marker_of m) = None"
    and packs: "\<forall>(pid, p) \<in> set pack_files. files p \<noteq> None \<and> remote s (pack_remote_key pid) = files p"
    and vis: "remote s' (marker_of m) \<noteq> None"
  shows "bundle_complete fm cr master files m pack_files index s'"
proof -
  let ?d = "bundle_dir (man_app m) (man_bundle m)" and ?k = "manifest_key (derive_keys cr master)"
  obtain man ixs where ent: "batch_entries b = ixs @ [(?d @ ''/manifest.enc'', man),
      (?d @ ''/manifest.hash'', as_bytes (blake3_hex (blake3 cr) (manifest_json fm m)))]"
    and mk: "batch_committed b = Some (marker_of m, as_bytes (man_commit m))"
    and man: "sealed_document fm cr (n + 1) ?k ''manifest'' (manifest_json fm m) = Inr man"
    and ixs: "case index of None \<Rightarrow> ixs = []
      | Some ix \<Rightarrow> \<exists>doc. ixs = [(?d @ ''/index.enc'', doc)] \<and> sealed_document fm cr n ?k ''pack-index'' ix = Inr doc"
    using bundle_batch_shape [OF batch] by blast
  note keys = batch_keys [OF batch]
  note wr = put_metadata_batch_marker [OF run mk keys(1,2) new]
  have json: "manifest_parse fm (manifest_json fm m) = Some m" "\<not> prefix DOCUMENT_MAGIC (manifest_json fm m)"
    using laws(2) by (simp_all add: format_laws_def)
  have "remote s' (?d @ ''/manifest.enc'') = Some man" by (rule wr(1) [OF vis]) (simp add: ent)
  then have "read_committed_manifest fm cr master (man_app m) (man_bundle m) s' = Inr m"
    using vis sealed_document_opens [OF laws json(2) man] json(1) by (simp add: read_committed_manifest_def Let_def)
  moreover have "remote s' (pack_remote_key pid) = remote s (pack_remote_key pid)" for pid
    using wr(3) keys(3) by (auto simp: outside_def)
  moreover have "read_pack_index fm cr master (man_app m) (man_bundle m) s' = ok_or (Integrity ''pack index'') (index_parse fm ix)"
    if ix: "index = Some ix" for ix
  proof -
    obtain doc where doc: "(?d @ ''/index.enc'', doc) \<in> set (batch_entries b)" "sealed_document fm cr n ?k ''pack-index'' ix = Inr doc"
      using ixs ix ent by auto
    have "remote s' (?d @ ''/index.enc'') = Some doc" by (rule wr(1) [OF vis doc(1)])
    then show ?thesis using sealed_document_opens [OF laws _ doc(2)] index ix by (simp add: read_pack_index_def)
  qed
  ultimately show ?thesis using packs by (auto simp: bundle_complete_def split: option.splits)
qed

lemma upload_packs_Inr:
  "upload_packs fm tr fault files us s = (Inr x, s1) \<Longrightarrow> upload_immutable_bulk_observed tr fault files us s = (Inr (), s1)"
  by (auto simp: upload_packs_def elim!: sbind_InrE split: prod.splits sum.splits option.splits)

lemma pack_keys: "snd ` set (pack_uploads pack_files) \<subseteq> range pack_remote_key"
  by (auto simp: pack_uploads_def)

lemma uploads_present:
  assumes ready: "commit_ready db files m pack_files index s"
    and pend: "pending_uploads (tracked db) files (pack_uploads pack_files) s = (Inr us, s0)"
    and up: "upload_packs fm (tracked db) fault files us s0 = (Inr x, s1)"
  shows "\<forall>(pid, p) \<in> set pack_files. files p \<noteq> None \<and> remote s1 (pack_remote_key pid) = files p"
proof -
  let ?all = "pack_uploads pack_files"
  have "map snd ?all = map pack_remote_key (map fst pack_files)" by (simp add: pack_uploads_def case_prod_beta')
  then have dist: "distinct (map snd ?all)" using ready by (simp add: commit_ready_def distinct_map inj_on_def)
  note sound = pending_uploads_sound [OF pend dist]
  note bulk = upload_packs_Inr [OF up]
  have s0: "remote s0 = remote s" using leavesD [OF frame_pending pend, of "{}"] by (auto simp: outside_def)
  have old: "remote s (snd u) = None \<or> remote s (snd u) = files (fst u)" if "u \<in> set ?all" for u
    using ready that by (cases "remote s (snd u)") (auto simp: commit_ready_def upload_ready_def)
  have "remote s1 (snd u) = files (fst u) \<and> files (fst u) \<noteq> None" if u: "u \<in> set ?all" for u
  proof (cases "u \<in> set us")
    case True
    show ?thesis by (rule upload_bulk_present [OF bulk]) (use sound old s0 True in auto)
  next
    case False
    then obtain env op where "tracked db = Some (env, op)" "item_done (jdb s) (op, snd u)" using sound u by blast
    then have "files (fst u) = remote s (snd u) \<and> remote s (snd u) \<noteq> None"
      using ready u by (cases "remote s (snd u)") (auto simp: commit_ready_def upload_ready_def)
    moreover have "snd u \<notin> snd ` set us"
      using False sound u dist by (auto simp: distinct_map dest: inj_onD)
    then have "remote s1 (snd u) = remote s0 (snd u)"
      using leavesD [OF frame_bulk bulk, of "snd ` set us"] by (simp add: outside_def)
    ultimately show ?thesis using s0 by simp
  qed
  then show ?thesis by (fastforce simp: pack_uploads_def)
qed

lemma bundle_complete_remote:
  assumes "remote s' = remote s"
  shows "bundle_complete fm cr master files m pack_files index s' = bundle_complete fm cr master files m pack_files index s"
  unfolding bundle_complete_def read_committed_manifest_def read_pack_index_def assms ..

lemma marker_kept:
  assumes "outside (range pack_remote_key) t t'"
  shows "remote t' (marker_of m) = remote t (marker_of m)"
proof -
  have "marker_of m \<notin> range pack_remote_key" by (rule notI, erule rangeE) (simp only: bundle_key_not_pack)
  then show ?thesis using assms unfolding outside_def by blast
qed

lemma pending_uploads_subset: "pending_uploads tr files us s = (Inr ps, s') \<Longrightarrow> set ps \<subseteq> set us"
proof (induction us arbitrary: s ps)
  case (Cons u us)
  then show ?case by (fastforce elim!: sbind_InrE split: if_splits)
qed simp

lemma marker_absent:
  assumes "pending_uploads tr files (pack_uploads pack_files) s = (Inr us, s0)" "upload_packs fm tr fault files us s0 = (Inr x, s1)"
    and "remote s (marker_of m) = None"
  shows "remote s1 (marker_of m) = None"
proof -
  have "snd ` set us \<subseteq> range pack_remote_key"
    by (rule order_trans [OF image_mono [OF pending_uploads_subset [OF assms(1)]] pack_keys])
  then have "outside (range pack_remote_key) s0 s1" by (rule leavesD [OF frame_upload_packs assms(2)])
  moreover have "outside (range pack_remote_key) s s0" by (rule leavesD [OF frame_pending assms(1)])
  ultimately show ?thesis using assms(3) marker_kept by metis
qed

section \<open>Without failures\<close>

definition formats_total :: "formats \<Rightarrow> bool" where
  "formats_total fm \<longleftrightarrow> (\<forall>bs. doc_compress fm bs \<noteq> None)"

lemma sealed_document_done:
  assumes "formats_total fm" "crypto_total cr" "length bs < 2 ^ 32"
  shows "\<exists>doc. sealed_document fm cr n k aad bs = Inr doc"
proof -
  obtain z where "doc_compress fm bs = Some z" using assms(1) unfolding formats_total_def by blast
  then have "\<exists>enc. encode_document fm bs = Inr enc \<and> length enc \<le> length bs"
    by (auto simp: encode_document_def)
  then obtain enc where enc: "encode_document fm bs = Inr enc" "length enc \<le> length bs" by blast
  then have "aead_seal cr k (random_nonce cr n) (as_bytes aad) enc \<noteq> None"
    using assms(2,3) by (simp add: crypto_total_def)
  then show ?thesis using enc by (auto simp: sealed_document_def wrap_envelope_def encrypt_def Let_def)
qed

definition small_documents :: "formats \<Rightarrow> bundle_manifest \<Rightarrow> bytes option \<Rightarrow> bool" where
  "small_documents fm m index \<longleftrightarrow> length (manifest_json fm m) < 2 ^ 32 \<and>
     (case index of None \<Rightarrow> True | Some ix \<Rightarrow> length ix < 2 ^ 32)"

lemma bundle_batch_done:
  assumes "formats_total fm" "crypto_total cr" "small_documents fm m index"
  shows "\<exists>b. bundle_batch fm cr n master m index = Inr b"
proof -
  let ?k = "manifest_key (derive_keys cr master)"
  have "length (manifest_json fm m) < 2 ^ 32" using assms(3) by (simp add: small_documents_def)
  then obtain man where "sealed_document fm cr (n + 1) ?k ''manifest'' (manifest_json fm m) = Inr man"
    using sealed_document_done [OF assms(1,2)] by blast
  moreover have "\<exists>doc. sealed_document fm cr n ?k ''pack-index'' ix = Inr doc" if "index = Some ix" for ix
    using sealed_document_done [OF assms(1,2)] assms(3) that by (auto simp: small_documents_def)
  ultimately show ?thesis by (cases index) (fastforce simp: bundle_batch_def Let_def)+
qed

definition file_bytes :: "(string \<rightharpoonup> bytes) \<Rightarrow> (string \<times> string) list \<Rightarrow> nat" where
  "file_bytes files us = (\<Sum>u\<leftarrow>us. case files (fst u) of None \<Rightarrow> 0 | Some bs \<Rightarrow> length bs)"

text \<open>The journal works and has room for \<open>n\<close> more bytes.\<close>

definition journal_fits :: "(db_env \<times> string) option \<Rightarrow> nat \<Rightarrow> store \<Rightarrow> bool" where
  "journal_fits tr n s \<longleftrightarrow>
     (case tr of None \<Rightarrow> True | Some (env, op) \<Rightarrow> db_healthy env \<and> journal_ok (jdb s) \<and> weight (sync_rows (jdb s)) + n < 2 ^ 63)"

lemma already_uploaded_works:
  assumes "journal_fits tr k s"
  shows "\<exists>fin s'. already_uploaded tr u s = (Inr fin, s') \<and> journal_fits tr k s'"
proof (cases tr)
  case (Some p)
  obtain env op where tr: "tr = Some (env, op)" using Some by (cases p) auto
  then have "sync_journal_completed env (op, snd u) (jdb s) =
      (Inr (item_done (jdb s) (op, snd u)), (jdb s)\<lparr>statements := statements (jdb s) + 1\<rparr>)"
    using assms by (auto simp: journal_fits_def sync_journal_completed_def get_sync_journal_entry_def statement_healthy sbind_def
        item_done_def row_to_sync_journal_entry_def split: option.splits)
  then show ?thesis using assms tr by (simp add: already_uploaded_def on_journal_def journal_fits_def)
qed (use assms in \<open>auto simp: already_uploaded_def\<close>)

lemma start_upload_works:
  assumes "journal_fits tr (length bs + k) s" "files (fst u) = Some bs"
  shows "\<exists>s'. start_upload tr files u s = (Inr (), s') \<and> journal_fits tr k s'"
proof (cases tr)
  case (Some p)
  obtain env op where tr: "tr = Some (env, op)" using Some by (cases p) auto
  then have "db_healthy env" "journal_ok (jdb s)" "weight (sync_rows (jdb s)) + length bs < 2 ^ 63"
    using assms(1) by (auto simp: journal_fits_def)
  from start_healthy [OF this] obtain d where
    "start_sync_journal_item env (op, snd u) PackKind Upload (Some (fst u)) (Some (snd u)) (Some (length bs)) (jdb s) = (Inr (), d)"
    "journal_ok d" "weight (sync_rows d) \<le> weight (sync_rows (jdb s)) + length bs" by blast
  then show ?thesis using assms tr by (simp add: start_upload_def on_journal_def journal_fits_def)
qed (use assms in \<open>auto simp: start_upload_def journal_fits_def\<close>)

lemma pending_uploads_works:
  assumes "journal_fits tr (file_bytes files us + k) s" "\<forall>u \<in> set us. files (fst u) \<noteq> None"
  shows "\<exists>ps s'. pending_uploads tr files us s = (Inr ps, s') \<and> journal_fits tr k s' \<and>
    file_bytes files ps \<le> file_bytes files us \<and> set ps \<subseteq> set us"
  using assms
proof (induction us arbitrary: s)
  case (Cons u us)
  obtain bs where bs: "files (fst u) = Some bs" using Cons.prems(2) by auto
  have sum: "file_bytes files (u # vs) = length bs + file_bytes files vs" for vs by (simp add: file_bytes_def bs)
  obtain fin s1 where au: "already_uploaded tr u s = (Inr fin, s1)"
    and f1: "journal_fits tr (length bs + (file_bytes files us + k)) s1"
    using already_uploaded_works [OF Cons.prems(1), of u] unfolding sum add.assoc by blast
  have all: "\<forall>v \<in> set us. files (fst v) \<noteq> None" using Cons.prems(2) by simp
  show ?case
  proof (cases fin)
    case True
    have "journal_fits tr (file_bytes files us + k) s1" using f1 by (auto simp: journal_fits_def split: option.splits)
    from Cons.IH [OF this all] show ?thesis using au True by (fastforce simp: sum)
  next
    case False
    obtain s2 where st: "start_upload tr files u s1 = (Inr (), s2)" and f2: "journal_fits tr (file_bytes files us + k) s2"
      using start_upload_works [where files = files and u = u, OF f1 bs] by blast
    from Cons.IH [OF f2 all] show ?thesis using au st False by (fastforce simp: sum)
  qed
qed (simp add: file_bytes_def journal_fits_def)

lemma upload_observed_works:
  assumes "\<And>k. fault k = Done" "journal_fits tr (2 * length bs + k) s" "files (fst u) = Some bs"
  shows "\<exists>s'. upload_observed tr fault files u s = (Inr (), s') \<and> journal_fits tr k s'"
proof -
  have "\<exists>s1. upload_immutable fault files u s = (Inr (), s1) \<and> jdb s1 = jdb s"
    using assms(1,3) by (simp add: upload_immutable_def put_bytes_def Let_def)
  then obtain s1 where up: "upload_immutable fault files u s = (Inr (), s1)" "jdb s1 = jdb s" by blast
  show ?thesis
  proof (cases tr)
    case None
    then show ?thesis using up by (simp add: upload_observed_def journal_fits_def)
  next
    case (Some p)
    obtain env op where tr: "tr = Some (env, op)" using Some by (cases p) auto
    then have "db_healthy env" "journal_ok (jdb s1)" "weight (sync_rows (jdb s1)) + 2 * length bs < 2 ^ 63"
      using assms(2) up(2) by (auto simp: journal_fits_def)
    from observer_healthy [where files = files and u = u, OF this(1,2) assms(3) this(3)] obtain d where "observer_completed env files op False [u] (jdb s1) = (Inr (), d)"
      "journal_ok d" "weight (sync_rows d) \<le> weight (sync_rows (jdb s1)) + 2 * length bs" by blast
    then show ?thesis using assms(2) up tr by (simp add: upload_observed_def on_journal_def journal_fits_def)
  qed
qed

lemma upload_bulk_works:
  assumes "\<And>k. fault k = Done" "journal_fits tr (2 * file_bytes files us) s" "\<forall>u \<in> set us. files (fst u) \<noteq> None"
  shows "\<exists>s'. upload_immutable_bulk_observed tr fault files us s = (Inr (), s')"
  using assms(2,3)
proof (induction us arbitrary: s)
  case (Cons u us)
  obtain bs where bs: "files (fst u) = Some bs" using Cons.prems(2) by auto
  have "journal_fits tr (2 * length bs + 2 * file_bytes files us) s" using Cons.prems(1) by (simp add: file_bytes_def bs)
  from upload_observed_works [where fault = fault and files = files and u = u, OF assms(1) this bs] obtain s1 where
    "upload_observed tr fault files u s = (Inr (), s1)" "journal_fits tr (2 * file_bytes files us) s1" by blast
  then show ?case using Cons.IH [of s1] Cons.prems(2) by (auto simp: upload_immutable_bulk_observed_def)
qed (simp add: upload_immutable_bulk_observed_def)

lemma statements_work:
  assumes "case db of None \<Rightarrow> True | Some (env, x) \<Rightarrow> db_healthy env"
  shows "\<exists>s'. note_uploaded db m us s = (Inr (), s')" "\<exists>s'. record_committed fm cr db m s = (Inr (), s')"
proof -
  have "\<exists>s'. seach (\<lambda>u. on_journal (journal_put env (f u) a b c)) us s = (Inr (), s')" if "db_healthy env" for env f a b c
    by (induction us arbitrary: s) (simp_all add: sbind_def on_journal_def journal_put_def statement_healthy [OF that])
  then show "\<exists>s'. note_uploaded db m us s = (Inr (), s')" using assms by (auto simp: note_uploaded_def split: option.splits)
  show "\<exists>s'. record_committed fm cr db m s = (Inr (), s')"
    using assms by (auto simp: record_committed_def on_journal_def record_commit_def statement_healthy Let_def split: option.splits)
qed

lemma put_metadata_batch_works:
  assumes "\<And>k. fault k = Done"
  shows "\<exists>s'. put_metadata_batch fault b s = (Inr (), s')"
proof -
  have put: "\<exists>s'. put_bytes fault k bs s = (Inr (), s')" for k bs s using assms by (simp add: put_bytes_def Let_def)
  have "\<exists>s'. seach (\<lambda>(k, bs). put_bytes fault k bs) es s = (Inr (), s')" for es
  proof (induction es arbitrary: s)
    case (Cons e es)
    obtain s1 where "put_bytes fault (fst e) (snd e) s = (Inr (), s1)" using put by blast
    then show ?case using Cons [of s1] by (simp add: case_prod_beta')
  qed simp
  then obtain s1 where "seach (\<lambda>(k, bs). put_bytes fault k bs) (batch_entries b) s = (Inr (), s1)" by blast
  then show ?thesis using put by (cases "batch_committed b") (auto simp: put_metadata_batch_def split: prod.splits)
qed

text \<open>No write and no statement fails, the documents and files can be read and encoded, and the journal has room.\<close>

definition unhindered ::
  "formats \<Rightarrow> crypto \<Rightarrow> (nat \<Rightarrow> write_outcome) \<Rightarrow> bool \<Rightarrow> db_handle \<Rightarrow> (string \<rightharpoonup> bytes) \<Rightarrow> bundle_manifest
    \<Rightarrow> (string \<times> string) list \<Rightarrow> bytes option \<Rightarrow> store \<Rightarrow> bool" where
  "unhindered fm cr fault root_fails db files m pack_files index s \<longleftrightarrow>
     \<not> root_fails \<and> (\<forall>k. fault k = Done) \<and> formats_total fm \<and> crypto_total cr \<and> small_documents fm m index \<and>
     (\<forall>u \<in> set (pack_uploads pack_files). files (fst u) \<noteq> None) \<and>
     (case db of None \<Rightarrow> True | Some (env, x) \<Rightarrow> db_healthy env) \<and>
     journal_fits (tracked db) (3 * file_bytes files (pack_uploads pack_files)) s"

lemma commit_bundle_works:
  assumes "unhindered fm cr fault root_fails db files m pack_files index s"
  shows "\<exists>s'. commit_bundle fm cr fault root_fails db files master m pack_files index s = (Inr (), s')"
proof -
  let ?us = "pack_uploads pack_files"
  note un = assms [unfolded unhindered_def]
  have "journal_fits (tracked db) (file_bytes files ?us + 2 * file_bytes files ?us) s" using un by simp
  then obtain ps s1 where p: "pending_uploads (tracked db) files ?us s = (Inr ps, s1)"
    "journal_fits (tracked db) (2 * file_bytes files ?us) s1" "file_bytes files ps \<le> file_bytes files ?us" "set ps \<subseteq> set ?us"
    using pending_uploads_works un by blast
  have "journal_fits (tracked db) (2 * file_bytes files ps) s1" using p(2,3) by (auto simp: journal_fits_def split: option.splits)
  then obtain s2 where "upload_immutable_bulk_observed (tracked db) fault files ps s1 = (Inr (), s2)"
    using upload_bulk_works [of fault] un p(4) by blast
  then have u: "upload_packs fm (tracked db) fault files ps s1 = (Inr (), s2)" by (simp add: upload_packs_def)
  obtain s3 where n: "note_uploaded db m ?us s2 = (Inr (), s3)" using statements_work(1) un by blast
  obtain b where b: "bundle_batch fm cr (nonces s3) master m index = Inr b" using bundle_batch_done un by blast
  obtain s4 where w: "put_metadata_batch fault b (s3\<lparr>nonces := nonces s3 + 2\<rparr>) = (Inr (), s4)"
    using put_metadata_batch_works [of fault] un by blast
  obtain s5 where "record_committed fm cr db m s4 = (Inr (), s5)" using statements_work(2) un by blast
  then show ?thesis using un p(1) u n b w by (simp add: commit_bundle_def seal_batch_def)
qed

section \<open>Properties\<close>

text \<open>A commit fails before it writes metadata, or its outcome is that of writing the metadata.\<close>

lemma commit_outcome:
  assumes run: "commit_bundle fm cr fault root_fails db files master m pack_files index s = (r, s')"
    and new: "remote s (marker_of m) = None"
  shows "remote s' (marker_of m) = None \<and> \<not> is_ok r \<or>
    (\<exists>us s0 x s1 n b r2 s2. pending_uploads (tracked db) files (pack_uploads pack_files) s = (Inr us, s0) \<and>
      upload_packs fm (tracked db) fault files us s0 = (Inr x, s1) \<and> bundle_batch fm cr n master m index = Inr b \<and>
      (\<exists>s1'. remote s1' = remote s1 \<and> put_metadata_batch fault b s1' = (r2, s2)) \<and> remote s' = remote s2 \<and> (is_ok r \<longrightarrow> is_ok r2))"
proof -
  let ?us = "pack_uploads pack_files"
  have keep: "remote t' (marker_of m) = None" if "outside (range pack_remote_key) t t'" "remote t (marker_of m) = None" for t t'
    using marker_kept [OF that(1)] that(2) by simp
  from run [unfolded commit_bundle_def] show ?thesis
  proof (cases rule: sbind_cases)
    case (failed e)
    then show ?thesis using new by (auto split: if_splits)
  next
    case (went x0 sx)
    then have sx: "sx = s" by (auto split: if_splits)
    from went(2) show ?thesis
    proof (cases rule: sbind_cases)
      case (failed e)
      then show ?thesis using keep [OF leavesD [OF frame_pending failed(1)]] new sx by simp
    next
      case (went us s0)
      have p: "pending_uploads (tracked db) files ?us s = (Inr us, s0)" using went(1) sx by simp
      have n0: "remote s0 (marker_of m) = None" using keep [OF leavesD [OF frame_pending p]] new by simp
      have sub: "snd ` set us \<subseteq> range pack_remote_key"
        by (rule order_trans [OF image_mono [OF pending_uploads_subset [OF p]] pack_keys])
      from went(2) show ?thesis
      proof (cases rule: sbind_cases)
        case (failed e)
        then show ?thesis using keep [OF leavesD [OF frame_upload_packs [OF sub] failed(1)] n0] by simp
      next
        case (went x s1)
        note up = went(1)
        have n1: "remote s1 (marker_of m) = None" by (rule keep [OF leavesD [OF frame_upload_packs [OF sub] up] n0])
        from went(2) show ?thesis
        proof (cases rule: sbind_cases)
          case (failed e)
          then show ?thesis using keep [OF leavesD [OF frame_note failed(1)] n1] by simp
        next
          case (went y s3)
          have s3: "remote s3 = remote s1" using leavesD [OF frame_note went(1), of "{}"] by (auto simp: outside_def)
          from went(2) show ?thesis
          proof (cases rule: sbind_cases)
            case (failed e)
            then show ?thesis using n1 s3 by (auto simp: seal_batch_def)
          next
            case (went b s4)
            have b: "bundle_batch fm cr (nonces s3) master m index = Inr b" and s4: "remote s4 = remote s1"
              using went(1) s3 by (auto simp: seal_batch_def)
            obtain r2 s2 where w: "put_metadata_batch fault b s4 = (r2, s2)" by fastforce
            have "remote s' = remote s2 \<and> (is_ok r \<longrightarrow> is_ok r2)"
              using went(2) w leavesD [OF frame_record, of fm cr db m _ _ _ "{}"]
              by (cases rule: sbind_cases) (auto simp: outside_def)
            then show ?thesis using p up b s4 w by blast
          qed
        qed
      qed
    qed
  qed
qed

lemma commit_success_frame:
  assumes "commit_bundle fm cr fault root_fails db files master m pack_files index s = (r, s')" "is_ok r"
    and new: "remote s (marker_of m) = None"
  shows "outside (range pack_remote_key \<union> range (\<lambda>x. bundle_dir (man_app m) (man_bundle m) @ x)) s s'"
proof -
  let ?K = "range pack_remote_key \<union> range (\<lambda>x. bundle_dir (man_app m) (man_bundle m) @ x)"
  from commit_outcome [OF assms(1) new] show ?thesis
  proof (elim disjE exE conjE)
    assume "\<not> is_ok r"
    then show ?thesis using assms(2) by simp
  next
    fix us s0 x s1 n b r2 s2 s1'
    assume p: "pending_uploads (tracked db) files (pack_uploads pack_files) s = (Inr us, s0)"
      and u: "upload_packs fm (tracked db) fault files us s0 = (Inr x, s1)" and b: "bundle_batch fm cr n master m index = Inr b"
      and s1': "remote s1' = remote s1" and w: "put_metadata_batch fault b s1' = (r2, s2)" and s2: "remote s' = remote s2"
    have "snd ` set us \<subseteq> ?K" using order_trans [OF image_mono [OF pending_uploads_subset [OF p]] pack_keys] by blast
    then have "outside ?K s0 s1" by (rule leavesD [OF frame_upload_packs u])
    moreover have "outside ?K s s0" by (rule leavesD [OF frame_pending p])
    moreover have "outside ?K s1' s2"
    proof -
      obtain c where mk: "batch_committed b = Some (marker_of m, c)" using bundle_batch_shape [OF b] by blast
      have none: "remote s1' (marker_of m) = None" using marker_absent [OF p u new] s1' by simp
      have "fst ` set (batch_entries b) \<subseteq> ?K" using bundle_batch_shape [OF b] by (auto split: option.splits)
      then have "insert (marker_of m) (fst ` set (batch_entries b)) \<subseteq> ?K" by blast
      then show ?thesis by (rule outside_mono [OF put_metadata_batch_marker(3) [OF w mk batch_keys(1,2) [OF b] none]])
    qed
    ultimately show ?thesis using s1' s2 by (simp add: outside_def)
  qed
qed

lemma commit_visibility_cases:
  assumes "crypto_laws cr" "format_laws fm" "commit_ready db files m pack_files index s"
    and "commit_bundle fm cr fault root_fails db files master m pack_files index s = (r, s')"
  shows "(remote s' (marker_of m) \<noteq> None \<longrightarrow> bundle_complete fm cr master files m pack_files index s') \<and>
    (is_ok r \<longrightarrow> remote s' (marker_of m) \<noteq> None)"
proof -
  let ?mk = "marker_of m"
  have new: "remote s ?mk = None" and ix: "case index of None \<Rightarrow> True | Some ix \<Rightarrow> \<not> prefix DOCUMENT_MAGIC ix"
    using assms(3) by (simp_all add: commit_ready_def)
  from commit_outcome [OF assms(4) new] show ?thesis
  proof (elim disjE exE conjE)
    assume "remote s' ?mk = None" "\<not> is_ok r"
    then show ?thesis by simp
  next
    fix us s0 x s1 n b r2 s2 s1'
    assume p: "pending_uploads (tracked db) files (pack_uploads pack_files) s = (Inr us, s0)"
      and u: "upload_packs fm (tracked db) fault files us s0 = (Inr x, s1)"
      and b: "bundle_batch fm cr n master m index = Inr b"
      and s1': "remote s1' = remote s1" and w: "put_metadata_batch fault b s1' = (r2, s2)"
      and s2: "remote s' = remote s2" and r: "is_ok r \<longrightarrow> is_ok r2"
    have new1: "remote s1' ?mk = None" using marker_absent [OF p u new] s1' by simp
    have "bundle_complete fm cr master files m pack_files index s'" if "remote s' ?mk \<noteq> None"
    proof -
      have "bundle_complete fm cr master files m pack_files index s2"
        using visible_bundle_complete [OF assms(1,2) ix b w new1, of pack_files files] uploads_present [OF assms(3) p u] that s2 s1'
        by simp
      then show ?thesis unfolding bundle_complete_remote [OF s2] .
    qed
    moreover have "remote s' ?mk \<noteq> None" if "is_ok r"
    proof -
      obtain c where mk: "batch_committed b = Some (?mk, c)" using bundle_batch_shape [OF b] by blast
      have "r2 = Inr ()" using r that by (cases r2) auto
      then show ?thesis using put_metadata_batch_marker(2) [OF w mk batch_keys(1,2) [OF b] new1] s2 by simp
    qed
    ultimately show ?thesis by blast
  qed
qed

text \<open>C6: an incomplete bundle is never visible. Whatever write or database statement fails while a bundle with
  fresh identifiers is committed, and wherever the process dies, afterwards either the marker is
  absent and reading the bundle reports an incomplete commit, or the bundle is complete: its manifest
  reads back as the one committed, every pack of the backup is stored with the bytes of its local
  file, and the pack index reads back. A commit that reports success has made the bundle visible, and
  when nothing fails it reports success.\<close>

theorem incomplete_bundle_invisible:
  assumes "crypto_laws cr" "format_laws fm" "commit_ready db files m pack_files index s"
    and "commit_bundle fm cr fault root_fails db files master m pack_files index s = (r, s')"
  shows "(if remote s' (marker_of m) = None
          then read_committed_manifest fm cr master (man_app m) (man_bundle m) s' = Inl IncompleteCommit
          else bundle_complete fm cr master files m pack_files index s') \<and>
    (is_ok r \<longrightarrow> remote s' (marker_of m) \<noteq> None) \<and>
    (unhindered fm cr fault root_fails db files m pack_files index s \<longrightarrow> is_ok r)"
proof -
  have "unhindered fm cr fault root_fails db files m pack_files index s \<longrightarrow> is_ok r"
    using commit_bundle_works [of fm cr fault root_fails db files m pack_files index s master] assms(4) by auto
  moreover have "read_committed_manifest fm cr master (man_app m) (man_bundle m) s' = Inl IncompleteCommit"
    if "remote s' (marker_of m) = None" using that by (simp add: read_committed_manifest_def Let_def)
  ultimately show ?thesis using commit_visibility_cases [OF assms] by simp
qed

section \<open>A concrete store\<close>

text \<open>A manifest format for evaluation: each byte of a field is preceded by 1, a field ends with 0.\<close>

definition plain_field :: "bytes \<Rightarrow> bytes" where
  "plain_field bs = concat (map (\<lambda>b. [1, b]) bs) @ [0]"

fun read_field :: "bytes \<Rightarrow> bytes \<times> bytes" where
  "read_field (a # b # r) = (if a = 1 then (case read_field r of (x, rest) \<Rightarrow> (b # x, rest)) else ([], b # r))"
| "read_field _ = ([], [])"

definition of_bytes :: "bytes \<Rightarrow> string" where
  "of_bytes bs = map (\<lambda>b. char_of (unat b)) bs"

fun read_fields :: "nat \<Rightarrow> bytes \<Rightarrow> bytes list" where
  "read_fields (Suc n) (b # bs) = (case read_field (b # bs) of (f, rest) \<Rightarrow> f # read_fields n rest)"
| "read_fields _ _ = []"

text \<open>Numbers are written in unary, an absent value as the empty field.\<close>

definition opt_field :: "('a \<Rightarrow> bytes) \<Rightarrow> 'a option \<Rightarrow> bytes" where
  "opt_field f x = (case x of None \<Rightarrow> [] | Some y \<Rightarrow> 1 # f y)"

definition opt_value :: "(bytes \<Rightarrow> 'a) \<Rightarrow> bytes \<Rightarrow> 'a option" where
  "opt_value g bs = (case bs of [] \<Rightarrow> None | _ # r \<Rightarrow> Some (g r))"

definition launchers :: "launcher_kind list" where
  "launchers = [Steam, Proton, Wine, Bottles, Heroic, Lutris, Flatpak, Snap, Native, AppImage, CustomLauncher]"

definition modes :: "bundle_mode list" where
  "modes = [PersonalState, CompleteApplication, CustomMode]"

definition unary :: "nat \<Rightarrow> bytes" where
  "unary n = replicate n 0"

definition place :: "'a list \<Rightarrow> 'a \<Rightarrow> bytes" where
  "place xs x = unary (length (takeWhile (\<lambda>y. y \<noteq> x) xs))"

definition int_field :: "int \<Rightarrow> bytes" where
  "int_field i = (if i < 0 then 1 else 0) # unary (nat \<bar>i\<bar>)"

definition int_value :: "bytes \<Rightarrow> int" where
  "int_value bs = (if hd bs = 1 then - int (length (tl bs)) else int (length (tl bs)))"

definition app_fields :: "manifest_app \<Rightarrow> bytes list" where
  "app_fields a =
     [as_bytes (ma_app a), as_bytes (ma_name a), opt_field as_bytes (ma_desktop a), opt_field unary (ma_steam a),
      opt_field (place launchers) (ma_launcher a), opt_field as_bytes (ma_executable a), opt_field as_bytes (ma_icon a),
      unary (length (ma_aliases a))] @ map as_bytes (ma_aliases a)"

definition manifest_fields :: "bundle_manifest \<Rightarrow> bytes list" where
  "manifest_fields m =
     (let src = man_source m in
      [as_bytes (man_bundle m), as_bytes (man_commit m), opt_field as_bytes (man_parent m), as_bytes (src_instance src),
       as_bytes (src_image src), int_field (src_captured src), place modes (man_mode m), man_rest m,
       unary (length (man_files m))] @ map (\<lambda>f. unary (unat (mf_size f))) (man_files m) @ map mf_rest (man_files m)
      @ app_fields (man_identity m))"

definition plain_json :: "bundle_manifest \<Rightarrow> bytes" where
  "plain_json m = 123 # concat (map plain_field (manifest_fields m))"

definition read_app :: "bytes list \<Rightarrow> manifest_app" where
  "read_app ts =
     \<lparr>ma_app = of_bytes (ts ! 0), ma_name = of_bytes (ts ! 1), ma_aliases = map of_bytes (drop 8 ts),
      ma_desktop = opt_value of_bytes (ts ! 2), ma_steam = opt_value length (ts ! 3),
      ma_launcher = opt_value (\<lambda>b. launchers ! length b) (ts ! 4), ma_executable = opt_value of_bytes (ts ! 5),
      ma_icon = opt_value of_bytes (ts ! 6)\<rparr>"

definition plain_parse :: "bytes \<Rightarrow> bundle_manifest option" where
  "plain_parse bs =
     (let ts = read_fields (length bs) (tl bs); n = length (ts ! 8); fs = drop 9 ts in
      Some \<lparr>man_bundle = of_bytes (ts ! 0), man_commit = of_bytes (ts ! 1), man_parent = opt_value of_bytes (ts ! 2),
        man_identity = read_app (drop (n + n) fs),
        man_source = \<lparr>src_instance = of_bytes (ts ! 3), src_image = of_bytes (ts ! 4), src_captured = int_value (ts ! 5)\<rparr>,
        man_mode = modes ! length (ts ! 6),
        man_files = map2 (\<lambda>k r. \<lparr>mf_size = of_nat (length k), mf_rest = r\<rparr>) (take n fs) (take n (drop n fs)),
        man_rest = ts ! 7\<rparr>)"

definition plain_formats :: formats where
  "plain_formats = \<lparr>doc_compress = Some, doc_decompress = Some, manifest_json = plain_json, manifest_parse = plain_parse,
     index_parse = (\<lambda>_. Some []), show_error = (\<lambda>_. [])\<rparr>"

lemma read_plain_field: "read_field (plain_field bs @ rest) = (bs, rest)"
  by (induction bs) (cases rest; simp add: plain_field_def)+

lemma of_as_bytes: "of_bytes (as_bytes s) = s"
  by (induction s) (simp_all add: of_bytes_def as_bytes_def unat_of_char)

lemma read_fields_concat: "length ts \<le> n \<Longrightarrow> read_fields n (concat (map plain_field ts)) = ts"
proof (induction ts arbitrary: n)
  case (Cons t ts)
  obtain k where n: "n = Suc k" using Cons.prems by (cases n) auto
  obtain b bs where "plain_field t @ concat (map plain_field ts) = b # bs"
    by (cases "plain_field t @ concat (map plain_field ts)") (auto simp: plain_field_def)
  then show ?case using Cons read_plain_field [of t "concat (map plain_field ts)"] by (simp add: n)
qed (cases n; simp)

lemma length_plain_field: "length (plain_field bs) = 2 * length bs + 1"
  by (induction bs) (simp_all add: plain_field_def)

lemma length_plain_fields: "length ts \<le> length (concat (map plain_field ts))"
  by (induction ts) (auto simp: plain_field_def)

lemma opt_field_inverse: "(\<And>y. g (f y) = y) \<Longrightarrow> opt_value g (opt_field f x) = x"
  by (cases x) (simp_all add: opt_field_def opt_value_def)

lemma place_inverse: "launchers ! length (place launchers k) = k" "modes ! length (place modes md) = md"
  by (cases k; simp add: launchers_def place_def unary_def) (cases md; simp add: modes_def place_def unary_def)

lemma int_field_inverse: "int_value (int_field i) = i"
  by (simp add: int_value_def int_field_def unary_def)

lemma read_app_fields: "read_app (app_fields a) = a"
  by (simp add: read_app_def app_fields_def opt_field_inverse of_as_bytes unary_def place_inverse comp_def)

lemma manifest_files_inverse:
  "map2 (\<lambda>k r. \<lparr>mf_size = of_nat (length k), mf_rest = r\<rparr>) (map (\<lambda>f. unary (unat (mf_size f))) fs) (map mf_rest fs) = fs"
  by (induction fs) (simp_all add: unary_def)

lemma plain_parse_json: "plain_parse (plain_json m) = Some m"
proof -
  have "read_fields (length (plain_json m)) (tl (plain_json m)) = manifest_fields m"
    using length_plain_fields [of "manifest_fields m"] by (simp add: plain_json_def read_fields_concat)
  then show ?thesis
    by (simp add: plain_parse_def manifest_fields_def Let_def opt_field_inverse of_as_bytes int_field_inverse place_inverse
        manifest_files_inverse read_app_fields unary_def [of "length xs" for xs] del: drop_drop)
qed

lemma plain_formats_laws: "format_laws plain_formats"
  using plain_parse_json by (simp add: format_laws_def plain_formats_def plain_json_def DOCUMENT_MAGIC_def as_bytes_def)

definition sample_app :: manifest_app where
  "sample_app = \<lparr>ma_app = ''steam:42'', ma_name = ''Game'', ma_aliases = [''g''], ma_desktop = None, ma_steam = Some 42,
     ma_launcher = Some Steam, ma_executable = None, ma_icon = None\<rparr>"

definition one_manifest :: bundle_manifest where
  "one_manifest = \<lparr>man_bundle = ''b'', man_commit = ''c'', man_parent = None, man_identity = sample_app,
     man_source = \<lparr>src_instance = ''i'', src_image = ''img'', src_captured = 3\<rparr>, man_mode = CompleteApplication,
     man_files = [\<lparr>mf_size = 10, mf_rest = []\<rparr>], man_rest = [9]\<rparr>"

definition empty_store :: store where
  "empty_store = \<lparr>remote = (\<lambda>_. None), calls = 0, nonces = 0, jdb = empty_journal\<rparr>"

definition one_commit :: "(nat \<Rightarrow> write_outcome) \<Rightarrow> (state_error, unit) result \<times> store" where
  "one_commit fault = commit_bundle plain_formats plain_crypto fault False (Some (sample_env\<lparr>stmt_fails := \<lambda>_. False\<rparr>, Some ''op''))
     sample_files [1] one_manifest [(''a'', ''a.pack'')] (Some [91, 93]) empty_store"

abbreviation one_db :: db_handle where
  "one_db \<equiv> Some (sample_env\<lparr>stmt_fails := \<lambda>_. False\<rparr>, Some ''op'')"

lemma one_ready: "commit_ready one_db sample_files one_manifest [(''a'', ''a.pack'')] (Some [91, 93]) empty_store"
  by (simp add: commit_ready_def empty_store_def pack_uploads_def upload_ready_def tracked_def item_done_def empty_journal_def
      DOCUMENT_MAGIC_def as_bytes_def)

lemma one_unhindered:
  "unhindered plain_formats plain_crypto (\<lambda>_. Done) False one_db sample_files one_manifest [(''a'', ''a.pack'')] (Some [91, 93]) empty_store"
proof -
  have "length (plain_json one_manifest) < 2 ^ 32"
    by (simp add: plain_json_def one_manifest_def manifest_fields_def app_fields_def sample_app_def length_plain_field
        as_bytes_def opt_field_def place_def unary_def int_field_def launchers_def modes_def)
  then show ?thesis using plain_crypto_laws(2)
    by (simp add: unhindered_def formats_total_def small_documents_def plain_formats_def pack_uploads_def sample_files_def tracked_def
        journal_fits_def empty_store_def empty_journal_def journal_ok_def rows_ok_def weight_def file_bytes_def)
qed

theorem incomplete_bundle_invisible_witness:
  "crypto_laws plain_crypto \<and> format_laws plain_formats \<and>
   bundle_complete plain_formats plain_crypto [1] sample_files one_manifest [(''a'', ''a.pack'')] (Some [91, 93]) (snd (one_commit (\<lambda>_. Done)))"
proof -
  have run: "one_commit (\<lambda>_. Done) = (fst (one_commit (\<lambda>_. Done)), snd (one_commit (\<lambda>_. Done)))" by simp
  from incomplete_bundle_invisible [OF plain_crypto_laws(1) plain_formats_laws one_ready run [unfolded one_commit_def]] one_unhindered
  show ?thesis using plain_crypto_laws(1) plain_formats_laws by (auto simp: one_commit_def split: if_splits)
qed

end
