(* ===== verification/Catalog.thy ===== *)
theory Catalog
  imports Bundle_Commit Rust_Path
begin

text \<open>
  The catalog of backups: the document of \<^verbatim>\<open>noland-state-core/src/catalog.rs\<close> with its bundle heads, and how
  \<^verbatim>\<open>noland-storage/src/commit.rs\<close> writes it to shared storage under a new identifier, points \<^verbatim>\<open>LATEST\<close> to it, and finds it
  again. The JSON form, the order in which the provider lists keys, fresh identifiers and the clock are parameters.
\<close>

section \<open>The document\<close>

record catalog_bundle =
  cb_bundle :: string
  cb_commit :: string
  cb_parent :: "string option"
  cb_captured :: int
  cb_instance :: string
  cb_mode :: bundle_mode
  cb_logical :: nat
  cb_stored :: nat

record catalog_app =
  ca_app :: string
  ca_name :: string
  ca_aliases :: "string list"
  ca_desktop :: "string option"
  ca_steam :: "nat option"
  ca_launcher :: "launcher_kind option"
  ca_executable :: "string option"
  ca_icon :: "string option"
  ca_latest :: string
  ca_complete :: "string option"
  ca_personal :: "string option"
  ca_complete_at :: "int option"
  ca_personal_at :: "int option"
  ca_bundles :: "catalog_bundle list"

record seal_app_commit =
  seal_app :: string
  seal_bundle :: string
  seal_commit :: string

record catalog_instance =
  ci_instance :: string
  ci_image :: string
  ci_seal :: "seal_app_commit option"

record catalog_document =
  cd_schema :: nat
  cd_commit :: string
  cd_created :: int
  cd_heads :: "string list"
  cd_apps :: "catalog_app list"
  cd_instances :: "catalog_instance list"

definition empty_catalog :: "string \<Rightarrow> int \<Rightarrow> catalog_document" where
  "empty_catalog uuid t = \<lparr>cd_schema = 1, cd_commit = uuid, cd_created = t, cd_heads = [], cd_apps = [], cd_instances = []\<rparr>"

text \<open>\<^verbatim>\<open>max_by_key\<close> keeps the last of several maxima.\<close>

fun latest_captured :: "catalog_bundle option \<Rightarrow> catalog_bundle list \<Rightarrow> catalog_bundle option" where
  "latest_captured best [] = best"
| "latest_captured None (b # bs) = latest_captured (Some b) bs"
| "latest_captured (Some a) (b # bs) = latest_captured (Some (if cb_captured a \<le> cb_captured b then b else a)) bs"

definition latest_bundle_for_mode :: "catalog_bundle list \<Rightarrow> bundle_mode \<Rightarrow> catalog_bundle option" where
  "latest_bundle_for_mode bs md = latest_captured None (filter (\<lambda>b. cb_mode b = md) bs)"

definition latest_nonempty_complete_bundle :: "catalog_bundle list \<Rightarrow> catalog_bundle option" where
  "latest_nonempty_complete_bundle bs =
     (case latest_bundle_for_mode bs CompleteApplication of
        None \<Rightarrow> None
      | Some b \<Rightarrow> if cb_logical b > 0 then Some b else None)"

definition refresh_app :: "catalog_app \<Rightarrow> catalog_app" where
  "refresh_app a =
     (let c = latest_nonempty_complete_bundle (ca_bundles a); p = latest_bundle_for_mode (ca_bundles a) PersonalState in
      a\<lparr>ca_complete := map_option cb_bundle c, ca_complete_at := map_option cb_captured c,
        ca_personal := map_option cb_bundle p, ca_personal_at := map_option cb_captured p\<rparr>)"

definition refresh_bundle_heads :: "catalog_document \<Rightarrow> catalog_document" where
  "refresh_bundle_heads d = d\<lparr>cd_apps := map refresh_app (cd_apps d)\<rparr>"

definition restorable_bundle_id :: "catalog_app \<Rightarrow> string option" where
  "restorable_bundle_id a =
     (case ca_complete a of
        Some b \<Rightarrow> Some b
      | None \<Rightarrow> map_option cb_bundle (latest_nonempty_complete_bundle (ca_bundles a)))"

text \<open>\<^verbatim>\<open>app_mut\<close>: the first application with the identifier is changed.\<close>

fun update_first :: "('a \<Rightarrow> bool) \<Rightarrow> ('a \<Rightarrow> 'a) \<Rightarrow> 'a list \<Rightarrow> 'a list" where
  "update_first P f [] = []"
| "update_first P f (x # xs) = (if P x then f x # xs else x # update_first P f xs)"

definition add_bundle :: "string \<Rightarrow> catalog_bundle \<Rightarrow> catalog_app \<Rightarrow> catalog_app" where
  "add_bundle nm b a =
     refresh_app (a\<lparr>ca_name := nm, ca_latest := cb_bundle b,
       ca_bundles := (if list_ex (\<lambda>x. cb_commit x = cb_commit b) (ca_bundles a) then ca_bundles a else ca_bundles a @ [b])\<rparr>)"

definition new_app :: "string \<Rightarrow> string \<Rightarrow> catalog_bundle \<Rightarrow> catalog_app" where
  "new_app app nm b =
     \<lparr>ca_app = app, ca_name = nm, ca_aliases = [], ca_desktop = None, ca_steam = None, ca_launcher = None,
      ca_executable = None, ca_icon = None, ca_latest = cb_bundle b,
      ca_complete = (if cb_mode b = CompleteApplication \<and> cb_logical b > 0 then Some (cb_bundle b) else None),
      ca_personal = (if cb_mode b = PersonalState then Some (cb_bundle b) else None),
      ca_complete_at = (if cb_mode b = CompleteApplication \<and> cb_logical b > 0 then Some (cb_captured b) else None),
      ca_personal_at = (if cb_mode b = PersonalState then Some (cb_captured b) else None),
      ca_bundles = [b]\<rparr>"

definition upsert_bundle :: "string \<Rightarrow> string \<Rightarrow> catalog_bundle \<Rightarrow> catalog_document \<Rightarrow> catalog_document" where
  "upsert_bundle app nm b d =
     (if list_ex (\<lambda>a. ca_app a = app) (cd_apps d)
      then d\<lparr>cd_apps := update_first (\<lambda>a. ca_app a = app) (add_bundle nm b) (cd_apps d)\<rparr>
      else d\<lparr>cd_apps := cd_apps d @ [new_app app nm b],
             cd_heads := (if list_ex (\<lambda>h. h = app) (cd_heads d) then cd_heads d else cd_heads d @ [app])\<rparr>)"

definition add_alias :: "string \<Rightarrow> string list \<Rightarrow> string list" where
  "add_alias al xs = (if list_ex (\<lambda>x. x = al) xs then xs else xs @ [al])"

definition or_keep :: "'a option \<Rightarrow> 'a option \<Rightarrow> 'a option" where
  "or_keep new old = (if new \<noteq> None then new else old)"

definition merge_app :: "manifest_app \<Rightarrow> catalog_app \<Rightarrow> catalog_app" where
  "merge_app m a =
     a\<lparr>ca_aliases := fold add_alias (ma_aliases m) (ca_aliases a), ca_desktop := or_keep (ma_desktop m) (ca_desktop a),
       ca_steam := or_keep (ma_steam m) (ca_steam a), ca_launcher := or_keep (ma_launcher m) (ca_launcher a),
       ca_executable := or_keep (ma_executable m) (ca_executable a), ca_icon := or_keep (ma_icon m) (ca_icon a)\<rparr>"

definition upsert_bundle_from_manifest :: "manifest_app \<Rightarrow> catalog_bundle \<Rightarrow> catalog_document \<Rightarrow> catalog_document" where
  "upsert_bundle_from_manifest m b d =
     (let d1 = upsert_bundle (ma_app m) (ma_name m) b d in
      d1\<lparr>cd_apps := update_first (\<lambda>a. ca_app a = ma_app m) (merge_app m) (cd_apps d1)\<rparr>)"

definition divergent_heads :: "string \<Rightarrow> catalog_document \<Rightarrow> string list" where
  "divergent_heads app d =
     (case List.find (\<lambda>a. ca_app a = app) (cd_apps d) of
        None \<Rightarrow> []
      | Some a \<Rightarrow>
          let children = List.map_filter cb_parent (ca_bundles a) in
          map cb_bundle (filter (\<lambda>b. cb_bundle b \<notin> set children) (ca_bundles a)))"

section \<open>Storing and finding it\<close>

definition catalog_commit_key :: "string \<Rightarrow> string" where
  "catalog_commit_key cid = ''catalog/commits/'' @ cid @ ''.enc''"

definition catalog_marker_key :: "string \<Rightarrow> string" where
  "catalog_marker_key cid = ''catalog/commits/'' @ cid @ ''.'' @ COMMITTED_MARKER"

definition catalog_latest_key :: string where "catalog_latest_key = ''catalog/LATEST''"

record catalog_env =
  doc_json :: "catalog_document \<Rightarrow> bytes"
  doc_parse :: "bytes \<Rightarrow> catalog_document option"
  utf8 :: "bytes \<Rightarrow> string option"
  listing :: "(string \<rightharpoonup> bytes) \<Rightarrow> string list option"
  fresh_id :: string
  time_now :: int

definition fetch_catalog_commit :: "catalog_env \<Rightarrow> formats \<Rightarrow> crypto \<Rightarrow> bytes \<Rightarrow> store \<Rightarrow> string \<Rightarrow> (state_error, catalog_document) result" where
  "fetch_catalog_commit env fm cr master s cid =
     res_bind (ok_or Io (remote s (''catalog/commits/'' @ cid @ ''.enc''))) (\<lambda>bs.
     res_bind (open_document fm cr (catalog_key (derive_keys cr master)) ''catalog'' bs) (\<lambda>json.
     ok_or JsonError (doc_parse env json)))"

text \<open>\<^verbatim>\<open>Path::file_stem\<close> of a key: the last component without its last extension.\<close>

definition file_stem :: "string \<Rightarrow> string" where
  "file_stem k =
     (let n = List.last (split_on (CHR ''/'') k); r = dropWhile (\<lambda>c. c \<noteq> CHR ''.'') (rev n) in
      if length r \<le> 1 then n else rev (tl r))"

fun recover_loop ::
  "catalog_env \<Rightarrow> formats \<Rightarrow> crypto \<Rightarrow> bytes \<Rightarrow> store \<Rightarrow> catalog_document option \<Rightarrow> string list \<Rightarrow> catalog_document option" where
  "recover_loop env fm cr master s best [] = best"
| "recover_loop env fm cr master s best (k # ks) =
     (if \<not> suffix ''.enc'' k then recover_loop env fm cr master s best ks
      else case fetch_catalog_commit env fm cr master s (file_stem k) of
        Inl e \<Rightarrow> recover_loop env fm cr master s best ks
      | Inr d \<Rightarrow> recover_loop env fm cr master s
          (case best of None \<Rightarrow> Some d | Some b \<Rightarrow> if cd_created d > cd_created b then Some d else Some b) ks)"

definition recover_latest_catalog :: "catalog_env \<Rightarrow> formats \<Rightarrow> crypto \<Rightarrow> bytes \<Rightarrow> store \<Rightarrow> catalog_document" where
  "recover_latest_catalog env fm cr master s =
     (let ks = (case listing env (remote s) of None \<Rightarrow> [] | Some ks \<Rightarrow> ks) in
      case recover_loop env fm cr master s None ks of
        None \<Rightarrow> empty_catalog (fresh_id env) (time_now env)
      | Some d \<Rightarrow> d)"

definition load_catalog :: "catalog_env \<Rightarrow> formats \<Rightarrow> crypto \<Rightarrow> bytes \<Rightarrow> store \<Rightarrow> catalog_document" where
  "load_catalog env fm cr master s =
     (case remote s catalog_latest_key of
        None \<Rightarrow> empty_catalog (fresh_id env) (time_now env)
      | Some ptr \<Rightarrow>
          let cid = trim (case utf8 env ptr of None \<Rightarrow> [] | Some txt \<Rightarrow> txt) in
          refresh_bundle_heads
            (if cid = [] then recover_latest_catalog env fm cr master s
             else case fetch_catalog_commit env fm cr master s cid of
               Inl e \<Rightarrow> recover_latest_catalog env fm cr master s
             | Inr d \<Rightarrow> d))"

definition seal_catalog :: "catalog_env \<Rightarrow> formats \<Rightarrow> crypto \<Rightarrow> bytes \<Rightarrow> catalog_document \<Rightarrow> (store, bytes) sop" where
  "seal_catalog env fm cr master d s =
     (sealed_document fm cr (nonces s) (catalog_key (derive_keys cr master)) ''catalog'' (doc_json env d), s\<lparr>nonces := nonces s + 1\<rparr>)"

definition write_catalog ::
  "catalog_env \<Rightarrow> formats \<Rightarrow> crypto \<Rightarrow> (nat \<Rightarrow> write_outcome) \<Rightarrow> bytes \<Rightarrow> catalog_document \<Rightarrow> (store, unit) sop" where
  "write_catalog env fm cr fault master d =
     sbind (seal_catalog env fm cr master d) (\<lambda>enc.
     sbind (put_metadata_batch fault
        \<lparr>batch_entries = [(catalog_commit_key (cd_commit d), enc)],
         batch_committed = Some (catalog_marker_key (cd_commit d), as_bytes COMMITTED_MARKER)\<rparr>) (\<lambda>_.
     sdrop (put_bytes fault catalog_latest_key (as_bytes (cd_commit d)))))"

definition update_catalog_with_bundle ::
  "catalog_env \<Rightarrow> formats \<Rightarrow> crypto \<Rightarrow> (nat \<Rightarrow> write_outcome) \<Rightarrow> bytes \<Rightarrow> bundle_manifest \<Rightarrow> nat \<Rightarrow> (store, catalog_document) sop" where
  "update_catalog_with_bundle env fm cr fault master m stored s =
     (if remote s (bundle_dir (man_app m) (man_bundle m) @ ''/'' @ COMMITTED_MARKER) = None then (Inl IncompleteCommit, s)
      else
        let c = load_catalog env fm cr master s;
            c' = upsert_bundle_from_manifest (man_identity m)
              \<lparr>cb_bundle = man_bundle m, cb_commit = man_commit m, cb_parent = man_parent m,
               cb_captured = src_captured (man_source m), cb_instance = src_instance (man_source m), cb_mode = man_mode m,
               cb_logical = unat (logical_size m), cb_stored = stored\<rparr>
              (c\<lparr>cd_commit := fresh_id env, cd_created := time_now env\<rparr>)
        in sbind (write_catalog env fm cr fault master c') (\<lambda>_. sret c') s)"

text \<open>Checkpoints of what the agent has learned and seals of an instance are committed the same way; \<open>json\<close> is the
  document, \<open>meta\<close> the readable summary of a checkpoint.\<close>

definition checkpoint_dir :: "string \<Rightarrow> string \<Rightarrow> string" where
  "checkpoint_dir inst cid = ''checkpoints/'' @ inst @ ''/'' @ cid"

definition seal_dir :: "string \<Rightarrow> string \<Rightarrow> string" where
  "seal_dir inst sid = ''instances/'' @ inst @ ''/seals/'' @ sid"

definition seal_metadata :: "formats \<Rightarrow> crypto \<Rightarrow> bytes \<Rightarrow> string \<Rightarrow> bytes \<Rightarrow> (store, bytes) sop" where
  "seal_metadata fm cr master aad json s =
     (sealed_document fm cr (nonces s) (catalog_key (derive_keys cr master)) aad json, s\<lparr>nonces := nonces s + 1\<rparr>)"

definition commit_checkpoint ::
  "formats \<Rightarrow> crypto \<Rightarrow> (nat \<Rightarrow> write_outcome) \<Rightarrow> bytes \<Rightarrow> string \<Rightarrow> string \<Rightarrow> bytes \<Rightarrow> bytes \<Rightarrow> (store, unit) sop" where
  "commit_checkpoint fm cr fault master inst cid json meta =
     (let d = checkpoint_dir inst cid in
      sbind (seal_metadata fm cr master ''checkpoint'' json) (\<lambda>enc.
      put_metadata_batch fault
        \<lparr>batch_entries = [(d @ ''/state.enc'', enc), (d @ ''/checkpoint.enc'', meta)],
         batch_committed = Some (d @ ''/'' @ COMMITTED_MARKER, as_bytes cid)\<rparr>))"

definition commit_seal ::
  "formats \<Rightarrow> crypto \<Rightarrow> (nat \<Rightarrow> write_outcome) \<Rightarrow> bytes \<Rightarrow> string \<Rightarrow> string \<Rightarrow> bytes \<Rightarrow> (store, unit) sop" where
  "commit_seal fm cr fault master inst sid json =
     (let d = seal_dir inst sid in
      sbind (seal_metadata fm cr master ''seal'' json) (\<lambda>enc.
      put_metadata_batch fault
        \<lparr>batch_entries = [(d @ ''/seal.enc'', enc)],
         batch_committed = Some (d @ ''/'' @ COMMITTED_MARKER, as_bytes sid)\<rparr>))"

section \<open>The document keeps its history\<close>

definition app_ok :: "catalog_app \<Rightarrow> bool" where
  "app_ok a \<longleftrightarrow> ca_bundles a \<noteq> [] \<and> distinct (map cb_commit (ca_bundles a)) \<and> refresh_app a = a"

definition catalog_ok :: "catalog_document \<Rightarrow> bool" where
  "catalog_ok d \<longleftrightarrow> distinct (map ca_app (cd_apps d)) \<and> ca_app ` set (cd_apps d) \<subseteq> set (cd_heads d) \<and> (\<forall>a \<in> set (cd_apps d). app_ok a)"

lemma latest_captured_spec:
  assumes "latest_captured best bs = r"
  shows "case r of
      None \<Rightarrow> best = None \<and> bs = []
    | Some b \<Rightarrow> b \<in> set_option best \<union> set bs \<and> (\<forall>x \<in> set_option best \<union> set bs. cb_captured x \<le> cb_captured b)"
  using assms
proof (induction best bs arbitrary: r rule: latest_captured.induct)
  case (3 a b bs)
  have "latest_captured (Some (if cb_captured a \<le> cb_captured b then b else a)) bs = r" using 3(2) by simp
  from 3(1) [OF this] show ?case by (cases r) (auto split: if_splits)
qed (auto split: option.splits)

lemma latest_bundle_spec:
  "latest_bundle_for_mode bs md = Some b \<Longrightarrow> b \<in> set bs \<and> cb_mode b = md \<and> (\<forall>x \<in> set bs. cb_mode x = md \<longrightarrow> cb_captured x \<le> cb_captured b)"
  "latest_bundle_for_mode bs md = None \<longleftrightarrow> (\<forall>x \<in> set bs. cb_mode x \<noteq> md)"
proof -
  note spec = latest_captured_spec [of None "filter (\<lambda>b. cb_mode b = md) bs", OF refl]
  show "latest_bundle_for_mode bs md = Some b \<Longrightarrow> b \<in> set bs \<and> cb_mode b = md \<and> (\<forall>x \<in> set bs. cb_mode x = md \<longrightarrow> cb_captured x \<le> cb_captured b)"
    using spec by (auto simp: latest_bundle_for_mode_def)
  have "latest_captured None [] = None" by simp
  then show "latest_bundle_for_mode bs md = None \<longleftrightarrow> (\<forall>x \<in> set bs. cb_mode x \<noteq> md)"
    using spec by (auto simp: latest_bundle_for_mode_def filter_empty_conv split: option.splits)
qed

lemma refresh_app_fields [simp]:
  "ca_app (refresh_app a) = ca_app a" "ca_latest (refresh_app a) = ca_latest a" "ca_bundles (refresh_app a) = ca_bundles a" "refresh_app (refresh_app a) = refresh_app a"
  by (simp_all add: refresh_app_def Let_def)

lemma refresh_app_complete: "ca_complete (refresh_app a) = map_option cb_bundle (latest_nonempty_complete_bundle (ca_bundles a))"
  by (simp add: refresh_app_def Let_def)

lemma restorable_spec:
  assumes "app_ok a" "restorable_bundle_id a = Some i"
  shows "\<exists>b \<in> set (ca_bundles a). cb_bundle b = i \<and> cb_mode b = CompleteApplication \<and> cb_logical b > 0 \<and>
    (\<forall>x \<in> set (ca_bundles a). cb_mode x = CompleteApplication \<longrightarrow> cb_captured x \<le> cb_captured b)"
proof -
  have "ca_complete a = map_option cb_bundle (latest_nonempty_complete_bundle (ca_bundles a))"
    using assms(1) unfolding app_ok_def by (metis refresh_app_complete)
  then show ?thesis using assms(2) latest_bundle_spec(1)
    by (fastforce simp: restorable_bundle_id_def latest_nonempty_complete_bundle_def split: option.splits if_splits)
qed

lemma update_first_map: "distinct (map ca_app as) \<Longrightarrow> update_first (\<lambda>a. ca_app a = app) f as = map (\<lambda>a. if ca_app a = app then f a else a) as"
proof (induction as)
  case (Cons a as)
  then show ?case by (auto simp: rev_image_eqI intro!: map_idI [symmetric])
qed simp

lemma add_bundle_fields:
  "ca_app (add_bundle nm b a) = ca_app a"
  "ca_bundles (add_bundle nm b a) = (if cb_commit b \<in> cb_commit ` set (ca_bundles a) then ca_bundles a else ca_bundles a @ [b])"
  "ca_latest (add_bundle nm b a) = cb_bundle b"
  by (auto simp: add_bundle_def list_ex_iff image_iff intro: sym)

lemma add_bundle_ok:
  assumes "app_ok a"
  shows "app_ok (add_bundle nm b a)"
proof -
  have "refresh_app (add_bundle nm b a) = add_bundle nm b a" by (simp add: add_bundle_def)
  then show ?thesis using assms by (auto simp: app_ok_def add_bundle_fields)
qed

lemma merge_app_fields:
  "ca_app (merge_app m a) = ca_app a" "ca_bundles (merge_app m a) = ca_bundles a" "ca_latest (merge_app m a) = ca_latest a"
  by (simp_all add: merge_app_def)

lemma refresh_merge: "refresh_app (merge_app m a) = merge_app m (refresh_app a)"
  by (cases a) (simp add: merge_app_def refresh_app_def Let_def)

lemma merge_app_ok: "app_ok a \<Longrightarrow> app_ok (merge_app m a)"
  by (simp add: app_ok_def refresh_merge merge_app_fields)

lemma new_app_ok: "app_ok (new_app app nm b)"
  by (auto simp: app_ok_def new_app_def refresh_app_def Let_def latest_nonempty_complete_bundle_def latest_bundle_for_mode_def)

lemma map_apps_ok:
  assumes "catalog_ok d" "\<And>a. ca_app (f a) = ca_app a" "\<And>a. app_ok a \<Longrightarrow> app_ok (f a)"
  shows "catalog_ok (d\<lparr>cd_apps := update_first (\<lambda>a. ca_app a = app) f (cd_apps d)\<rparr>)"
proof -
  have "distinct (map ca_app (cd_apps d))" using assms(1) by (simp add: catalog_ok_def)
  from update_first_map [OF this] have eq: "update_first (\<lambda>a. ca_app a = app) f (cd_apps d) = map (\<lambda>a. if ca_app a = app then f a else a) (cd_apps d)" .
  have keys: "map ca_app (map (\<lambda>a. if ca_app a = app then f a else a) (cd_apps d)) = map ca_app (cd_apps d)" using assms(2) by simp
  have "ca_app ` set (map (\<lambda>a. if ca_app a = app then f a else a) (cd_apps d)) = ca_app ` set (cd_apps d)"
    unfolding set_map [symmetric] keys ..
  then show ?thesis using assms(1,3) unfolding catalog_ok_def eq by (auto simp: keys simp del: map_map)
qed

lemma upsert_bundle_ok:
  assumes "catalog_ok d"
  shows "catalog_ok (upsert_bundle app nm b d)"
proof (cases "list_ex (\<lambda>a. ca_app a = app) (cd_apps d)")
  case True
  then show ?thesis using map_apps_ok [OF assms add_bundle_fields(1) add_bundle_ok] by (simp add: upsert_bundle_def)
next
  case False
  moreover have "ca_app (new_app app nm b) = app" by (simp add: new_app_def)
  ultimately show ?thesis using assms new_app_ok by (auto simp: upsert_bundle_def catalog_ok_def list_ex_iff)
qed

lemma upsert_manifest_ok: "catalog_ok d \<Longrightarrow> catalog_ok (upsert_bundle_from_manifest m b d)"
  unfolding upsert_bundle_from_manifest_def Let_def
  by (rule map_apps_ok [OF upsert_bundle_ok merge_app_fields(1) merge_app_ok])

text \<open>The bundles the catalog holds for an application.\<close>

definition bundles_of :: "string \<Rightarrow> catalog_document \<Rightarrow> catalog_bundle list" where
  "bundles_of app d = concat (map ca_bundles (filter (\<lambda>a. ca_app a = app) (cd_apps d)))"

lemma bundles_of_map:
  assumes "\<And>a. ca_app (f a) = ca_app a" "distinct (map ca_app (cd_apps d))"
  shows "bundles_of x (d\<lparr>cd_apps := update_first (\<lambda>a. ca_app a = app) f (cd_apps d)\<rparr>) =
    concat (map (\<lambda>a. ca_bundles (if ca_app a = app then f a else a)) (filter (\<lambda>a. ca_app a = x) (cd_apps d)))"
  unfolding bundles_of_def using assms by (simp add: update_first_map filter_map comp_def if_distrib cong: if_cong)

lemma apps_of:
  assumes "distinct (map ca_app as)"
  shows "filter (\<lambda>a. ca_app a = x) as = [] \<or> (\<exists>a \<in> set as. filter (\<lambda>a. ca_app a = x) as = [a] \<and> ca_app a = x)"
  using assms
proof (induction as)
  case (Cons a as)
  show ?case
  proof (cases "ca_app a = x")
    case True
    then have "filter (\<lambda>a. ca_app a = x) as = []" using Cons.prems by (auto simp: filter_empty_conv rev_image_eqI)
    then show ?thesis using True by simp
  next
    case False
    then show ?thesis using Cons by auto
  qed
qed simp

definition with_bundle :: "catalog_bundle \<Rightarrow> catalog_bundle list \<Rightarrow> catalog_bundle list" where
  "with_bundle b bs = (if cb_commit b \<in> cb_commit ` set bs then bs else bs @ [b])"

lemma bundles_of_upsert:
  assumes "catalog_ok d"
  shows "bundles_of x (upsert_bundle app nm b d) = (if x = app then with_bundle b (bundles_of x d) else bundles_of x d)"
proof -
  have dist: "distinct (map ca_app (cd_apps d))" using assms by (simp add: catalog_ok_def)
  show ?thesis
  proof (cases "list_ex (\<lambda>a. ca_app a = app) (cd_apps d)")
    case True
    then have "filter (\<lambda>a. ca_app a = app) (cd_apps d) \<noteq> []" by (auto simp: filter_empty_conv list_ex_iff)
    then obtain a where "filter (\<lambda>a. ca_app a = app) (cd_apps d) = [a]" "ca_app a = app" using apps_of [OF dist, of app] by blast
    then have own: "bundles_of app d = ca_bundles a" "bundles_of app (upsert_bundle app nm b d) = ca_bundles (add_bundle nm b a)"
      using True bundles_of_map [of "add_bundle nm b" d app app, OF add_bundle_fields(1) dist]
      by (simp_all add: upsert_bundle_def bundles_of_def)
    have "bundles_of x (upsert_bundle app nm b d) = bundles_of x d" if "x \<noteq> app"
    proof -
      have up: "upsert_bundle app nm b d = d\<lparr>cd_apps := update_first (\<lambda>a. ca_app a = app) (add_bundle nm b) (cd_apps d)\<rparr>"
        using True by (simp add: upsert_bundle_def)
      have same: "map (\<lambda>a. ca_bundles (if ca_app a = app then add_bundle nm b a else a)) (filter (\<lambda>a. ca_app a = x) (cd_apps d)) =
          map ca_bundles (filter (\<lambda>a. ca_app a = x) (cd_apps d))" using that by (auto intro!: map_cong)
      show ?thesis unfolding up bundles_of_map [of "add_bundle nm b" d x app, OF add_bundle_fields(1) dist] same
        by (simp only: bundles_of_def)
    qed
    then show ?thesis using own by (simp add: add_bundle_fields with_bundle_def)
  next
    case False
    then have "filter (\<lambda>a. ca_app a = app) (cd_apps d) = []" by (auto simp: filter_empty_conv list_ex_iff)
    moreover have "ca_app (new_app app nm b) = app" "ca_bundles (new_app app nm b) = [b]" by (simp_all add: new_app_def)
    ultimately show ?thesis using False by (auto simp: upsert_bundle_def bundles_of_def with_bundle_def)
  qed
qed

lemma bundles_of_upsert_manifest:
  assumes "catalog_ok d"
  shows "bundles_of x (upsert_bundle_from_manifest m b d) = (if x = ma_app m then with_bundle b (bundles_of x d) else bundles_of x d)"
proof -
  let ?d = "upsert_bundle (ma_app m) (ma_name m) b d"
  have dist: "distinct (map ca_app (cd_apps ?d))" using upsert_bundle_ok [OF assms] by (simp add: catalog_ok_def)
  have "bundles_of x (upsert_bundle_from_manifest m b d) = bundles_of x ?d"
    using bundles_of_map [of "merge_app m" ?d x "ma_app m", OF merge_app_fields(1) dist]
    by (simp add: upsert_bundle_from_manifest_def Let_def bundles_of_def merge_app_fields if_distrib cong: if_cong)
  then show ?thesis using bundles_of_upsert [OF assms] by simp
qed

text \<open>C8: the catalog never loses a bundle. Entering a bundle adds it to the history of its application, unless a bundle
  with the same commit is already there, leaves the histories of all other applications as they are, and keeps one
  entry per application with the bundle heads that follow from its history. In such a catalog the
  restorable bundle of an application is a non-empty complete bundle captured no earlier than any other complete one.\<close>

theorem catalog_keeps_history:
  assumes "catalog_ok d"
  shows "catalog_ok (upsert_bundle_from_manifest m b d) \<and>
    (\<forall>app. bundles_of app (upsert_bundle_from_manifest m b d) =
       (if app = ma_app m then with_bundle b (bundles_of app d) else bundles_of app d)) \<and>
    (\<forall>a \<in> set (cd_apps d). \<forall>i. restorable_bundle_id a = Some i \<longrightarrow>
       (\<exists>x \<in> set (ca_bundles a). cb_bundle x = i \<and> cb_mode x = CompleteApplication \<and> cb_logical x > 0 \<and>
         (\<forall>y \<in> set (ca_bundles a). cb_mode y = CompleteApplication \<longrightarrow> cb_captured y \<le> cb_captured x)))"
proof (intro conjI allI ballI impI)
  fix a i
  assume "a \<in> set (cd_apps d)" "restorable_bundle_id a = Some i"
  then show "\<exists>x \<in> set (ca_bundles a). cb_bundle x = i \<and> cb_mode x = CompleteApplication \<and> cb_logical x > 0 \<and>
      (\<forall>y \<in> set (ca_bundles a). cb_mode y = CompleteApplication \<longrightarrow> cb_captured y \<le> cb_captured x)"
    using restorable_spec assms by (simp add: catalog_ok_def)
qed (simp_all add: upsert_manifest_ok [OF assms] bundles_of_upsert_manifest [OF assms])

definition sample_bundle :: "string \<Rightarrow> int \<Rightarrow> nat \<Rightarrow> catalog_bundle" where
  "sample_bundle i t n = \<lparr>cb_bundle = i, cb_commit = i, cb_parent = None, cb_captured = t, cb_instance = ''i'',
     cb_mode = CompleteApplication, cb_logical = n, cb_stored = n\<rparr>"

definition sample_catalog :: catalog_document where
  "sample_catalog = upsert_bundle_from_manifest sample_app (sample_bundle ''old'' 1 10) (empty_catalog ''c0'' 0)"

theorem catalog_keeps_history_witness:
  "catalog_ok (upsert_bundle_from_manifest sample_app (sample_bundle ''new'' 2 20) sample_catalog) \<and>
   map cb_bundle (bundles_of ''steam:42'' (upsert_bundle_from_manifest sample_app (sample_bundle ''new'' 2 20) sample_catalog)) = [''old'', ''new'']"
proof -
  have "catalog_ok (empty_catalog ''c0'' 0)" by (simp add: catalog_ok_def empty_catalog_def)
  then have "catalog_ok sample_catalog" unfolding sample_catalog_def by (rule upsert_manifest_ok)
  note keep = catalog_keeps_history [OF this, of sample_app "sample_bundle ''new'' 2 20"]
  have "map cb_bundle (bundles_of ''steam:42'' (upsert_bundle_from_manifest sample_app (sample_bundle ''new'' 2 20) sample_catalog)) = [''old'', ''new'']"
    by code_simp
  then show ?thesis using keep by blast
qed

text \<open>An empty complete bundle hides the older, non-empty ones: the application is then not restorable.\<close>

theorem empty_bundle_hides_older:
  "map restorable_bundle_id (cd_apps sample_catalog) = [Some ''old''] \<and>
   map restorable_bundle_id (cd_apps (upsert_bundle_from_manifest sample_app (sample_bundle ''new'' 2 0) sample_catalog)) = [None]"
  by code_simp

section \<open>The stored catalog\<close>

definition uuid_text :: "string \<Rightarrow> bool" where
  "uuid_text cid \<longleftrightarrow> cid \<noteq> [] \<and> (\<forall>c \<in> set cid. is_ascii_hexdigit c \<or> c = CHR ''-'')"

text \<open>JSON of the document reads back and starts with a brace, and ASCII text is UTF-8.\<close>

definition catalog_laws :: "catalog_env \<Rightarrow> catalog_document \<Rightarrow> bool" where
  "catalog_laws env d \<longleftrightarrow>
     doc_parse env (doc_json env d) = Some d \<and> \<not> prefix DOCUMENT_MAGIC (doc_json env d) \<and>
     (\<forall>cid. uuid_text cid \<longrightarrow> utf8 env (as_bytes cid) = Some cid)"

lemma trim_id:
  assumes "\<And>w. w \<in> set whitespace_seqs \<Longrightarrow> hd w \<notin> set s"
  shows "trim s = s"
proof -
  have "\<not> prefix w s \<and> \<not> suffix w s" if w: "w \<in> set whitespace_seqs" for w
  proof -
    have "hd w \<in> set w" using whitespace_seqs_nonempty [OF w] by simp
    then show ?thesis using assms [OF w] by (auto simp: prefix_def suffix_def)
  qed
  then have "find (\<lambda>w. prefix w s) whitespace_seqs = None" "find (\<lambda>w. suffix w s) whitespace_seqs = None"
    by (simp_all add: find_None_iff)
  then show ?thesis by (simp add: trim_def trim_start.simps [of s] trim_end.simps [of s] strip_ws_start_def strip_ws_end_def)
qed

lemma uuid_trim: "uuid_text cid \<Longrightarrow> trim cid = cid"
proof (rule trim_id)
  fix w
  assume u: "uuid_text cid" and "w \<in> set whitespace_seqs"
  moreover have "list_all (\<lambda>w. \<not> is_ascii_hexdigit (hd w) \<and> hd w \<noteq> CHR ''-'') whitespace_seqs" by code_simp
  ultimately show "hd w \<notin> set cid" by (auto simp: uuid_text_def list_all_iff)
qed

lemma catalog_keys [simp]:
  "catalog_commit_key a = catalog_commit_key b \<longleftrightarrow> a = b"
  "catalog_commit_key a \<noteq> catalog_marker_key b"
  "catalog_commit_key a \<noteq> catalog_latest_key" "catalog_latest_key \<noteq> catalog_commit_key a" "catalog_latest_key \<noteq> catalog_marker_key a"
proof -
  have "List.last (catalog_commit_key a) \<noteq> List.last (catalog_marker_key b)"
    by (simp add: catalog_commit_key_def catalog_marker_key_def COMMITTED_MARKER_def)
  then show "catalog_commit_key a \<noteq> catalog_marker_key b" by auto
qed (simp_all add: catalog_commit_key_def catalog_marker_key_def catalog_latest_key_def)

lemma fetch_local:
  "remote s' (catalog_commit_key cid) = remote s (catalog_commit_key cid) \<Longrightarrow>
    fetch_catalog_commit env fm cr master s' cid = fetch_catalog_commit env fm cr master s cid"
  by (simp add: fetch_catalog_commit_def catalog_commit_key_def)

lemma fetch_present: "fetch_catalog_commit env fm cr master s cid = Inr e \<Longrightarrow> remote s (catalog_commit_key cid) \<noteq> None"
  by (cases "remote s (catalog_commit_key cid)") (simp_all add: fetch_catalog_commit_def catalog_commit_key_def)

lemma write_catalog_frame:
  "leaves (outside {catalog_commit_key (cd_commit d), catalog_marker_key (cd_commit d), catalog_latest_key})
     (write_catalog env fm cr fault master d)"
proof -
  have "leaves (outside K) (seal_catalog env fm cr master d)" for K by (simp add: leaves_def seal_catalog_def outside_def)
  then show ?thesis unfolding write_catalog_def put_metadata_batch_def
    by (intro frame_intros) (auto intro!: frame_put_bytes)
qed

lemma write_catalog_written:
  assumes "write_catalog env fm cr fault master d s = (Inr (), s')"
  obtains enc where "sealed_document fm cr (nonces s) (catalog_key (derive_keys cr master)) ''catalog'' (doc_json env d) = Inr enc"
    and "remote s' (catalog_commit_key (cd_commit d)) = Some enc"
proof -
  let ?K = "catalog_marker_key (cd_commit d)"
  obtain enc s1 s2 s3 s4 where e: "seal_catalog env fm cr master d s = (Inr enc, s1)"
    and one: "put_bytes fault (catalog_commit_key (cd_commit d)) enc s1 = (Inr (), s2)"
    and two: "put_bytes fault ?K (as_bytes COMMITTED_MARKER) s2 = (Inr (), s3)"
    and ptr: "sdrop (put_bytes fault catalog_latest_key (as_bytes (cd_commit d))) s3 = (Inr (), s4)" and s4: "s4 = s'"
    using assms unfolding write_catalog_def put_metadata_batch_def by (auto elim!: sbind_InrE)
  have "remote s2 (catalog_commit_key (cd_commit d)) = Some enc" by (rule put_bytes_written [OF one])
  moreover have "outside {?K} s2 s3" by (rule leavesD [OF frame_put_bytes two]) simp
  moreover have "outside {catalog_latest_key} s3 s'"
    using leavesD [OF leaves_sdrop [OF frame_put_bytes] ptr] s4 by simp
  ultimately have "remote s' (catalog_commit_key (cd_commit d)) = Some enc" by (simp add: outside_def)
  then show thesis using that e by (simp add: seal_catalog_def)
qed

lemma written_catalog_found:
  assumes laws: "crypto_laws cr" "format_laws fm" "catalog_laws env d" and "write_catalog env fm cr fault master d s = (Inr (), s')"
  shows "fetch_catalog_commit env fm cr master s' (cd_commit d) = Inr d"
proof -
  obtain enc where enc: "sealed_document fm cr (nonces s) (catalog_key (derive_keys cr master)) ''catalog'' (doc_json env d) = Inr enc"
    "remote s' (catalog_commit_key (cd_commit d)) = Some enc" by (rule write_catalog_written [OF assms(4)])
  have "doc_parse env (doc_json env d) = Some d" "\<not> prefix DOCUMENT_MAGIC (doc_json env d)" using laws(3) by (simp_all add: catalog_laws_def)
  then show ?thesis using sealed_document_opens [OF laws(1,2) _ enc(1)] enc(2) by (simp add: fetch_catalog_commit_def catalog_commit_key_def)
qed

lemma write_catalog_works:
  assumes "\<And>k. fault k = Done" "formats_total fm" "crypto_total cr" "length (doc_json env d) < 2 ^ 32"
  shows "\<exists>s'. write_catalog env fm cr fault master d s = (Inr (), s') \<and> remote s' catalog_latest_key = Some (as_bytes (cd_commit d))"
proof -
  obtain enc where "seal_catalog env fm cr master d s = (Inr enc, s\<lparr>nonces := nonces s + 1\<rparr>)"
    using sealed_document_done [OF assms(2-4)] by (fastforce simp: seal_catalog_def)
  then show ?thesis using assms(1) by (simp add: write_catalog_def put_metadata_batch_def sbind_def sdrop_def put_bytes_def Let_def)
qed

text \<open>C9: a stored catalog is found again. Once a catalog is written, its document can be fetched by its identifier, and
  all earlier catalogs stay as they were, whatever fails; when the pointer was written too, loading the catalog
  returns the document with its bundle heads recomputed; and when nothing fails all of it is written.\<close>

theorem catalog_round_trip:
  assumes "crypto_laws cr" "format_laws fm" "catalog_laws env d" "uuid_text (cd_commit d)"
    and "write_catalog env fm cr fault master d s = (r, s')"
  shows "(is_ok r \<longrightarrow> fetch_catalog_commit env fm cr master s' (cd_commit d) = Inr d) \<and>
    (is_ok r \<and> remote s' catalog_latest_key = Some (as_bytes (cd_commit d)) \<longrightarrow>
       load_catalog env fm cr master s' = refresh_bundle_heads d) \<and>
    (\<forall>cid. cid \<noteq> cd_commit d \<longrightarrow> fetch_catalog_commit env fm cr master s' cid = fetch_catalog_commit env fm cr master s cid) \<and>
    ((\<forall>k. fault k = Done) \<and> formats_total fm \<and> crypto_total cr \<and> length (doc_json env d) < 2 ^ 32 \<longrightarrow>
       is_ok r \<and> remote s' catalog_latest_key = Some (as_bytes (cd_commit d)))"
proof -
  have fetched: "fetch_catalog_commit env fm cr master s' (cd_commit d) = Inr d" if "is_ok r"
    using written_catalog_found [OF assms(1-3)] assms(5) that by (cases r) auto
  moreover have "load_catalog env fm cr master s' = refresh_bundle_heads d"
    if "is_ok r" "remote s' catalog_latest_key = Some (as_bytes (cd_commit d))"
    using that fetched assms(3,4) uuid_trim by (auto simp: load_catalog_def catalog_laws_def uuid_text_def)
  moreover have "fetch_catalog_commit env fm cr master s' cid = fetch_catalog_commit env fm cr master s cid" if "cid \<noteq> cd_commit d" for cid
    by (rule fetch_local) (use leavesD [OF write_catalog_frame assms(5)] that in \<open>simp add: outside_def\<close>)
  ultimately show ?thesis using write_catalog_works [of fault fm cr env d master s] assms(5) by auto
qed

definition toy_catalog_env :: catalog_env where
  "toy_catalog_env = \<lparr>doc_json = (\<lambda>_. [123, 125]), doc_parse = (\<lambda>_. Some sample_catalog), utf8 = (\<lambda>bs. Some (of_bytes bs)),
     listing = (\<lambda>_. Some [catalog_commit_key ''c0'']), fresh_id = ''f1'', time_now = 7\<rparr>"

theorem catalog_round_trip_witness:
  "catalog_laws toy_catalog_env sample_catalog \<and>
   load_catalog toy_catalog_env plain_formats plain_crypto [1]
     (snd (write_catalog toy_catalog_env plain_formats plain_crypto (\<lambda>_. Done) [1] sample_catalog empty_store)) =
   refresh_bundle_heads sample_catalog"
proof -
  let ?w = "write_catalog toy_catalog_env plain_formats plain_crypto (\<lambda>_. Done) [1] sample_catalog empty_store"
  have laws: "catalog_laws toy_catalog_env sample_catalog"
    using of_as_bytes by (auto simp: catalog_laws_def toy_catalog_env_def DOCUMENT_MAGIC_def as_bytes_def [of "''NLZ1''"])
  have id: "uuid_text (cd_commit sample_catalog)" by code_simp
  have "formats_total plain_formats" by (simp add: formats_total_def plain_formats_def)
  moreover have "length (doc_json toy_catalog_env sample_catalog) < 2 ^ 32" by (simp add: toy_catalog_env_def)
  ultimately show ?thesis
    using catalog_round_trip [OF plain_crypto_laws(1) plain_formats_laws laws id, of "\<lambda>_. Done" "[1]" empty_store "fst ?w" "snd ?w"] laws plain_crypto_laws(2)
    by simp
qed

section \<open>Recovery\<close>

lemma last_split_on:
  assumes "c \<notin> set ys"
  shows "List.last (split_on c (xs @ c # ys)) = ys"
proof -
  have "split_on c ys = [ys]" using assms by (induction ys) auto
  then show ?thesis by (simp add: split_on_append_sep)
qed

lemma file_stem_commit_key:
  assumes "uuid_text cid"
  shows "file_stem (catalog_commit_key cid) = cid"
proof -
  have "\<not> is_ascii_hexdigit (CHR ''/'')" by code_simp
  then have "CHR ''/'' \<notin> set (cid @ ''.enc'')" using assms by (auto simp: uuid_text_def)
  then have "List.last (split_on (CHR ''/'') (catalog_commit_key cid)) = cid @ ''.enc''"
    using last_split_on [of "CHR ''/''" "cid @ ''.enc''" "''catalog/commits''"] by (simp add: catalog_commit_key_def)
  then show ?thesis using assms by (simp add: file_stem_def uuid_text_def)
qed

lemma recover_loop_spec:
  assumes "recover_loop env fm cr master s best ks = r"
  shows "(\<forall>b. best = Some b \<longrightarrow> (\<exists>d. r = Some d \<and> cd_created b \<le> cd_created d)) \<and>
    (\<forall>k \<in> set ks. \<forall>e. suffix ''.enc'' k \<and> fetch_catalog_commit env fm cr master s (file_stem k) = Inr e \<longrightarrow>
       (\<exists>d. r = Some d \<and> cd_created e \<le> cd_created d)) \<and>
    (\<forall>d. r = Some d \<longrightarrow> best = Some d \<or> (\<exists>k \<in> set ks. fetch_catalog_commit env fm cr master s (file_stem k) = Inr d))"
  using assms
proof (induction ks arbitrary: best r)
  case (Cons k ks)
  show ?case
  proof (cases "suffix ''.enc'' k \<and> is_ok (fetch_catalog_commit env fm cr master s (file_stem k))")
    case False
    then have "recover_loop env fm cr master s best ks = r" using Cons.prems by (auto split: sum.splits)
    from Cons.IH [OF this] show ?thesis using False by auto
  next
    case True
    then obtain e where e: "fetch_catalog_commit env fm cr master s (file_stem k) = Inr e"
      by (cases "fetch_catalog_commit env fm cr master s (file_stem k)") auto
    let ?b = "case best of None \<Rightarrow> e | Some b \<Rightarrow> if cd_created e > cd_created b then e else b"
    have "recover_loop env fm cr master s (Some ?b) ks = r" using Cons.prems True e by (auto split: option.splits if_splits)
    note ih = Cons.IH [OF this]
    obtain d where d: "r = Some d" "cd_created ?b \<le> cd_created d" using ih by blast
    have "cd_created e \<le> cd_created ?b" "best = Some b \<Longrightarrow> cd_created b \<le> cd_created ?b" for b by (auto split: option.splits)
    moreover have "?b = e \<or> best = Some ?b" by (auto split: option.splits)
    ultimately show ?thesis using ih d e by (auto intro: order_trans)
  qed
qed simp

text \<open>C10: a broken pointer does not lose the catalog. When the pointer is blank or names a catalog that cannot be read, and
  the provider lists the stored catalogs, loading returns one of them, with its heads recomputed, that was created
  no earlier than any catalog that can be read.\<close>

theorem catalog_recovered:
  assumes "listing env (remote s) = Some ks" "\<forall>cid. remote s (catalog_commit_key cid) \<noteq> None \<longrightarrow> catalog_commit_key cid \<in> set ks"
    and "remote s catalog_latest_key = Some ptr"
    and "let cid = trim (case utf8 env ptr of None \<Rightarrow> [] | Some x \<Rightarrow> x) in cid = [] \<or> \<not> is_ok (fetch_catalog_commit env fm cr master s cid)"
    and "uuid_text cid0" "fetch_catalog_commit env fm cr master s cid0 = Inr d0"
  shows "\<exists>d. load_catalog env fm cr master s = refresh_bundle_heads d \<and>
    (\<exists>k \<in> set ks. fetch_catalog_commit env fm cr master s (file_stem k) = Inr d) \<and>
    (\<forall>cid e. uuid_text cid \<and> fetch_catalog_commit env fm cr master s cid = Inr e \<longrightarrow> cd_created e \<le> cd_created d)"
proof -
  let ?r = "recover_loop env fm cr master s None ks"
  note spec = recover_loop_spec [of env fm cr master s None ks, OF refl]
  have seen: "\<exists>d. ?r = Some d \<and> cd_created e \<le> cd_created d" if "uuid_text cid" "fetch_catalog_commit env fm cr master s cid = Inr e" for cid e
  proof -
    have "remote s (catalog_commit_key cid) \<noteq> None" by (rule fetch_present [OF that(2)])
    then have "catalog_commit_key cid \<in> set ks" using assms(2) by blast
    moreover have "suffix ''.enc'' (catalog_commit_key cid)" by (auto simp: catalog_commit_key_def suffix_def)
    ultimately show ?thesis using spec that file_stem_commit_key [OF that(1)] by auto
  qed
  obtain d where d: "?r = Some d" using seen [OF assms(5,6)] by blast
  have "load_catalog env fm cr master s = refresh_bundle_heads (recover_latest_catalog env fm cr master s)"
    using assms(3,4) by (auto simp: load_catalog_def Let_def split: sum.splits)
  moreover have "recover_latest_catalog env fm cr master s = d" using d assms(1) by (simp add: recover_latest_catalog_def)
  moreover have "\<exists>k \<in> set ks. fetch_catalog_commit env fm cr master s (file_stem k) = Inr d" using spec d by auto
  ultimately show ?thesis using seen d by auto
qed

definition blank_pointer_store :: store where
  "blank_pointer_store =
     (let s = snd (write_catalog toy_catalog_env plain_formats plain_crypto (\<lambda>_. Done) [1] sample_catalog empty_store) in
      s\<lparr>remote := (remote s)(catalog_latest_key \<mapsto> [])\<rparr>)"

theorem catalog_recovered_witness:
  "\<exists>d. load_catalog toy_catalog_env plain_formats plain_crypto [1] blank_pointer_store = refresh_bundle_heads d \<and>
     fetch_catalog_commit toy_catalog_env plain_formats plain_crypto [1] blank_pointer_store ''c0'' = Inr d"
proof -
  let ?env = toy_catalog_env and ?s = blank_pointer_store
  let ?fetch = "fetch_catalog_commit ?env plain_formats plain_crypto [1] ?s"
  have tot: "formats_total plain_formats" by (simp add: formats_total_def plain_formats_def)
  have len: "length (doc_json ?env sample_catalog) < 2 ^ 32" by (simp add: toy_catalog_env_def)
  obtain s' where w: "write_catalog ?env plain_formats plain_crypto (\<lambda>_. Done) [1] sample_catalog empty_store = (Inr (), s')"
    using write_catalog_works [OF _ tot plain_crypto_laws(2) len, of "\<lambda>_. Done"] by blast
  have s: "remote ?s = (remote s')(catalog_latest_key \<mapsto> [])" by (simp add: blank_pointer_store_def w)
  have laws: "catalog_laws ?env sample_catalog"
    using of_as_bytes by (auto simp: catalog_laws_def toy_catalog_env_def DOCUMENT_MAGIC_def as_bytes_def [of "''NLZ1''"])
  have id: "cd_commit sample_catalog = ''c0''" "uuid_text ''c0''" by code_simp+
  have there: "?fetch ''c0'' = Inr sample_catalog"
    using written_catalog_found [OF plain_crypto_laws(1) plain_formats_laws laws w] fetch_local [of ?s "''c0''" s'] s id(1) by simp
  have gone: "remote ?s (catalog_commit_key cid) = None" if "cid \<noteq> ''c0''" for cid
    using leavesD [OF write_catalog_frame w] that id(1) by (simp add: s outside_def empty_store_def)
  have only: "\<forall>cid. remote ?s (catalog_commit_key cid) \<noteq> None \<longrightarrow> catalog_commit_key cid \<in> set [catalog_commit_key ''c0'']"
  proof (intro allI impI)
    fix cid
    assume "remote ?s (catalog_commit_key cid) \<noteq> None"
    then have "cid = ''c0''" using gone [of cid] by (rule contrapos_np)
    then show "catalog_commit_key cid \<in> set [catalog_commit_key ''c0'']" by simp
  qed
  have list: "listing ?env (remote ?s) = Some [catalog_commit_key ''c0'']" by (simp add: toy_catalog_env_def)
  have blank: "remote ?s catalog_latest_key = Some []" by (simp add: s)
  have "trim (case utf8 ?env [] of None \<Rightarrow> [] | Some x \<Rightarrow> x) = []" by (simp add: toy_catalog_env_def of_bytes_def)
  then show ?thesis
    using catalog_recovered [OF list only blank _ id(2) there] file_stem_commit_key [OF id(2)] by (auto simp: Let_def)
qed

text \<open>Nothing looks at the history while the pointer still names an older catalog or was never written: a catalog whose
  pointer could not be written is reported as written and not seen again.\<close>

theorem stale_pointer_hides_catalog:
  assumes "write_catalog env fm cr fault master d s = (Inr (), s')" "fault (calls s + 2) = Untouched"
    and "case remote s catalog_latest_key of None \<Rightarrow> True
      | Some ptr \<Rightarrow> (case utf8 env ptr of None \<Rightarrow> False
        | Some x \<Rightarrow> trim x \<noteq> [] \<and> trim x \<noteq> cd_commit d \<and> is_ok (fetch_catalog_commit env fm cr master s (trim x)))"
  shows "load_catalog env fm cr master s' = load_catalog env fm cr master s"
proof -
  note fr = leavesD [OF write_catalog_frame assms(1)]
  have "remote s' catalog_latest_key = remote s catalog_latest_key"
    using assms(1,2) by (auto simp: write_catalog_def put_metadata_batch_def seal_catalog_def sdrop_def put_bytes_def Let_def
        elim!: sbind_InrE split: write_outcome.splits)
  moreover have "fetch_catalog_commit env fm cr master s' cid = fetch_catalog_commit env fm cr master s cid" if "cid \<noteq> cd_commit d" for cid
    by (rule fetch_local) (use fr that in \<open>simp add: outside_def\<close>)
  ultimately show ?thesis using assms(3)
    by (auto simp: load_catalog_def Let_def is_ok_def split: option.splits sum.splits)
qed

section \<open>Visible checkpoints and seals\<close>

text \<open>A visible seal or checkpoint can be decrypted to the document that was committed.\<close>

lemma visible_metadata_opens:
  assumes laws: "crypto_laws cr" "format_laws fm" "\<not> prefix DOCUMENT_MAGIC json"
    and run: "sbind (seal_metadata fm cr master aad json) (\<lambda>enc. put_metadata_batch fault (b enc)) s = (r, s')"
    and b: "\<And>enc. (k, enc) \<in> set (batch_entries (b enc))" "\<And>enc. batch_committed (b enc) = Some (mk, c)"
      "\<And>enc. distinct (map fst (batch_entries (b enc)))" "\<And>enc. mk \<notin> fst ` set (batch_entries (b enc))"
    and new: "remote s mk = None" and vis: "remote s' mk \<noteq> None"
  shows "\<exists>doc. remote s' k = Some doc \<and> open_document fm cr (catalog_key (derive_keys cr master)) aad doc = Inr json"
  using run
proof (cases rule: sbind_cases)
  case (failed e)
  then show ?thesis using new vis by (auto simp: seal_metadata_def)
next
  case (went enc s1)
  have enc: "sealed_document fm cr (nonces s) (catalog_key (derive_keys cr master)) aad json = Inr enc" and s1: "remote s1 mk = None"
    using went(1) new by (auto simp: seal_metadata_def)
  have "remote s' k = Some enc" by (rule put_metadata_batch_marker(1) [OF went(2) b(2,3,4) s1 vis b(1)])
  then show ?thesis using sealed_document_opens [OF laws enc] by simp
qed

theorem visible_seal_opens:
  assumes "crypto_laws cr" "format_laws fm" "\<not> prefix DOCUMENT_MAGIC json" "commit_seal fm cr fault master inst sid json s = (r, s')"
    and "remote s (seal_dir inst sid @ ''/'' @ COMMITTED_MARKER) = None" "remote s' (seal_dir inst sid @ ''/'' @ COMMITTED_MARKER) \<noteq> None"
  shows "\<exists>doc. remote s' (seal_dir inst sid @ ''/seal.enc'') = Some doc \<and>
    open_document fm cr (catalog_key (derive_keys cr master)) ''seal'' doc = Inr json"
  by (rule visible_metadata_opens [OF assms(1-3) assms(4) [unfolded commit_seal_def Let_def] _ _ _ _ assms(5,6)])
    (simp_all add: COMMITTED_MARKER_def)

theorem visible_checkpoint_opens:
  assumes "crypto_laws cr" "format_laws fm" "\<not> prefix DOCUMENT_MAGIC json" "commit_checkpoint fm cr fault master inst cid json meta s = (r, s')"
    and "remote s (checkpoint_dir inst cid @ ''/'' @ COMMITTED_MARKER) = None"
      "remote s' (checkpoint_dir inst cid @ ''/'' @ COMMITTED_MARKER) \<noteq> None"
  shows "\<exists>doc. remote s' (checkpoint_dir inst cid @ ''/state.enc'') = Some doc \<and>
    open_document fm cr (catalog_key (derive_keys cr master)) ''checkpoint'' doc = Inr json"
  by (rule visible_metadata_opens [OF assms(1-3) assms(4) [unfolded commit_checkpoint_def Let_def] _ _ _ _ assms(5,6)])
    (simp_all add: COMMITTED_MARKER_def)

section \<open>From a backup to the catalog\<close>

lemma update_first_hit: "list_ex P as \<Longrightarrow> \<exists>a \<in> set as. P a \<and> f a \<in> set (update_first P f as)"
  by (induction as) auto

lemma update_first_mem: "a \<in> set as \<Longrightarrow> a \<in> set (update_first P f as) \<or> f a \<in> set (update_first P f as)"
  by (induction as) auto

text \<open>The entry for \<open>b\<close> in the application's entry: \<open>b\<close> itself, or what \<open>d\<close> had under the same commit.\<close>

lemma upsert_contains:
  "\<exists>a \<in> set (cd_apps (upsert_bundle_from_manifest m b d)). ca_app a = ma_app m \<and> ca_latest a = cb_bundle b \<and>
    (\<exists>x \<in> set (ca_bundles a). cb_commit x = cb_commit b \<and> (x = b \<or> x \<in> set (bundles_of (ma_app m) d)))"
proof -
  let ?P = "\<lambda>a. ca_app a = ma_app m" and ?d = "upsert_bundle (ma_app m) (ma_name m) b d"
  let ?Q = "\<lambda>a. ca_latest a = cb_bundle b \<and>
    (\<exists>x \<in> set (ca_bundles a). cb_commit x = cb_commit b \<and> (x = b \<or> x \<in> set (bundles_of (ma_app m) d)))"
  have "\<exists>a \<in> set (cd_apps ?d). ?P a \<and> ?Q a"
  proof (cases "list_ex ?P (cd_apps d)")
    case True
    then obtain a where a: "a \<in> set (cd_apps d)" "?P a" and
        hit: "add_bundle (ma_name m) b a \<in> set (update_first ?P (add_bundle (ma_name m) b) (cd_apps d))"
      using update_first_hit [of ?P "cd_apps d" "add_bundle (ma_name m) b"] by blast
    have "?Q (add_bundle (ma_name m) b a)"
      using a by (auto simp: add_bundle_fields bundles_of_def image_iff intro: sym)
    then show ?thesis using True hit a(2)
      by (intro bexI [of _ "add_bundle (ma_name m) b a"]) (auto simp: upsert_bundle_def add_bundle_fields(1))
  next
    case False
    then show ?thesis by (auto simp: upsert_bundle_def new_app_def)
  qed
  then obtain a where a: "a \<in> set (cd_apps ?d)" "?P a" "?Q a" by blast
  have "cd_apps (upsert_bundle_from_manifest m b d) = update_first ?P (merge_app m) (cd_apps ?d)"
    by (simp add: upsert_bundle_from_manifest_def Let_def)
  then show ?thesis
    using update_first_mem [OF a(1), of ?P "merge_app m"] a(2,3) merge_app_fields [of m a] by metis
qed

lemma bundle_complete_frame:
  assumes "outside {catalog_commit_key c, catalog_marker_key c, catalog_latest_key} s s'"
  shows "bundle_complete fm cr master files m pack_files index s' = bundle_complete fm cr master files m pack_files index s"
proof -
  have keys: "remote s' (bundle_dir a b @ x) = remote s (bundle_dir a b @ x)" "remote s' (pack_remote_key p) = remote s (pack_remote_key p)" for a b x p
    using assms by (simp_all add: outside_def catalog_commit_key_def catalog_marker_key_def catalog_latest_key_def bundle_dir_def pack_remote_key_def)
  show ?thesis unfolding bundle_complete_def read_committed_manifest_def read_pack_index_def Let_def keys ..
qed

text \<open>C7: what the catalog names is there. When a bundle with fresh identifiers is committed, with any failure, and the catalog is then
  updated with it, also with any failure, and the update reports success, then the stored catalog it returns can be fetched by its
  identifier; the application's entry in it names this bundle as the latest and holds, under the commit of the manifest, the
  bundle, parent, capture time, instance, mode and logical size the manifest gives (or the entry which the catalog before it already
  had under this commit); and the bundle is complete: manifest, packs and index read back.\<close>

theorem catalogued_bundle_complete:
  assumes "crypto_laws cr" "format_laws fm" "commit_ready db files m pack_files index s"
    and "commit_bundle fm cr fault root_fails db files master m pack_files index s = (r, s1)"
    and "update_catalog_with_bundle env fm cr fault' master m stored s1 = (Inr c, s2)" "catalog_laws env c"
  shows "bundle_complete fm cr master files m pack_files index s2 \<and>
    fetch_catalog_commit env fm cr master s2 (cd_commit c) = Inr c \<and>
    (\<exists>a \<in> set (cd_apps c). ca_app a = ma_app (man_identity m) \<and> ca_latest a = man_bundle m \<and>
      (\<exists>x \<in> set (ca_bundles a). cb_commit x = man_commit m \<and>
        (x = \<lparr>cb_bundle = man_bundle m, cb_commit = man_commit m, cb_parent = man_parent m,
             cb_captured = src_captured (man_source m), cb_instance = src_instance (man_source m), cb_mode = man_mode m,
             cb_logical = unat (sum_list (map mf_size (man_files m))), cb_stored = stored\<rparr>
         \<or> x \<in> set (bundles_of (man_app m) (load_catalog env fm cr master s1)))))"
proof -
  define d where "d = (load_catalog env fm cr master s1)\<lparr>cd_commit := fresh_id env, cd_created := time_now env\<rparr>"
  define b where "b = \<lparr>cb_bundle = man_bundle m, cb_commit = man_commit m, cb_parent = man_parent m,
    cb_captured = src_captured (man_source m), cb_instance = src_instance (man_source m), cb_mode = man_mode m,
    cb_logical = unat (sum_list (map mf_size (man_files m))), cb_stored = stored\<rparr>"
  have vis: "remote s1 (marker_of m) \<noteq> None" using assms(5) by (auto simp: update_catalog_with_bundle_def split: if_splits)
  have c: "c = upsert_bundle_from_manifest (man_identity m) b d" and w: "write_catalog env fm cr fault' master c s1 = (Inr (), s2)"
    using assms(5) vis by (auto simp: update_catalog_with_bundle_def Let_def d_def b_def logical_size_def elim!: sbind_InrE)
  have "bundle_complete fm cr master files m pack_files index s1"
    using commit_visibility_cases [OF assms(1-4)] vis by simp
  then have "bundle_complete fm cr master files m pack_files index s2"
    using bundle_complete_frame [OF leavesD [OF write_catalog_frame w]] by simp
  moreover have "bundles_of (man_app m) d = bundles_of (man_app m) (load_catalog env fm cr master s1)"
    by (simp add: d_def bundles_of_def)
  then have "\<exists>a \<in> set (cd_apps c). ca_app a = ma_app (man_identity m) \<and> ca_latest a = man_bundle m \<and>
      (\<exists>x \<in> set (ca_bundles a). cb_commit x = man_commit m \<and>
        (x = b \<or> x \<in> set (bundles_of (man_app m) (load_catalog env fm cr master s1))))"
    using upsert_contains [of "man_identity m" b d] unfolding c by (simp add: b_def)
  ultimately show ?thesis using written_catalog_found [OF assms(1,2,6) w] unfolding b_def by blast
qed

definition committed_store :: store where
  "committed_store = snd (one_commit (\<lambda>_. Done))"

definition manifest_entry :: catalog_bundle where
  "manifest_entry = \<lparr>cb_bundle = ''b'', cb_commit = ''c'', cb_parent = None, cb_captured = 3, cb_instance = ''i'',
     cb_mode = CompleteApplication, cb_logical = 10, cb_stored = 8\<rparr>"

definition first_catalog :: catalog_document where
  "first_catalog = upsert_bundle_from_manifest sample_app manifest_entry
     ((load_catalog toy_catalog_env plain_formats plain_crypto [1] committed_store)\<lparr>cd_commit := ''f1'', cd_created := 7\<rparr>)"

definition first_env :: catalog_env where
  "first_env = toy_catalog_env\<lparr>doc_parse := \<lambda>_. Some first_catalog\<rparr>"

theorem catalogued_bundle_complete_witness:
  "\<exists>c s2. update_catalog_with_bundle first_env plain_formats plain_crypto (\<lambda>_. Done) [1] one_manifest 8 committed_store = (Inr c, s2) \<and>
     bundle_complete plain_formats plain_crypto [1] sample_files one_manifest [(''a'', ''a.pack'')] (Some [91, 93]) s2 \<and>
     (\<exists>a \<in> set (cd_apps c). ca_app a = ''steam:42'' \<and> ca_latest a = ''b'' \<and> manifest_entry \<in> set (ca_bundles a))"
proof -
  let ?upd = "update_catalog_with_bundle first_env plain_formats plain_crypto (\<lambda>_. Done) [1] one_manifest 8"
  obtain sx where ok: "one_commit (\<lambda>_. Done) = (Inr (), sx)"
    using commit_bundle_works [OF one_unhindered, of "[1]"] by (auto simp: one_commit_def)
  then have st: "committed_store = sx" by (simp add: committed_store_def)
  note run = ok [unfolded one_commit_def, folded st]
  have new: "remote empty_store (marker_of one_manifest) = None" by (simp add: empty_store_def)
  have vis: "remote committed_store (marker_of one_manifest) \<noteq> None"
    using commit_visibility_cases [OF plain_crypto_laws(1) plain_formats_laws one_ready run] by simp
  have entry: "manifest_entry = \<lparr>cb_bundle = man_bundle one_manifest, cb_commit = man_commit one_manifest,
      cb_parent = man_parent one_manifest, cb_captured = src_captured (man_source one_manifest),
      cb_instance = src_instance (man_source one_manifest), cb_mode = man_mode one_manifest,
      cb_logical = unat (sum_list (map mf_size (man_files one_manifest))), cb_stored = 8\<rparr>" "man_identity one_manifest = sample_app"
    by (simp_all add: manifest_entry_def one_manifest_def)
  have "catalog_latest_key \<notin> range pack_remote_key \<union> range (\<lambda>x. bundle_dir (man_app one_manifest) (man_bundle one_manifest) @ x)"
    by (auto simp: catalog_latest_key_def pack_remote_key_def bundle_dir_def)
  then have "remote committed_store catalog_latest_key = None"
    using commit_success_frame [OF run _ new] by (simp add: outside_def empty_store_def)
  then have none: "bundles_of app (load_catalog first_env plain_formats plain_crypto [1] committed_store) = []" for app
    by (simp add: load_catalog_def empty_catalog_def bundles_of_def)
  from \<open>remote committed_store catalog_latest_key = None\<close> have same: "load_catalog first_env plain_formats plain_crypto [1] committed_store = load_catalog toy_catalog_env plain_formats plain_crypto [1] committed_store"
    by (simp add: load_catalog_def first_env_def toy_catalog_env_def)
  have env: "fresh_id first_env = ''f1''" "time_now first_env = 7" by (simp_all add: first_env_def toy_catalog_env_def)
  have laws: "catalog_laws first_env first_catalog"
    using of_as_bytes by (auto simp: catalog_laws_def first_env_def toy_catalog_env_def DOCUMENT_MAGIC_def as_bytes_def [of "''NLZ1''"])
  have "formats_total plain_formats" "length (doc_json first_env first_catalog) < 2 ^ 32"
    by (simp_all add: formats_total_def plain_formats_def first_env_def toy_catalog_env_def)
  then obtain s2 where "write_catalog first_env plain_formats plain_crypto (\<lambda>_. Done) [1] first_catalog committed_store = (Inr (), s2)"
    using write_catalog_works [of "\<lambda>_. Done"] plain_crypto_laws(2) by blast
  then have upd: "?upd committed_store = (Inr first_catalog, s2)"
    using vis same env unfolding update_catalog_with_bundle_def Let_def first_catalog_def entry logical_size_def by simp
  from catalogued_bundle_complete [OF plain_crypto_laws(1) plain_formats_laws one_ready run upd laws]
  have "bundle_complete plain_formats plain_crypto [1] sample_files one_manifest [(''a'', ''a.pack'')] (Some [91, 93]) s2 \<and>
     (\<exists>a \<in> set (cd_apps first_catalog). ca_app a = ma_app sample_app \<and> ca_latest a = man_bundle one_manifest \<and>
       manifest_entry \<in> set (ca_bundles a))"
    unfolding none entry(1) [symmetric] entry(2) by auto
  then show ?thesis using upd by (auto simp: one_manifest_def sample_app_def)
qed

end
