(* ===== verification/Spec2Isabelle.thy ===== *)
theory Spec2Isabelle
  imports Lifecycle_Properties Remote_Control Mic_Daemon Worker_Pools Local_Cas Catalog
begin

text \<open>
  Verification of the host-side programs of no_land, a system that rents a machine in the cloud, streams
  applications from it and keeps the user's state in encrypted backups.

  \<^bold>\<open>The program.\<close> Five Rust programs run on or beside the rented machine:

  \<^item> the \<^emph>\<open>lifecycle agent\<close> (\<^verbatim>\<open>src/state-agent/crates/noland-lifecycle-agent\<close>) watches the user's activity; after an
    idle period it freezes a selection of applications, has each of them backed up by the state agent,
    verifies the commits and only then asks the provider to stop or destroy the machine;
  \<^item> the \<^emph>\<open>state agent\<close> (the other crates of \<^verbatim>\<open>src/state-agent/crates\<close>) makes the backups: it cuts files into
    chunks, keeps them in a local cache, groups new ones into encrypted packs, uploads these and commits a
    bundle that names them;
  \<^item> the \<^emph>\<open>network agent\<close> (\<^verbatim>\<open>src/network-agent\<close>, with the wire contracts of \<^verbatim>\<open>src/network-contracts\<close>) keeps the
    connection profile of the WireGuard interface, answers authenticated path probes, collects telemetry
    and obeys an authenticated control channel;
  \<^item> the \<^emph>\<open>microphone sidecar\<close> (\<^verbatim>\<open>src/mic-sidecar\<close>) captures the user's microphone and sends it in frames;
  \<^item> the \<^emph>\<open>desktop application\<close> (\<^verbatim>\<open>src/src-tauri\<close>) drives all of them; it is not modelled.

  They interact as follows. The lifecycle agent calls the state agent over a socket; the answers are an input
  of its model (\<open>rpc\<close>), so its theorems hold for every state agent. Inside the state agent the planner hands
  groups of chunks to the packers, whose thread pools are modelled as interleaved steps; the packs, with an index and a manifest, are
  committed to shared storage, and the catalog is updated from the committed manifest. In the
  network agent the control channel dispatches to the manager of connection profiles, which also installs
  the probe sessions that the probe responder consults. In the sidecar the capture thread fills the audio ring that
  the sender thread empties.

  \<^bold>\<open>Theories and sources.\<close>

  \<^item> \<open>Prelude\<close>, \<open>Json\<close>, \<open>Rust_Path\<close>: bytes and integer encodings (contract \<open>fixed_codec\<close>), results and the
    \<^verbatim>\<open>?\<close> operator, the text of enumerations (contract \<open>enum_codec\<close>), sliding windows (contract \<open>aged_log\<close>), JSON values and
    the parts of \<^verbatim>\<open>str\<close> and \<^verbatim>\<open>std::path\<close> the sources use.
  \<^item> \<open>Lifecycle_Model\<close> (\<^verbatim>\<open>model.rs\<close>, \<^verbatim>\<open>config.rs\<close>, \<^verbatim>\<open>capability.rs\<close>), \<open>Lifecycle_Db\<close> (\<^verbatim>\<open>db.rs\<close>), \<open>Lifecycle_Activity\<close>
    (\<^verbatim>\<open>activity.rs\<close>), \<open>Lifecycle_Client\<close> (\<^verbatim>\<open>state_agent.rs\<close>), \<open>Lifecycle_Engine\<close> (\<^verbatim>\<open>engine.rs\<close>, \<^verbatim>\<open>main.rs\<close>): the lifecycle
    agent, one definition per method. \<open>Lifecycle_System\<close> holds the shared state and the computations over it.
    \<open>Lifecycle_Safety\<close>, \<open>Lifecycle_Progress\<close> and \<open>Lifecycle_Properties\<close> hold its theorems.
  \<^item> \<open>State_Core\<close> (\<^verbatim>\<open>noland-state-core\<close>), \<open>Chunking\<close> and \<open>Local_Cas\<close> (\<^verbatim>\<open>noland-cas\<close>), \<open>Pack\<close> (\<^verbatim>\<open>noland-crypto\<close>,
    \<^verbatim>\<open>noland-pack\<close>), \<open>Backup_Packs\<close> and \<open>Worker_Pools\<close> (\<^verbatim>\<open>noland-state-agent/src/backup.rs\<close>): the path of a
    backup from file contents to packs. \<open>State_Core\<close> also has the operations that change a state and may fail (\<open>sop\<close>).
  \<^item> \<open>Sync_Journal\<close> (\<^verbatim>\<open>noland-state-db/src/persistence.rs\<close>, \<^verbatim>\<open>store.rs\<close>), \<open>Bundle_Commit\<close> and \<open>Catalog\<close> (\<^verbatim>\<open>noland-storage\<close>,
    \<^verbatim>\<open>noland-state-core/src/catalog.rs\<close>): from packs to a bundle that is visible in shared storage and entered in the catalog.
  \<^item> \<open>Probe\<close> (\<^verbatim>\<open>network-contracts/src/probe.rs\<close>), \<open>Turn_Manager\<close> (\<^verbatim>\<open>turn_manager.rs\<close>, \<^verbatim>\<open>link_profile.rs\<close>, the contract types),
    \<open>Profile_Transactions\<close> and \<open>Profile_Properties\<close> (its theorems), \<open>Telemetry\<close> (\<^verbatim>\<open>telemetry\<close>, \<^verbatim>\<open>classifier\<close>),
    \<open>Probe_Session\<close> (\<^verbatim>\<open>session.rs\<close>, \<^verbatim>\<open>probe/mod.rs\<close>), \<open>Remote_Control\<close> (\<^verbatim>\<open>remote_control.rs\<close>, \<^verbatim>\<open>control.rs\<close>): the network agent.
  \<^item> \<open>Audio_Ring\<close> (\<^verbatim>\<open>ring.rs\<close>), \<open>Mic_Session\<close> (\<^verbatim>\<open>protocol.rs\<close>, \<^verbatim>\<open>state.rs\<close>, \<^verbatim>\<open>metrics.rs\<close>, \<^verbatim>\<open>pipeline.rs\<close>), \<open>Mic_Daemon\<close>
    (\<^verbatim>\<open>main.rs\<close>, \<^verbatim>\<open>capture.rs\<close>): the microphone sidecar.

  \<^bold>\<open>How state and operations correspond.\<close> A struct is a record and an enum a datatype with the source's
  names; a method is a definition that takes and returns the state. An error is a value; error texts leave out
  the values the code formats into them. A SQLite table is a list of rows, a statement or
  transaction an operation on it, and a failing statement leaves the table as it was. Everything a program asks of
  the outside (clock, files, sockets, other programs, random numbers, and the outcome of each write) is a
  parameter that may answer anything, unless a theorem states a hypothesis about it. Cryptographic functions,
  compression, floating point, hexadecimal and the text forms of JSON and times are parameters too, with the laws a theorem
  needs as named hypotheses (\<open>crypto_laws\<close>: decryption undoes encryption; \<open>format_laws\<close>, \<open>catalog_laws\<close>: compressed and JSON
  documents read back). A write to shared storage can fail with nothing or a part written.

  \<^bold>\<open>What the theorems show.\<close>

  \<^item> \<^emph>\<open>Lifecycle agent.\<close> The machine is stopped only after every frozen application has a backup whose commit
    was confirmed, whatever fails and whatever requests arrive in between; the frozen selection never changes,
    contains no process of a shell, a system service or no_land, and every application is tried at most three times. The proof carries a
    history of the run through all computations (contract \<open>engine_invariant\<close>). Every tick returns; an evaluation that
    succeeds leaves no run half-way.
  \<^item> \<^emph>\<open>Backups.\<close> Chunks put together are the file; cutting a stream equals cutting in memory; the local cache
    never replaces an object, reports success only for verified content and evicts only unpinned ones; a plan becomes exactly one pack that holds exactly its
    chunks, and every chunk can be extracted again; a failed write leaves no torn pack unless removing it fails too; in every interleaving a
    pool that is not cancelled returns all results or an error, and it cannot get stuck while nothing fails. That a
    cancelled pool can deadlock is a theorem as well.
  \<^item> \<^emph>\<open>Shared storage.\<close> Whatever write or statement fails, a bundle is invisible or complete, and when nothing fails it becomes
    visible; what the catalog names is complete and described as its manifest says; entering a bundle loses no history; a written catalog is found by its identifier,
    by its pointer, or, when the pointer is broken, by a search of the history; the transfer journal stays
    consistent as long as entries written directly carry the times of their state. That a pointer which could not be written hides the new catalog is a theorem as well.
  \<^item> \<^emph>\<open>Network agent.\<close> A profile change is atomic across crashes at every input/output call and failures of every call but
    two, and the interface has the MTU of the committed or the prepared profile; the two are setting the MTU, which must not fail after it
    took effect (as it does when its read-back fails), and reading the state file at start. That the guarantee ends with each of
    these two failures is shown by runs. Only the matching commit advances the revision (contract \<open>op_logic\<close>). Probe packets round-trip, are acknowledged exactly when authentic, on their declared and allowed path and
    within the rate, and the rate is bounded; the session registry is bounded; the control MACs bind every field and the kind of the
    message; control requests run once, in order and for their own session; a replayed hello is accepted only after 1,024 others or around the
    end of the nonce retention, in a window as wide as the clocks disagree.
  \<^item> \<^emph>\<open>Microphone.\<close> The ring refines a queue of the newest samples, and under every interleaving of its
    atomic accesses delivers only samples that were pushed; sessions start completely or not at all, and shutdown
    releases everything.

  \<^bold>\<open>Bounds and fuel.\<close> The status polling of \<^verbatim>\<open>monitor_and_verify\<close> is the only loop with fuel: 901 polls are enough
    because the clock advances by at least the poll interval between polls (theorem \<open>tick_returns\<close>). The loops of the chunker are
    partial functions that are \<open>None\<close> when endless; \<open>chunks_reassemble\<close> shows that they return for the sizes the
    entry points accept. All other recursion is structural. Capacities keep the values of the source: 3 attempts, 10 applications,
    1,500 samples, 1,024 nonces, 512 MiB packs.

  \<^bold>\<open>Limits of the models.\<close> Memory is sequentially consistent; each access to a shared atomic, channel or
    lock is one step; packing one plan is one step of a worker. The clock does not advance within one operation of
    the microphone daemon. An object that is in shared storage can be read. Sums of file sizes wrap around, as
    in a release build. The answer to a hello is always sent. A database that fails in the middle of the agent's work is modelled as a failing
    statement, not as lost rows.

  \<^bold>\<open>Not modelled.\<close> The desktop application and its helper (sequences of commands to operating-system tools, cloud
    providers and native libraries), sockets and start-up of the agents, GStreamer and device handling, the rclone
    provider (it runs an external program; the file-system provider stands for shared storage), and of the state agent: snapshots, discovery and attribution of files (heuristics over process observations), restore
    (materialising files on a live system) and request dispatch. The TypeScript user interface, vendored C code, scripts
    and packaging are outside the language of the models.
\<close>

end
